(* ===== verification/Prelude.thy ===== *)
theory Prelude
  imports Main "HOL-Library.Word" "HOL-Library.Monad_Syntax"
begin

text \<open>
  Shared vocabulary of the development.

  \<^item> Bytes and byte strings: Go's \<open>byte\<close> is \<^typ>\<open>8 word\<close>; a \<open>[]byte\<close> and a Go \<open>string\<close>
    are byte lists. A slice whose nil/empty distinction the code observes is a
    \<^typ>\<open>8 word list option\<close> with \<open>None\<close> for nil.
  \<^item> Errors: a Go \<open>(T, error)\<close> result is \<open>'e + 'a\<close> with \<open>Inl\<close> the error, chained by
    \<open>res_bind\<close>; a Go panic is \<open>None\<close> of an \<open>option\<close>, chained by the option monad.
  \<^item> Big-endian integers (\<open>encoding/binary\<close>): \<open>be_bytes n v\<close> is what
    \<open>PutUint64\<close>/\<open>AppendUint64\<close> (n = 8) and the 32-bit variants (n = 4) write, and
    \<open>be_nat\<close> is what \<open>Uint64\<close>/\<open>Uint32\<close> read.
\<close>

named_theorems codec_simps \<open>rewriting of encoders and decoders\<close>

type_synonym byte = "8 word"
type_synonym bytes = "8 word list"
type_synonym uint64 = "64 word"

section \<open>Results\<close>

definition res_bind :: "'e + 'a \<Rightarrow> ('a \<Rightarrow> 'e + 'b) \<Rightarrow> 'e + 'b" where
  "res_bind x f = (case x of Inl e \<Rightarrow> Inl e | Inr a \<Rightarrow> f a)"

lemma res_bind_Inl [simp]: "res_bind (Inl e) f = Inl e"
  by (simp add: res_bind_def)

lemma res_bind_Inr [simp]: "res_bind (Inr a) f = f a"
  by (simp add: res_bind_def)

lemma res_bind_eq_Inr: "res_bind x f = Inr b \<longleftrightarrow> (\<exists>a. x = Inr a \<and> f a = Inr b)"
  by (cases x) auto

lemma res_bind_cong [fundef_cong]:
  "x = y \<Longrightarrow> (\<And>a. y = Inr a \<Longrightarrow> f a = g a) \<Longrightarrow> res_bind x f = res_bind y g"
  by (cases y) auto

section \<open>Big-endian integers\<close>

primrec be_bytes :: "nat \<Rightarrow> nat \<Rightarrow> bytes" where
  "be_bytes 0 v = []"
| "be_bytes (Suc n) v = be_bytes n (v div 256) @ [word_of_nat v]"

definition be_nat :: "bytes \<Rightarrow> nat" where
  "be_nat bs = foldl (\<lambda>a b. a * 256 + unat b) 0 bs"

lemma length_be_bytes [simp]: "length (be_bytes n v) = n"
  by (induction n arbitrary: v) auto

lemma be_nat_Nil [simp]: "be_nat [] = 0"
  by (simp add: be_nat_def)

lemma be_nat_snoc [simp]: "be_nat (bs @ [b]) = be_nat bs * 256 + unat b"
  by (simp add: be_nat_def)

lemma unat_byte_less: "unat (b :: byte) < 256"
  using unsigned_less [of b, where ?'a = nat] by simp

lemma be_nat_less: "be_nat bs < 256 ^ length bs"
proof (induction bs rule: rev_induct)
  case Nil
  then show ?case by simp
next
  case (snoc b bs)
  have "be_nat bs * 256 + unat b < (be_nat bs + 1) * 256"
    using unat_byte_less [of b] by simp
  also have "\<dots> \<le> 256 ^ length bs * 256"
    using snoc.IH by (intro mult_right_mono) auto
  finally show ?case by simp
qed

lemma unat_of_nat_byte: "unat (word_of_nat v :: byte) = v mod 256"
  by (simp add: unat_of_nat)

lemma be_nat_be_bytes [simp]: "be_nat (be_bytes n v) = v mod 256 ^ n"
proof (induction n arbitrary: v)
  case 0
  then show ?case by simp
next
  case (Suc n)
  have "v mod 256 ^ Suc n = (v div 256) mod 256 ^ n * 256 + v mod 256"
    by (simp add: mod_mult2_eq)
  with Suc.IH show ?case by (simp add: unat_of_nat_byte)
qed

lemma be_bytes_be_nat [simp]: "be_bytes (length bs) (be_nat bs) = bs"
proof (induction bs rule: rev_induct)
  case Nil
  then show ?case by simp
next
  case (snoc b bs)
  have "(be_nat bs * 256 + unat b) div 256 = be_nat bs"
    using unat_byte_less [of b] by simp
  moreover have "(word_of_nat (be_nat bs * 256 + unat b) :: byte) = b"
    by (simp add: word_unat_eq_iff unat_of_nat_byte unat_byte_less flip: of_nat_add of_nat_mult)
  ultimately show ?case using snoc.IH by simp
qed

lemma be_bytes_be_nat_len: "length bs = n \<Longrightarrow> be_bytes n (be_nat bs) = bs"
  using be_bytes_be_nat by blast

lemma be_bytes_mod: "be_bytes n (v mod 256 ^ n) = be_bytes n v"
  by (metis be_bytes_be_nat_len be_nat_be_bytes length_be_bytes)

lemma be_bytes_inj: "v < 256 ^ n \<Longrightarrow> w < 256 ^ n \<Longrightarrow> be_bytes n v = be_bytes n w \<longleftrightarrow> v = w"
  by (metis be_nat_be_bytes mod_less)

lemma be_nat_be_bytes8: "v < 2 ^ 64 \<Longrightarrow> be_nat (be_bytes 8 v) = v"
  by simp

lemma be_nat_be_bytes4: "v < 2 ^ 32 \<Longrightarrow> be_nat (be_bytes 4 v) = v"
  by simp

lemma unat_mod_64 [simp]: "unat (v :: uint64) mod 18446744073709551616 = unat v"
  using unsigned_less [of v, where ?'a = nat] by simp

lemma be_nat_be_bytes8_unat: "be_nat (be_bytes 8 (unat (v :: uint64))) = unat v"
  using unsigned_less [of v, where ?'a = nat] by simp

lemma be_nat8_less: "length bs = 8 \<Longrightarrow> be_nat bs < 18446744073709551616"
  using be_nat_less [of bs] by simp

lemma be_nat4_less: "length bs = 4 \<Longrightarrow> be_nat bs < 4294967296"
  using be_nat_less [of bs] by simp


section \<open>Unsigned subtraction\<close>

text \<open>
  Terms, indices and node identifiers are Go \<open>uint64\<close>s that the protocol increments one at
  a time; they are natural numbers here. Where the source subtracts and the result could
  pass below zero, the wrap-around of \<open>uint64\<close> is written out.
\<close>

definition usub64 :: "nat \<Rightarrow> nat \<Rightarrow> nat" where
  "usub64 a b = (if b \<le> a then a - b else 2 ^ 64 + a - b)"

lemma usub64_le [simp]: "b \<le> a \<Longrightarrow> usub64 a b = a - b"
  by (simp add: usub64_def)

section \<open>List segments\<close>

lemma take_min_length: "take (min n (length xs)) xs = take n xs"
  by (simp add: min_def)

lemma segment_append:
  assumes "j \<le> length xs" and "lo \<le> hi"
  shows "take (hi - lo) (drop lo (take j xs @ ys)) =
    (if lo < j then take (min hi j - lo) (drop lo xs) else []) @
    (if j < hi then take (hi - max lo j) (drop (max lo j - j) ys) else [])"
proof (cases "lo < j")
  case True
  with assms show ?thesis
    by (cases "j < hi") (simp_all add: min_absorb1 min_absorb2 max_absorb1 max_absorb2 drop_take)
next
  case False
  with assms show ?thesis
    by (cases "j < hi") (simp_all add: min_absorb1 min_absorb2 max_absorb1 max_absorb2)
qed

text \<open>The same with all positions counted from \<open>k\<close>.\<close>

lemma segment_append_from:
  assumes "j - k \<le> length xs" and "lo \<le> hi" and "k \<le> j" and "k \<le> lo"
  shows "take (hi - lo) (drop (lo - k) (take (j - k) xs @ ys)) =
    (if lo < j then take (min hi j - lo) (drop (lo - k) xs) else []) @
    (if j < hi then take (hi - max lo j) (drop (max lo j - j) ys) else [])"
proof -
  obtain j' where j: "j = k + j'" using assms(3) le_Suc_ex by blast
  obtain l' where l: "lo = k + l'" using assms(4) le_Suc_ex by blast
  obtain h' where h: "hi = k + h'" using assms(2,4) le_Suc_ex [of k hi] by auto
  show ?thesis
    using segment_append [of j' xs l' h' ys] assms(1,2)
    by (simp add: j l h min_add_distrib_right [symmetric] max_add_distrib_right [symmetric])
qed

section \<open>Loops in the option monad\<close>

text \<open>A Go range loop whose body may panic.\<close>

fun fold_opt :: "('a \<Rightarrow> 's \<Rightarrow> 's option) \<Rightarrow> 'a list \<Rightarrow> 's \<Rightarrow> 's option" where
  "fold_opt f [] s = Some s"
| "fold_opt f (x # xs) s = Option.bind (f x s) (fold_opt f xs)"

lemma bind_SomeE:
  assumes "Option.bind x f = Some y"
  obtains z where "x = Some z" and "f z = Some y"
  using assms by (cases x) auto

lemma fold_opt_append:
  "fold_opt f (xs @ ys) s = Option.bind (fold_opt f xs s) (fold_opt f ys)"
  by (induction xs arbitrary: s) (auto split: Option.bind_splits)

text \<open>Whatever reflexive and transitive relation the body respects, the loop respects.\<close>

lemma fold_opt_rel:
  assumes "fold_opt f xs s = Some s'"
    and "\<And>s. R s s" and "\<And>s t u. R s t \<Longrightarrow> R t u \<Longrightarrow> R s u"
    and "\<And>x s t. x \<in> set xs \<Longrightarrow> f x s = Some t \<Longrightarrow> R s t"
  shows "R s s'"
  using assms(1,4)
proof (induction xs arbitrary: s)
  case Nil
  then show ?case using assms(2) by simp
next
  case (Cons x xs)
  from Cons.prems(1) obtain t where t: "f x s = Some t" "fold_opt f xs t = Some s'"
    by (auto simp: bind_eq_Some_conv)
  have "R s t" using Cons.prems(2) [of x s t] t(1) by simp
  moreover have "R t s'" using Cons.prems(2) by (intro Cons.IH [OF t(2)]) (meson list.set_intros(2))
  ultimately show ?case by (rule assms(3))
qed

lemma fold_opt_inv:
  assumes "fold_opt f xs s = Some s'" and "P s"
    and "\<And>x s t. x \<in> set xs \<Longrightarrow> P s \<Longrightarrow> f x s = Some t \<Longrightarrow> P t"
  shows "P s'"
  using assms
proof (induction xs arbitrary: s)
  case (Cons x xs)
  from Cons.prems(1) obtain t where t: "f x s = Some t" "fold_opt f xs t = Some s'"
    by (auto simp: bind_eq_Some_conv)
  have "P t" using Cons.prems(2) Cons.prems(3) [of x s t] t(1) by simp
  then show ?case using Cons.prems(3) by (intro Cons.IH [OF t(2)]) (blast intro: list.set_intros(2))+
qed simp

end
