(* ===== verification/Raft_Types.thy ===== *)
theory Raft_Types
  imports Prelude
begin

text \<open>
  The vocabulary of the consensus core: \<^verbatim>\<open>raft/types.go\<close> (messages, entries, hard state,
  snapshots, Ready), \<^verbatim>\<open>raft/config.go\<close> (\<open>Config\<close> and its validation) and
  \<^verbatim>\<open>raft/storage.go\<close> (the sentinel errors and the \<open>LogStorage\<close> interface).

  Node identifiers, terms and indices are natural numbers; \<open>EntryType\<close> stays a byte since
  the write-ahead log decodes it from an unchecked byte. A Go interface value is a table of
  methods and a receiver: \<open>LogStorage\<close> is the table, with the receiver type as parameter.
\<close>

section \<open>Messages, entries and batches\<close>

datatype MessageType =
    MsgUnknown
  | MsgPropose
  | MsgReadIndex
  | MsgPreVote
  | MsgPreVoteResp
  | MsgVote
  | MsgVoteResp
  | MsgAppend
  | MsgAppendResp
  | MsgHeartbeat
  | MsgHeartbeatResp
  | MsgInstallSnapshot
  | MsgInstallSnapshotResp

type_synonym EntryType = byte

abbreviation EntryNormal :: EntryType where "EntryNormal \<equiv> 0"
abbreviation EntryNoop :: EntryType where "EntryNoop \<equiv> 1"

record Entry =
  eTerm :: nat
  eIndex :: nat
  eType :: EntryType
  eData :: bytes

record HardState =
  hsTerm :: nat
  hsVote :: nat
  hsCommit :: nat

record SnapshotMetadata =
  smIndex :: nat
  smTerm :: nat

record Snapshot =
  snMetadata :: SnapshotMetadata
  snData :: bytes

record Message =
  mType :: MessageType
  mFrom :: nat
  mTo :: nat
  mTerm :: nat
  mLogIndex :: nat
  mLogTerm :: nat
  mEntries :: "Entry list"
  mCommit :: nat
  mReject :: bool
  mRejectHint :: nat
  mHintTerm :: nat
  mSnapshot :: "Snapshot option"
  mContext :: bytes

record ReadState =
  rsIndex :: nat
  rsRequestCtx :: bytes

record Ready =
  rdHardState :: "HardState option"
  rdEntries :: "Entry list"
  rdSnapshot :: "Snapshot option"
  rdCommittedEntries :: "Entry list"
  rdMessages :: "Message list"
  rdReadStates :: "ReadState list"
  rdMustSync :: bool

datatype StateType = StateFollower | StatePreCandidate | StateCandidate | StateLeader

fun StateType_String :: "StateType \<Rightarrow> string" where
  "StateType_String StateFollower = ''follower''"
| "StateType_String StatePreCandidate = ''pre-candidate''"
| "StateType_String StateCandidate = ''candidate''"
| "StateType_String StateLeader = ''leader''"

text \<open>The zero values the source's composite literals start from.\<close>

definition message0 :: Message where
  "message0 = \<lparr>mType = MsgUnknown, mFrom = 0, mTo = 0, mTerm = 0, mLogIndex = 0, mLogTerm = 0,
     mEntries = [], mCommit = 0, mReject = False, mRejectHint = 0, mHintTerm = 0,
     mSnapshot = None, mContext = []\<rparr>"

definition hardState0 :: HardState where
  "hardState0 = \<lparr>hsTerm = 0, hsVote = 0, hsCommit = 0\<rparr>"

definition snapshot0 :: Snapshot where
  "snapshot0 = \<lparr>snMetadata = \<lparr>smIndex = 0, smTerm = 0\<rparr>, snData = []\<rparr>"

abbreviation snIndex :: "Snapshot \<Rightarrow> nat" where "snIndex s \<equiv> smIndex (snMetadata s)"
abbreviation snTerm :: "Snapshot \<Rightarrow> nat" where "snTerm s \<equiv> smTerm (snMetadata s)"

section \<open>Configuration\<close>

text \<open>
  \<open>cfgRand\<close> is the injected \<open>*rand.Rand\<close>: nil, or the sequence of raw values its source will
  produce. The core only calls \<open>Intn\<close>, which reduces the next value to the requested range.
\<close>

record Config =
  cfgID :: nat
  cfgPeers :: "nat list"
  cfgElectionTicks :: int
  cfgHeartbeatTicks :: int
  cfgMaxEntriesPerAppend :: int
  cfgPreVote :: bool
  cfgRand :: "(nat \<Rightarrow> nat) option"

datatype config_error =
    ErrIDNotPositive
  | ErrElectionTicks
  | ErrHeartbeatTicks
  | ErrRandRequired
  | ErrPeerNotPositive
  | ErrPeerDuplicate
  | ErrPeersMissSelf

fun validatePeers :: "nat \<Rightarrow> nat list \<Rightarrow> nat list \<Rightarrow> bool \<Rightarrow> config_error option" where
  "validatePeers self [] seen found = (if \<not> found then Some ErrPeersMissSelf else None)"
| "validatePeers self (p # ps) seen found =
     (if p = 0 then Some ErrPeerNotPositive
      else if p \<in> set seen then Some ErrPeerDuplicate
      else validatePeers self ps (p # seen) (found \<or> p = self))"

definition validate :: "Config \<Rightarrow> config_error option" where
  "validate c =
     (if cfgID c = 0 then Some ErrIDNotPositive
      else if cfgElectionTicks c \<le> cfgHeartbeatTicks c then Some ErrElectionTicks
      else if cfgHeartbeatTicks c \<le> 0 then Some ErrHeartbeatTicks
      else if cfgRand c = None then Some ErrRandRequired
      else validatePeers (cfgID c) (cfgPeers c) [] False)"

lemma validatePeers_None:
  "validatePeers self ps seen found = None \<longleftrightarrow>
     0 \<notin> set ps \<and> distinct ps \<and> set ps \<inter> set seen = {} \<and> (found \<or> self \<in> set ps)"
  by (induction ps arbitrary: seen found) (simp_all, blast)

lemma validate_None:
  "validate c = None \<longleftrightarrow>
     cfgID c \<noteq> 0 \<and> cfgHeartbeatTicks c < cfgElectionTicks c \<and> 0 < cfgHeartbeatTicks c \<and>
     cfgRand c \<noteq> None \<and> 0 \<notin> set (cfgPeers c) \<and> distinct (cfgPeers c) \<and> cfgID c \<in> set (cfgPeers c)"
  by (simp add: validate_def validatePeers_None not_le)

section \<open>The storage interface\<close>

datatype raft_error = ErrCompacted | ErrUnavailable | ErrNotLeader | ErrStorage string

record 'st LogStorage =
  opAppendEntries :: "'st \<Rightarrow> Entry list \<Rightarrow> (raft_error option \<times> 'st) option"
  opSetHardState :: "'st \<Rightarrow> HardState \<Rightarrow> raft_error option \<times> 'st"
  opHardState :: "'st \<Rightarrow> raft_error + HardState"
  opEntries :: "'st \<Rightarrow> nat \<Rightarrow> nat \<Rightarrow> raft_error + Entry list"
  opTerm :: "'st \<Rightarrow> nat \<Rightarrow> raft_error + nat"
  opFirstIndex :: "'st \<Rightarrow> raft_error + nat"
  opLastIndex :: "'st \<Rightarrow> raft_error + nat"
  opApplySnapshot :: "'st \<Rightarrow> Snapshot \<Rightarrow> raft_error option \<times> 'st"
  opSnapshot :: "'st \<Rightarrow> raft_error + Snapshot"

section \<open>Contiguous entry lists\<close>

text \<open>\<open>contig n es\<close>: the entries carry the indices \<open>n\<close>, \<open>n + 1\<close>, and so on.\<close>

definition contig :: "nat \<Rightarrow> Entry list \<Rightarrow> bool" where
  "contig n es \<longleftrightarrow> map eIndex es = [n..<n + length es]"

lemma contig_Nil [simp]: "contig n []"
  by (simp add: contig_def)

lemma contig_nth: "contig n es \<longleftrightarrow> (\<forall>i < length es. eIndex (es ! i) = n + i)"
  by (induction es rule: rev_induct) (auto simp: contig_def nth_append less_Suc_eq)

lemma contig_Cons [simp]: "contig n (e # es) \<longleftrightarrow> eIndex e = n \<and> contig (Suc n) es"
  by (simp add: contig_def upt_conv_Cons del: upt_Suc)

lemma contig_append [simp]: "contig n (xs @ ys) \<longleftrightarrow> contig n xs \<and> contig (n + length xs) ys"
  by (induction xs arbitrary: n) simp_all

lemma contig_take: "contig n es \<Longrightarrow> contig n (take k es)"
  by (simp add: contig_nth)

lemma contig_drop: "contig n es \<Longrightarrow> k \<le> length es \<Longrightarrow> contig (n + k) (drop k es)"
  by (simp add: contig_nth)

lemma contig_last: "contig n es \<Longrightarrow> es \<noteq> [] \<Longrightarrow> eIndex (last es) = n + length es - 1"
  by (cases es rule: rev_cases) (simp_all add: contig_def)

lemma contig_hd: "contig n es \<Longrightarrow> es \<noteq> [] \<Longrightarrow> eIndex (hd es) = n"
  by (cases es) auto

end
