(* ===== verification/Mem_Storage.thy ===== *)
theory Mem_Storage
  imports Raft_Types
begin

text \<open>
  The in-memory log storage of \<^verbatim>\<open>storage/mem/mem.go\<close>, and the contract every storage owes
  the consensus core.

  \<open>mem.Storage\<close> doubles as the reference semantics of the \<open>LogStorage\<close> interface: the
  locale \<open>log_storage\<close> says that a storage behaves, through its \<open>view\<close>, as this one. It is
  interpreted here on the in-memory storage itself.
\<close>

section \<open>Operations\<close>

record Storage =
  stHardState :: HardState
  stSnapshot :: Snapshot
  stEntries :: "Entry list"

definition mem_New :: Storage where
  "mem_New = \<lparr>stHardState = hardState0, stSnapshot = snapshot0, stEntries = []\<rparr>"

definition mem_offset :: "Storage \<Rightarrow> nat" where
  "mem_offset s = snIndex (stSnapshot s)"

text \<open>
  \<open>entries[off+1-first:]\<close> panics beyond the slice's length and \<open>entries[0]\<close> panics on an
  empty slice: both are \<open>None\<close>. (Neither happens for contiguous input.)
\<close>

definition mem_AppendEntries :: "Storage \<Rightarrow> Entry list \<Rightarrow> (raft_error option \<times> Storage) option" where
  "mem_AppendEntries s entries =
     (if entries = [] then Some (None, s)
      else
        let off = mem_offset s;
            first = eIndex (hd entries);
            lst = eIndex (last entries)
        in if lst \<le> off then Some (None, s)
           else if first \<le> off \<and> length entries \<le> off + 1 - first then None
           else
             let entries = (if first \<le> off then drop (off + 1 - first) entries else entries);
                 first = eIndex (hd entries);
                 pos = usub64 first (off + 1)
             in if length (stEntries s) < pos then Some (Some ErrUnavailable, s)
                else Some (None, s\<lparr>stEntries := take pos (stEntries s) @ entries\<rparr>))"

definition mem_SetHardState :: "Storage \<Rightarrow> HardState \<Rightarrow> raft_error option \<times> Storage" where
  "mem_SetHardState s st = (None, s\<lparr>stHardState := st\<rparr>)"

definition mem_HardState :: "Storage \<Rightarrow> raft_error + HardState" where
  "mem_HardState s = Inr (stHardState s)"

definition mem_Entries :: "Storage \<Rightarrow> nat \<Rightarrow> nat \<Rightarrow> raft_error + Entry list" where
  "mem_Entries s lo hi =
     (let off = mem_offset s;
          lst = off + length (stEntries s)
      in if lo \<le> off then Inl ErrCompacted
         else if lst + 1 < hi then Inl ErrUnavailable
         else if hi < lo then Inl ErrUnavailable
         else if lo = hi then Inr []
         else Inr (take (hi - lo) (drop (lo - off - 1) (stEntries s))))"

definition mem_Term :: "Storage \<Rightarrow> nat \<Rightarrow> raft_error + nat" where
  "mem_Term s i =
     (let off = mem_offset s
      in if i = off then Inr (snTerm (stSnapshot s))
         else if i < off then Inl ErrCompacted
         else if off + length (stEntries s) < i then Inl ErrUnavailable
         else Inr (eTerm (stEntries s ! (i - off - 1))))"

definition mem_FirstIndex :: "Storage \<Rightarrow> raft_error + nat" where
  "mem_FirstIndex s = Inr (mem_offset s + 1)"

definition mem_LastIndex :: "Storage \<Rightarrow> raft_error + nat" where
  "mem_LastIndex s = Inr (mem_offset s + length (stEntries s))"

definition mem_ApplySnapshot :: "Storage \<Rightarrow> Snapshot \<Rightarrow> raft_error option \<times> Storage" where
  "mem_ApplySnapshot s snap =
     (if snIndex snap \<le> mem_offset s then (Some ErrCompacted, s)
      else
        let off = mem_offset s;
            lst = off + length (stEntries s);
            entries = (if snIndex snap < lst \<and>
                          eTerm (stEntries s ! (snIndex snap - off - 1)) = snTerm snap
                       then drop (snIndex snap - off) (stEntries s)
                       else [])
        in (None, s\<lparr>stEntries := entries, stSnapshot := snap\<rparr>))"

definition mem_Snapshot :: "Storage \<Rightarrow> raft_error + Snapshot" where
  "mem_Snapshot s = Inr (stSnapshot s)"

definition mem_Compact :: "Storage \<Rightarrow> nat \<Rightarrow> raft_error option \<times> Storage" where
  "mem_Compact s index =
     (let off = mem_offset s;
          lst = off + length (stEntries s)
      in if index \<le> off then (Some ErrCompacted, s)
         else if lst < index then (Some ErrUnavailable, s)
         else
           let trm = eTerm (stEntries s ! (index - off - 1))
           in (None, s\<lparr>stEntries := drop (index - off) (stEntries s),
                       stSnapshot := (stSnapshot s)\<lparr>snMetadata := \<lparr>smIndex = index, smTerm = trm\<rparr>\<rparr>\<rparr>))"

definition memOps :: "Storage LogStorage" where
  "memOps =
     \<lparr>opAppendEntries = mem_AppendEntries, opSetHardState = mem_SetHardState,
      opHardState = mem_HardState, opEntries = mem_Entries, opTerm = mem_Term,
      opFirstIndex = mem_FirstIndex, opLastIndex = mem_LastIndex,
      opApplySnapshot = mem_ApplySnapshot, opSnapshot = mem_Snapshot\<rparr>"

section \<open>Well-formedness\<close>

text \<open>\<open>entries[i]\<close> holds the entry at index \<open>snapshot.Metadata.Index + 1 + i\<close> (the comment on the field).\<close>

definition storage_wf :: "Storage \<Rightarrow> bool" where
  "storage_wf s \<longleftrightarrow> contig (mem_offset s + 1) (stEntries s)"

abbreviation mem_last :: "Storage \<Rightarrow> nat" where
  "mem_last s \<equiv> mem_offset s + length (stEntries s)"

lemma mem_New_wf: "storage_wf mem_New"
  by (simp add: storage_wf_def mem_New_def)

lemma mem_Entries_eq:
  "mem_offset s < lo \<Longrightarrow> lo \<le> hi \<Longrightarrow> hi \<le> mem_last s + 1 \<Longrightarrow>
     mem_Entries s lo hi = Inr (take (hi - lo) (drop (lo - (mem_offset s + 1)) (stEntries s)))"
  by (simp add: mem_Entries_def Let_def)

text \<open>Appending a contiguous batch: what is stored, in terms of the batch's first index.\<close>

lemma mem_AppendEntries_contig:
  assumes "contig n es" and "es \<noteq> []"
  shows "mem_AppendEntries s es =
    (if n + length es \<le> mem_offset s + 1 then Some (None, s)
     else if mem_last s + 1 < n then Some (Some ErrUnavailable, s)
     else Some (None, s\<lparr>stEntries := take (n - (mem_offset s + 1)) (stEntries s) @
                         drop (mem_offset s + 1 - n) es\<rparr>))"
proof -
  have hd: "eIndex (hd es) = n" and last: "eIndex (last es) = n + length es - 1"
    using assms contig_hd contig_last by blast+
  show ?thesis
  proof (cases "n \<le> mem_offset s")
    case True
    let ?k = "mem_offset s + 1 - n"
    have "eIndex (hd (drop ?k es)) = mem_offset s + 1" if "?k < length es"
      using that True assms by (simp add: hd_drop_conv_nth contig_nth)
    with True hd last assms(2) show ?thesis
      by (auto simp: mem_AppendEntries_def Let_def)
  next
    case False
    with hd last assms(2) show ?thesis
      by (auto simp: mem_AppendEntries_def Let_def)
  qed
qed

lemma mem_AppendEntries_wf:
  assumes "storage_wf s" and "contig n es" and "mem_AppendEntries s es = Some (e, s')"
  shows "storage_wf s'"
proof (cases "es = []")
  case True
  with assms show ?thesis by (simp add: mem_AppendEntries_def)
next
  case False
  consider "s' = s" | "n \<le> mem_last s + 1" "mem_offset s + 1 < n + length es"
      "s' = s\<lparr>stEntries := take (n - (mem_offset s + 1)) (stEntries s) @ drop (mem_offset s + 1 - n) es\<rparr>"
    using assms(3) mem_AppendEntries_contig [OF assms(2) False] by (auto split: if_splits)
  then show ?thesis
  proof cases
    case 1
    with assms(1) show ?thesis by simp
  next
    case 2
    have "contig (n + (mem_offset s + 1 - n)) (drop (mem_offset s + 1 - n) es)"
      using assms(2) 2(2) by (intro contig_drop) auto
    moreover have "n + (mem_offset s + 1 - n) = mem_offset s + 1 + min (length (stEntries s)) (n - (mem_offset s + 1))"
      using 2(1) by simp
    ultimately show ?thesis
      using assms(1) 2(3) by (simp add: storage_wf_def mem_offset_def contig_take)
  qed
qed

lemma mem_AppendEntries_total: "contig n es \<Longrightarrow> \<exists>e s'. mem_AppendEntries s es = Some (e, s')"
  using mem_AppendEntries_contig [of n es s] by (cases "es = []") (auto simp: mem_AppendEntries_def)

lemma mem_ApplySnapshot_wf:
  "storage_wf s \<Longrightarrow> mem_ApplySnapshot s snap = (e, s') \<Longrightarrow> storage_wf s'"
  using contig_drop [of "mem_offset s + 1" "stEntries s" "snIndex snap - mem_offset s"]
  by (auto simp: mem_ApplySnapshot_def storage_wf_def mem_offset_def Let_def split: if_splits)

lemma mem_Compact_wf: "storage_wf s \<Longrightarrow> mem_Compact s i = (e, s') \<Longrightarrow> storage_wf s'"
  using contig_drop [of "mem_offset s + 1" "stEntries s" "i - mem_offset s"]
  by (auto simp: mem_Compact_def storage_wf_def mem_offset_def Let_def split: if_splits)

lemma mem_SetHardState_wf: "storage_wf s \<Longrightarrow> mem_SetHardState s hs = (e, s') \<Longrightarrow> storage_wf s'"
  by (auto simp: mem_SetHardState_def storage_wf_def mem_offset_def)

lemmas mem_wf_intros = mem_SetHardState_wf mem_ApplySnapshot_wf mem_AppendEntries_wf mem_Compact_wf

section \<open>The storage contract\<close>

locale log_storage =
  fixes ops :: "'st LogStorage" and view :: "'st \<Rightarrow> Storage" and sinv :: "'st \<Rightarrow> bool"
  assumes view_wf: "sinv st \<Longrightarrow> storage_wf (view st)"
    and op_HardState: "sinv st \<Longrightarrow> opHardState ops st = mem_HardState (view st)"
    and op_Entries: "sinv st \<Longrightarrow> opEntries ops st lo hi = mem_Entries (view st) lo hi"
    and op_Term: "sinv st \<Longrightarrow> opTerm ops st i = mem_Term (view st) i"
    and op_FirstIndex: "sinv st \<Longrightarrow> opFirstIndex ops st = mem_FirstIndex (view st)"
    and op_LastIndex: "sinv st \<Longrightarrow> opLastIndex ops st = mem_LastIndex (view st)"
    and op_Snapshot: "sinv st \<Longrightarrow> opSnapshot ops st = mem_Snapshot (view st)"
    and op_Append: "sinv st \<Longrightarrow> contig n es \<Longrightarrow>
      \<exists>e st'. opAppendEntries ops st es = Some (e, st') \<and> sinv st' \<and>
        mem_AppendEntries (view st) es = Some (e, view st')"
    and op_SetHardState: "sinv st \<Longrightarrow> opSetHardState ops st hs = (e, st') \<Longrightarrow>
      sinv st' \<and> mem_SetHardState (view st) hs = (e, view st')"
    and op_ApplySnapshot: "sinv st \<Longrightarrow> opApplySnapshot ops st snap = (e, st') \<Longrightarrow>
      sinv st' \<and> mem_ApplySnapshot (view st) snap = (e, view st')"

lemma memOps_simps [simp]:
  "opAppendEntries memOps = mem_AppendEntries" "opSetHardState memOps = mem_SetHardState"
  "opHardState memOps = mem_HardState" "opEntries memOps = mem_Entries" "opTerm memOps = mem_Term"
  "opFirstIndex memOps = mem_FirstIndex" "opLastIndex memOps = mem_LastIndex"
  "opApplySnapshot memOps = mem_ApplySnapshot" "opSnapshot memOps = mem_Snapshot"
  by (simp_all add: memOps_def)

interpretation memst: log_storage memOps "\<lambda>s. s" storage_wf
proof unfold_locales
  fix st :: Storage and n es
  assume "storage_wf st" and "contig n es"
  then show "\<exists>e st'. opAppendEntries memOps st es = Some (e, st') \<and> storage_wf st' \<and>
      mem_AppendEntries st es = Some (e, st')"
    using mem_AppendEntries_total [of n es st] mem_AppendEntries_wf [of st n es] by fastforce
qed (auto intro: mem_wf_intros)

end
