(* ===== verification/Raft_Log.thy ===== *)
theory Raft_Log
  imports Mem_Storage
begin

text \<open>
  The core's logical log, \<^verbatim>\<open>raft/log.go\<close>: the unstable tail and snapshot over a durable
  storage, with the committed and applied watermarks.

  Every operation is a function into \<open>option\<close>, where \<open>None\<close> is a Go panic (an explicit one,
  or an index out of range). Against any storage that meets the contract of
  \<^verbatim>\<open>Mem_Storage\<close>, the operations are shown to implement the obvious ones on an abstract
  log: a compacted base \<open>(index, term)\<close> and the list of entries after it.
\<close>

section \<open>The unstable tail\<close>

record unstable =
  uSnapshot :: "Snapshot option"
  uEntries :: "Entry list"
  uOffset :: nat

definition maybeFirstIndex :: "unstable \<Rightarrow> nat option" where
  "maybeFirstIndex u = (case uSnapshot u of Some s \<Rightarrow> Some (snIndex s + 1) | None \<Rightarrow> None)"

definition maybeLastIndex :: "unstable \<Rightarrow> nat option" where
  "maybeLastIndex u =
     (if length (uEntries u) \<noteq> 0 then Some (uOffset u + length (uEntries u) - 1)
      else case uSnapshot u of Some s \<Rightarrow> Some (snIndex s) | None \<Rightarrow> None)"

text \<open>The outer option is the panic of \<open>u.entries[i-u.offset]\<close>, the inner one the result's \<open>ok\<close>.\<close>

definition maybeTerm :: "unstable \<Rightarrow> nat \<Rightarrow> nat option option" where
  "maybeTerm u i =
     (if i < uOffset u then
        (case uSnapshot u of
           Some s \<Rightarrow> if snIndex s = i then Some (Some (snTerm s)) else Some None
         | None \<Rightarrow> Some None)
      else
        case maybeLastIndex u of
          None \<Rightarrow> Some None
        | Some lst \<Rightarrow>
            if lst < i then Some None
            else
              let ent = (if i - uOffset u < length (uEntries u)
                         then Some (Some (eTerm (uEntries u ! (i - uOffset u)))) else None)
              in (case uSnapshot u of
                    Some s \<Rightarrow> if i = snIndex s then Some (Some (snTerm s)) else ent
                  | None \<Rightarrow> ent))"

definition unstable_stableTo :: "unstable \<Rightarrow> nat \<Rightarrow> nat \<Rightarrow> unstable option" where
  "unstable_stableTo u i t = do {
     gt \<leftarrow> maybeTerm u i;
     if gt \<noteq> Some t \<or> i < uOffset u then Some u
     else if length (uEntries u) < i + 1 - uOffset u then None
     else Some (u\<lparr>uEntries := drop (i + 1 - uOffset u) (uEntries u), uOffset := i + 1\<rparr>) }"

definition unstable_stableSnapTo :: "unstable \<Rightarrow> nat \<Rightarrow> unstable" where
  "unstable_stableSnapTo u i =
     (case uSnapshot u of
        Some s \<Rightarrow> if snIndex s = i then u\<lparr>uSnapshot := None\<rparr> else u
      | None \<Rightarrow> u)"

definition unstable_restore :: "unstable \<Rightarrow> Snapshot \<Rightarrow> unstable" where
  "unstable_restore u s = u\<lparr>uOffset := snIndex s + 1, uEntries := [], uSnapshot := Some s\<rparr>"

definition truncateAppend :: "unstable \<Rightarrow> Entry list \<Rightarrow> unstable option" where
  "truncateAppend u ents =
     (if length ents = 0 then Some u
      else
        let first = eIndex (hd ents)
        in if first = uOffset u + length (uEntries u) then
             Some (u\<lparr>uEntries := uEntries u @ ents\<rparr>)
           else if first \<le> uOffset u then
             Some (u\<lparr>uOffset := first, uEntries := ents\<rparr>)
           else if length (uEntries u) < first - uOffset u then None
           else Some (u\<lparr>uEntries := take (first - uOffset u) (uEntries u) @ ents\<rparr>))"

section \<open>The log\<close>

record 'st raftLog =
  lStorage :: 'st
  lUnstable :: unstable
  lCommitted :: nat
  lApplied :: nat

definition newLog :: "'st LogStorage \<Rightarrow> 'st \<Rightarrow> raft_error + 'st raftLog" where
  "newLog ops storage =
     res_bind (opFirstIndex ops storage) (\<lambda>first.
     res_bind (opLastIndex ops storage) (\<lambda>lst.
     Inr \<lparr>lStorage = storage,
          lUnstable = \<lparr>uSnapshot = None, uEntries = [], uOffset = lst + 1\<rparr>,
          lCommitted = usub64 first 1, lApplied = usub64 first 1\<rparr>))"

definition firstIndex :: "'st LogStorage \<Rightarrow> 'st raftLog \<Rightarrow> nat option" where
  "firstIndex ops l =
     (case maybeFirstIndex (lUnstable l) of
        Some i \<Rightarrow> Some i
      | None \<Rightarrow> (case opFirstIndex ops (lStorage l) of Inl _ \<Rightarrow> None | Inr i \<Rightarrow> Some i))"

definition lastIndex :: "'st LogStorage \<Rightarrow> 'st raftLog \<Rightarrow> nat option" where
  "lastIndex ops l =
     (case maybeLastIndex (lUnstable l) of
        Some i \<Rightarrow> Some i
      | None \<Rightarrow> (case opLastIndex ops (lStorage l) of Inl _ \<Rightarrow> None | Inr i \<Rightarrow> Some i))"

definition log_term :: "'st LogStorage \<Rightarrow> 'st raftLog \<Rightarrow> nat \<Rightarrow> (raft_error + nat) option" where
  "log_term ops l i = do {
     fi \<leftarrow> firstIndex ops l;
     let dummy = usub64 fi 1;
     if i < dummy then Some (Inr 0)
     else do {
       li \<leftarrow> lastIndex ops l;
       if li < i then Some (Inr 0)
       else do {
         mt \<leftarrow> maybeTerm (lUnstable l) i;
         case mt of
           Some t \<Rightarrow> Some (Inr t)
         | None \<Rightarrow>
             (case opTerm ops (lStorage l) i of
                Inr t \<Rightarrow> Some (Inr t)
              | Inl e \<Rightarrow> if e = ErrCompacted \<or> e = ErrUnavailable then Some (Inl e) else None) } } }"

definition lastTerm :: "'st LogStorage \<Rightarrow> 'st raftLog \<Rightarrow> nat option" where
  "lastTerm ops l = do {
     li \<leftarrow> lastIndex ops l;
     t \<leftarrow> log_term ops l li;
     case t of Inl _ \<Rightarrow> None | Inr t \<Rightarrow> Some t }"

definition matchTerm :: "'st LogStorage \<Rightarrow> 'st raftLog \<Rightarrow> nat \<Rightarrow> nat \<Rightarrow> bool option" where
  "matchTerm ops l i t = do {
     gt \<leftarrow> log_term ops l i;
     case gt of Inl _ \<Rightarrow> Some False | Inr gt \<Rightarrow> Some (gt = t) }"

definition log_append :: "'st LogStorage \<Rightarrow> 'st raftLog \<Rightarrow> Entry list \<Rightarrow> (nat \<times> 'st raftLog) option" where
  "log_append ops l ents =
     (if length ents = 0 then do { li \<leftarrow> lastIndex ops l; Some (li, l) }
      else do {
        u \<leftarrow> truncateAppend (lUnstable l) ents;
        let l = l\<lparr>lUnstable := u\<rparr>;
        li \<leftarrow> lastIndex ops l;
        Some (li, l) })"

fun findConflict :: "'st LogStorage \<Rightarrow> 'st raftLog \<Rightarrow> Entry list \<Rightarrow> nat option" where
  "findConflict ops l [] = Some 0"
| "findConflict ops l (e # es) = do {
     m \<leftarrow> matchTerm ops l (eIndex e) (eTerm e);
     if \<not> m then Some (eIndex e) else findConflict ops l es }"

definition commitTo :: "'st LogStorage \<Rightarrow> 'st raftLog \<Rightarrow> nat \<Rightarrow> 'st raftLog option" where
  "commitTo ops l tocommit =
     (if lCommitted l < tocommit then do {
        li \<leftarrow> lastIndex ops l;
        if li < tocommit then None else Some (l\<lparr>lCommitted := tocommit\<rparr>) }
      else Some l)"

definition maybeAppend ::
  "'st LogStorage \<Rightarrow> 'st raftLog \<Rightarrow> nat \<Rightarrow> nat \<Rightarrow> nat \<Rightarrow> Entry list \<Rightarrow> ((nat \<times> bool) \<times> 'st raftLog) option" where
  "maybeAppend ops l index logTerm committed ents = do {
     m \<leftarrow> matchTerm ops l index logTerm;
     if \<not> m then Some ((0, False), l)
     else do {
       let lastnewi = index + length ents;
       conflict \<leftarrow> findConflict ops l ents;
       l \<leftarrow> (if conflict = 0 then Some l
             else if conflict \<le> lCommitted l then None
             else
               let off = index + 1
               in if conflict < off \<or> length ents < conflict - off then None
                  else map_option snd (log_append ops l (drop (conflict - off) ents)));
       l \<leftarrow> commitTo ops l (min committed lastnewi);
       Some ((lastnewi, True), l) } }"

definition appliedTo :: "'st raftLog \<Rightarrow> nat \<Rightarrow> 'st raftLog option" where
  "appliedTo l i =
     (if i = 0 then Some l
      else if lCommitted l < i \<or> i < lApplied l then None
      else Some (l\<lparr>lApplied := i\<rparr>))"

definition stableTo :: "'st raftLog \<Rightarrow> nat \<Rightarrow> nat \<Rightarrow> 'st raftLog option" where
  "stableTo l i t = do { u \<leftarrow> unstable_stableTo (lUnstable l) i t; Some (l\<lparr>lUnstable := u\<rparr>) }"

definition stableSnapTo :: "'st raftLog \<Rightarrow> nat \<Rightarrow> 'st raftLog" where
  "stableSnapTo l i = l\<lparr>lUnstable := unstable_stableSnapTo (lUnstable l) i\<rparr>"

definition log_restore :: "'st raftLog \<Rightarrow> Snapshot \<Rightarrow> 'st raftLog" where
  "log_restore l s =
     (let l = l\<lparr>lCommitted := snIndex s\<rparr>;
          l = (if lApplied l < snIndex s then l\<lparr>lApplied := snIndex s\<rparr> else l)
      in l\<lparr>lUnstable := unstable_restore (lUnstable l) s\<rparr>)"

definition log_slice ::
  "'st LogStorage \<Rightarrow> 'st raftLog \<Rightarrow> nat \<Rightarrow> nat \<Rightarrow> (raft_error + Entry list) option" where
  "log_slice ops l lo hi =
     (if hi \<le> lo then Some (Inr [])
      else do {
        fi \<leftarrow> firstIndex ops l;
        if lo < fi then Some (Inl ErrCompacted)
        else do {
          lst \<leftarrow> lastIndex ops l;
          let hi = (if lst + 1 < hi then lst + 1 else hi);
          let uoff = uOffset (lUnstable l);
          case (if lo < uoff then opEntries ops (lStorage l) lo (min hi uoff) else Inr []) of
            Inl e \<Rightarrow> Some (Inl e)
          | Inr ents \<Rightarrow>
              if uoff < hi then
                let ulo = max lo uoff
                in if hi < ulo \<or> length (uEntries (lUnstable l)) < hi - uoff then None
                   else Some (Inr (ents @ take (hi - ulo) (drop (ulo - uoff) (uEntries (lUnstable l)))))
              else Some (Inr ents) } })"

definition nextCommittedEnts :: "'st LogStorage \<Rightarrow> 'st raftLog \<Rightarrow> Entry list option" where
  "nextCommittedEnts ops l =
     (let lo = lApplied l + 1; hi = lCommitted l + 1
      in if hi \<le> lo then Some []
         else do {
           fi \<leftarrow> firstIndex ops l;
           let lo = (if lo < fi then fi else lo);
           if hi \<le> lo then Some []
           else do {
             ents \<leftarrow> log_slice ops l lo hi;
             case ents of Inl _ \<Rightarrow> None | Inr ents \<Rightarrow> Some ents } })"

definition hasNextCommittedEnts :: "'st LogStorage \<Rightarrow> 'st raftLog \<Rightarrow> bool option" where
  "hasNextCommittedEnts ops l = do {
     fi \<leftarrow> firstIndex ops l;
     let lo = max (lApplied l + 1) fi;
     Some (lo < lCommitted l + 1) }"

definition isUpToDate :: "'st LogStorage \<Rightarrow> 'st raftLog \<Rightarrow> nat \<Rightarrow> nat \<Rightarrow> bool option" where
  "isUpToDate ops l lasti t = do {
     lt \<leftarrow> lastTerm ops l;
     if lt < t then Some True
     else if t = lt then do { li \<leftarrow> lastIndex ops l; Some (li \<le> lasti) }
     else Some False }"

definition log_maybeCommit :: "'st LogStorage \<Rightarrow> 'st raftLog \<Rightarrow> nat \<Rightarrow> nat \<Rightarrow> (bool \<times> 'st raftLog) option" where
  "log_maybeCommit ops l maxIndex t =
     (if lCommitted l < maxIndex then do {
        gt \<leftarrow> log_term ops l maxIndex;
        if (case gt of Inl _ \<Rightarrow> 0 | Inr gt \<Rightarrow> gt) = t then do {
          l \<leftarrow> commitTo ops l maxIndex;
          Some (True, l) }
        else Some (False, l) }
      else Some (False, l))"

section \<open>The abstract log\<close>

text \<open>
  Through a storage's view the log denotes a base \<open>(index, term)\<close>, the position of the
  newest snapshot, and the entries after it.
\<close>

definition log_base :: "('st \<Rightarrow> Storage) \<Rightarrow> 'st raftLog \<Rightarrow> nat" where
  "log_base view l =
     (case uSnapshot (lUnstable l) of Some s \<Rightarrow> snIndex s | None \<Rightarrow> mem_offset (view (lStorage l)))"

definition log_base_term :: "('st \<Rightarrow> Storage) \<Rightarrow> 'st raftLog \<Rightarrow> nat" where
  "log_base_term view l =
     (case uSnapshot (lUnstable l) of Some s \<Rightarrow> snTerm s | None \<Rightarrow> snTerm (stSnapshot (view (lStorage l))))"

definition log_ents :: "('st \<Rightarrow> Storage) \<Rightarrow> 'st raftLog \<Rightarrow> Entry list" where
  "log_ents view l =
     (case uSnapshot (lUnstable l) of
        Some s \<Rightarrow> uEntries (lUnstable l)
      | None \<Rightarrow> take (uOffset (lUnstable l) - (mem_offset (view (lStorage l)) + 1)) (stEntries (view (lStorage l)))
                @ uEntries (lUnstable l))"

abbreviation log_last :: "('st \<Rightarrow> Storage) \<Rightarrow> 'st raftLog \<Rightarrow> nat" where
  "log_last view l \<equiv> log_base view l + length (log_ents view l)"

definition term_at :: "('st \<Rightarrow> Storage) \<Rightarrow> 'st raftLog \<Rightarrow> nat \<Rightarrow> nat" where
  "term_at view l i =
     (if i = log_base view l then log_base_term view l
      else if log_base view l < i \<and> i \<le> log_last view l
      then eTerm (log_ents view l ! (i - log_base view l - 1))
      else 0)"

text \<open>
  What an append of \<open>es\<close> after \<open>index\<close> should do: keep the entries that agree, and replace the
  rest of the log from the first disagreement on.
\<close>

definition log_agree :: "('st \<Rightarrow> Storage) \<Rightarrow> 'st raftLog \<Rightarrow> Entry list \<Rightarrow> nat" where
  "log_agree view l es = length (takeWhile (\<lambda>e. term_at view l (eIndex e) = eTerm e) es)"

definition log_splice :: "('st \<Rightarrow> Storage) \<Rightarrow> 'st raftLog \<Rightarrow> nat \<Rightarrow> Entry list \<Rightarrow> Entry list" where
  "log_splice view l index es =
     (let k = log_agree view l es
      in if k = length es then log_ents view l
         else take (index + k - log_base view l) (log_ents view l) @ drop k es)"

text \<open>The invariant of the log: the comments of the source on \<open>unstable\<close>, and the order of the watermarks.\<close>

definition tail_wf :: "Storage \<Rightarrow> unstable \<Rightarrow> bool" where
  "tail_wf v u \<longleftrightarrow>
     contig (uOffset u) (uEntries u) \<and>
     (case uSnapshot u of
        Some s \<Rightarrow> uOffset u = snIndex s + 1
      | None \<Rightarrow> mem_offset v < uOffset u \<and> uOffset u \<le> mem_last v + 1 \<and>
                (uEntries u = [] \<longrightarrow> uOffset u = mem_last v + 1))"

definition log_wf :: "('st \<Rightarrow> Storage) \<Rightarrow> ('st \<Rightarrow> bool) \<Rightarrow> 'st raftLog \<Rightarrow> bool" where
  "log_wf view sinv l \<longleftrightarrow>
     sinv (lStorage l) \<and> tail_wf (view (lStorage l)) (lUnstable l) \<and>
     log_base view l \<le> lApplied l \<and> lApplied l \<le> lCommitted l \<and> lCommitted l \<le> log_last view l"

lemma log_view_simps [simp]:
  "log_base view (l\<lparr>lCommitted := c\<rparr>) = log_base view l"
  "log_base view (l\<lparr>lApplied := c\<rparr>) = log_base view l"
  "log_base_term view (l\<lparr>lCommitted := c\<rparr>) = log_base_term view l"
  "log_base_term view (l\<lparr>lApplied := c\<rparr>) = log_base_term view l"
  "log_ents view (l\<lparr>lCommitted := c\<rparr>) = log_ents view l"
  "log_ents view (l\<lparr>lApplied := c\<rparr>) = log_ents view l"
  by (simp_all add: log_base_def log_base_term_def log_ents_def split: option.split)

lemma term_at_simps [simp]:
  "term_at view (l\<lparr>lCommitted := c\<rparr>) = term_at view l"
  "term_at view (l\<lparr>lApplied := c\<rparr>) = term_at view l"
  by (simp_all add: term_at_def fun_eq_iff)

context log_storage
begin

text \<open>Inside the contract, \<open>lwf\<close> is the log invariant for this storage.\<close>

abbreviation lwf :: "'st raftLog \<Rightarrow> bool" where
  "lwf \<equiv> log_wf view sinv"

lemma wf_storage [dest]: "lwf l \<Longrightarrow> sinv (lStorage l)"
  by (simp add: log_wf_def)

lemmas op_simps = op_HardState op_Entries op_Term op_FirstIndex op_LastIndex op_Snapshot
  mem_HardState_def mem_FirstIndex_def mem_LastIndex_def mem_Snapshot_def

lemma ents_contig: "lwf l \<Longrightarrow> contig (log_base view l + 1) (log_ents view l)"
  using view_wf [of "lStorage l"]
  by (auto simp: log_wf_def tail_wf_def log_base_def log_ents_def storage_wf_def contig_take
      split: option.splits)

lemma firstIndex_eq: "lwf l \<Longrightarrow> firstIndex ops l = Some (log_base view l + 1)"
  by (auto simp: log_wf_def firstIndex_def maybeFirstIndex_def log_base_def op_simps split: option.splits)

lemma lastIndex_eq: "lwf l \<Longrightarrow> lastIndex ops l = Some (log_last view l)"
  by (auto simp: log_wf_def tail_wf_def lastIndex_def maybeLastIndex_def log_base_def log_ents_def op_simps
      split: option.splits)

lemma log_term_eq:
  assumes "lwf l"
  shows "log_term ops l i = Some (Inr (term_at view l i))"
proof -
  have sinv: "sinv (lStorage l)" using assms by auto
  let ?v = "view (lStorage l)" and ?u = "lUnstable l"
  consider "i < log_base view l \<or> log_last view l < i"
    | "log_base view l \<le> i" "i \<le> log_last view l" "i < uOffset ?u"
    | "log_base view l \<le> i" "i \<le> log_last view l" "uOffset ?u \<le> i"
    by linarith
  then show ?thesis
  proof cases
    case 1
    then show ?thesis
      by (auto simp: log_term_def firstIndex_eq [OF assms] lastIndex_eq [OF assms] term_at_def)
  next
    case 2
    show ?thesis
    proof (cases "uSnapshot ?u")
      case None
      with 2 assms sinv show ?thesis
        by (auto simp: log_term_def firstIndex_eq [OF assms] lastIndex_eq [OF assms] term_at_def
            maybeTerm_def op_simps mem_Term_def log_base_def log_base_term_def log_ents_def
            log_wf_def tail_wf_def nth_append Let_def)
    next
      case (Some s)
      with 2 assms show ?thesis
        by (auto simp: log_term_def firstIndex_eq [OF assms] lastIndex_eq [OF assms] term_at_def
            maybeTerm_def log_base_def log_base_term_def log_wf_def tail_wf_def)
    qed
  next
    case 3
    then have "log_base view l < i"
      using assms by (auto simp: log_wf_def tail_wf_def log_base_def split: option.splits)
    moreover have "maybeLastIndex ?u = Some (uOffset ?u + length (uEntries ?u) - 1)"
        "log_last view l = uOffset ?u + length (uEntries ?u) - 1"
      using 3 assms
      by (auto simp: maybeLastIndex_def log_wf_def tail_wf_def log_base_def log_ents_def split: option.splits)
    moreover have "log_ents view l ! (i - log_base view l - 1) = uEntries ?u ! (i - uOffset ?u)"
      using 3 assms \<open>log_base view l < i\<close>
      by (auto simp: log_wf_def tail_wf_def log_base_def log_ents_def nth_append split: option.splits)
    moreover have "uSnapshot ?u = Some s \<Longrightarrow> i \<noteq> snIndex s" for s
      using 3 assms by (auto simp: log_wf_def tail_wf_def)
    ultimately have "maybeTerm ?u i = Some (Some (term_at view l i))"
      using 3 by (simp add: maybeTerm_def term_at_def Let_def split: option.split) linarith
    with 3 show ?thesis
      by (simp add: log_term_def firstIndex_eq [OF assms] lastIndex_eq [OF assms])
  qed
qed

lemma matchTerm_eq: "lwf l \<Longrightarrow> matchTerm ops l i t = Some (term_at view l i = t)"
  by (simp add: matchTerm_def log_term_eq)

lemma lastTerm_eq: "lwf l \<Longrightarrow> lastTerm ops l = Some (term_at view l (log_last view l))"
  by (simp add: lastTerm_def lastIndex_eq log_term_eq)

lemma isUpToDate_eq:
  "lwf l \<Longrightarrow> isUpToDate ops l li t =
     Some (term_at view l (log_last view l) < t \<or>
           term_at view l (log_last view l) = t \<and> log_last view l \<le> li)"
  by (auto simp: isUpToDate_def lastIndex_eq lastTerm_eq)

lemma log_slice_eq:
  assumes "lwf l" and "log_base view l < lo" and "lo \<le> log_last view l + 1"
  shows "log_slice ops l lo hi =
    Some (Inr (take (hi - lo) (drop (lo - log_base view l - 1) (log_ents view l))))"
proof (cases "hi \<le> lo")
  case True
  then show ?thesis by (simp add: log_slice_def)
next
  case False
  define h where "h = min hi (log_last view l + 1)"
  have h: "lo \<le> h" "h \<le> log_last view l + 1" "(if log_last view l + 1 < hi then log_last view l + 1 else hi) = h"
    using False assms(3) by (auto simp: h_def)
  let ?uo = "uOffset (lUnstable l)" and ?ue = "uEntries (lUnstable l)"
  have unf: "log_slice ops l lo hi =
      (case (if lo < ?uo then opEntries ops (lStorage l) lo (min h ?uo) else Inr []) of
         Inl e \<Rightarrow> Some (Inl e)
       | Inr ents \<Rightarrow>
           if ?uo < h then
             if h < max lo ?uo \<or> length ?ue < h - ?uo then None
             else Some (Inr (ents @ take (h - max lo ?uo) (drop (max lo ?uo - ?uo) ?ue)))
           else Some (Inr ents))"
    unfolding log_slice_def firstIndex_eq [OF assms(1)] lastIndex_eq [OF assms(1)] bind.bind_lunit Let_def h(3)
    using False assms(2) by simp
  have slice: "log_slice ops l lo hi = Some (Inr (take (h - lo) (drop (lo - log_base view l - 1) (log_ents view l))))"
  proof (cases "uSnapshot (lUnstable l)")
    case None
    let ?v = "view (lStorage l)" and ?off = "uOffset (lUnstable l)" and ?k = "log_base view l + 1"
    have v: "sinv (lStorage l)" "?k = mem_offset ?v + 1" "?k \<le> ?off" "?off - ?k \<le> length (stEntries ?v)"
        "log_last view l + 1 = ?off + length (uEntries (lUnstable l))"
      using assms(1) None by (auto simp: log_wf_def tail_wf_def log_base_def log_ents_def)
    have st: "opEntries ops (lStorage l) lo (min h ?off) =
        Inr (take (min h ?off - lo) (drop (lo - ?k) (stEntries ?v)))" if "lo < ?off"
      using that v h(1) assms(2) by (simp add: op_Entries mem_Entries_eq)
    have ents: "log_ents view l = take (?off - ?k) (stEntries ?v) @ ?ue"
      using None by (simp add: log_ents_def log_base_def)
    have "take (h - lo) (drop (lo - ?k) (log_ents view l)) =
        (if lo < ?off then take (min h ?off - lo) (drop (lo - ?k) (stEntries ?v)) else []) @
        (if ?off < h then take (h - max lo ?off) (drop (max lo ?off - ?off) (uEntries (lUnstable l))) else [])"
      unfolding ents by (rule segment_append_from [OF v(4) h(1) v(3)]) (use assms(2) in simp)
    moreover have "log_slice ops l lo hi =
        Some (Inr ((if lo < ?off then take (min h ?off - lo) (drop (lo - ?k) (stEntries ?v)) else []) @
          (if ?off < h then take (h - max lo ?off) (drop (max lo ?off - ?off) (uEntries (lUnstable l))) else [])))"
    proof -
      have "?uo < h \<Longrightarrow> \<not> h < max lo ?uo" and "\<not> length ?ue < h - ?uo"
        using h(1,2) v(5) by simp_all
      with st show ?thesis
        by (cases "lo < ?uo"; cases "?uo < h") (simp_all only: unf if_True if_False sum.case simp_thms append.simps append_Nil2)
    qed
    ultimately show ?thesis by simp
  next
    case (Some s)
    then have "uOffset (lUnstable l) = log_base view l + 1" "log_ents view l = uEntries (lUnstable l)"
      using assms(1) by (simp_all add: log_wf_def tail_wf_def log_base_def log_ents_def)
    then show ?thesis
      using assms(2) h(1,2) by (auto simp: unf)
  qed
  have hl: "h - lo = min (hi - lo) (length (drop (lo - log_base view l - 1) (log_ents view l)))"
    using assms(2) h(1) by (auto simp: h_def min_def)
  show ?thesis unfolding slice hl take_min_length ..
qed

lemma nextCommittedEnts_eq:
  assumes "lwf l"
  shows "nextCommittedEnts ops l =
    Some (take (lCommitted l - lApplied l) (drop (lApplied l - log_base view l) (log_ents view l)))"
proof -
  have "log_base view l \<le> lApplied l" "lApplied l \<le> log_last view l"
    using assms by (auto simp: log_wf_def)
  then show ?thesis
    using assms log_slice_eq [of l "lApplied l + 1" "lCommitted l + 1"]
    by (simp add: nextCommittedEnts_def firstIndex_eq)
qed

lemma commitTo_eq:
  "lwf l \<Longrightarrow> commitTo ops l i =
     (if i \<le> lCommitted l then Some l
      else if i \<le> log_last view l then Some (l\<lparr>lCommitted := i\<rparr>) else None)"
  by (auto simp: commitTo_def lastIndex_eq)

lemma commitTo_wf: "lwf l \<Longrightarrow> commitTo ops l i = Some l' \<Longrightarrow> lwf l'"
  by (auto simp: commitTo_eq log_wf_def split: if_splits)

text \<open>Appending a batch that starts inside the log or right after it.\<close>

lemma truncateAppend_ents:
  assumes "lwf l" and "contig n es" and "es \<noteq> []"
    and "log_base view l < n" and "n \<le> log_last view l + 1"
  obtains u where "truncateAppend (lUnstable l) es = Some u"
    and "tail_wf (view (lStorage l)) u" and "uSnapshot u = uSnapshot (lUnstable l)"
    and "log_ents view (l\<lparr>lUnstable := u\<rparr>) = take (n - log_base view l - 1) (log_ents view l) @ es"
proof -
  have hd: "eIndex (hd es) = n" using assms contig_hd by blast
  let ?u = "lUnstable l"
  let ?m = "uOffset ?u + length (uEntries ?u)"
  have len: "?m = log_last view l + 1"
    using assms(1) by (auto simp: log_wf_def tail_wf_def log_base_def log_ents_def split: option.splits)
  have ct: "contig (uOffset ?u) (uEntries ?u)" using assms(1) by (simp add: log_wf_def tail_wf_def)
  consider "n = ?m" | "n < ?m" "n \<le> uOffset ?u" | "n < ?m" "uOffset ?u < n"
    using assms(5) len by linarith
  then show ?thesis
  proof cases
    case 1
    then have t: "truncateAppend ?u es = Some (?u\<lparr>uEntries := uEntries ?u @ es\<rparr>)"
      using hd assms(3) by (simp add: truncateAppend_def)
    show ?thesis
      by (rule that [OF t]; use assms 1 len ct in
          \<open>auto simp: log_wf_def tail_wf_def log_base_def log_ents_def split: option.splits\<close>)
  next
    case 2
    then have t: "truncateAppend ?u es = Some (?u\<lparr>uOffset := n, uEntries := es\<rparr>)"
      using hd assms(3) by (simp add: truncateAppend_def)
    show ?thesis
      by (rule that [OF t]; use assms 2 len ct in
          \<open>auto simp: log_wf_def tail_wf_def log_base_def log_ents_def min_def split: option.splits\<close>)
  next
    case 3
    then have t: "truncateAppend ?u es = Some (?u\<lparr>uEntries := take (n - uOffset ?u) (uEntries ?u) @ es\<rparr>)"
      using hd assms(3) by (simp add: truncateAppend_def)
    show ?thesis
      by (rule that [OF t]; use assms 3 len ct in
          \<open>auto simp: log_wf_def tail_wf_def log_base_def log_ents_def contig_take min_def split: option.splits\<close>)
  qed
qed

lemma log_append_eq:
  assumes "lwf l" and "contig n es" and "lCommitted l < n" and "n \<le> log_last view l + 1"
  obtains l' where "log_append ops l es = Some (log_last view l', l')" and "lwf l'"
    and "log_base view l' = log_base view l" and "log_base_term view l' = log_base_term view l"
    and "log_ents view l' = (if es = [] then log_ents view l
                             else take (n - log_base view l - 1) (log_ents view l) @ es)"
    and "lCommitted l' = lCommitted l" and "lApplied l' = lApplied l" and "lStorage l' = lStorage l"
proof (cases "es = []")
  case True
  with assms(1) show ?thesis by (intro that [of l]) (simp_all add: log_append_def lastIndex_eq)
next
  case False
  have base: "log_base view l < n" using assms(1,3) by (auto simp: log_wf_def)
  obtain u where u: "truncateAppend (lUnstable l) es = Some u" "tail_wf (view (lStorage l)) u"
      "uSnapshot u = uSnapshot (lUnstable l)"
      "log_ents view (l\<lparr>lUnstable := u\<rparr>) = take (n - log_base view l - 1) (log_ents view l) @ es"
    using truncateAppend_ents [OF assms(1,2) False base assms(4)] by blast
  let ?l = "l\<lparr>lUnstable := u\<rparr>"
  have b: "log_base view ?l = log_base view l" "log_base_term view ?l = log_base_term view l"
    using u(3) by (simp_all add: log_base_def log_base_term_def split: option.split)
  have wf': "lwf ?l"
    using assms u b False by (auto simp: log_wf_def)
  show ?thesis
    using False u(1,4) b wf' by (intro that [of ?l]) (simp_all add: log_append_def lastIndex_eq)
qed

text \<open>The number of leading entries of a batch that the log already holds with the same term.\<close>

abbreviation agree :: "'st raftLog \<Rightarrow> Entry list \<Rightarrow> nat" where
  "agree l es \<equiv> log_agree view l es"

lemma findConflict_eq:
  "lwf l \<Longrightarrow> contig n es \<Longrightarrow>
     findConflict ops l es = Some (if agree l es = length es then 0 else n + agree l es)"
  by (induction es arbitrary: n) (auto simp: matchTerm_eq log_agree_def)

lemma agree_bound:
  assumes "contig (index + 1) es" and "\<forall>e \<in> set es. 0 < eTerm e"
    and "agree l es < length es" and "log_base view l \<le> index" and "index \<le> log_last view l"
  shows "index + agree l es \<le> log_last view l"
proof (cases "agree l es")
  case 0
  with assms(5) show ?thesis by simp
next
  case (Suc k)
  let ?P = "\<lambda>e. term_at view l (eIndex e) = eTerm e"
  have k: "k < length (takeWhile ?P es)" using Suc by (simp add: log_agree_def)
  then have "es ! k \<in> set (takeWhile ?P es)" by (metis nth_mem takeWhile_nth)
  from set_takeWhileD [OF this] have "es ! k \<in> set es" "?P (es ! k)" by simp_all
  moreover have "eIndex (es ! k) = index + 1 + k" using assms(1,3) Suc by (simp add: contig_nth)
  ultimately have "0 < term_at view l (index + 1 + k)" using assms(2) by metis
  then have "index + 1 + k \<le> log_last view l"
    using assms(4) by (auto simp: term_at_def split: if_splits)
  with Suc show ?thesis by simp
qed

lemma agree_last:
  assumes "contig (index + 1) es" and "\<forall>e \<in> set es. 0 < eTerm e"
    and "agree l es = length es" and "log_base view l \<le> index" and "index \<le> log_last view l"
  shows "index + length es \<le> log_last view l"
proof (cases "es = []")
  case True
  with assms(5) show ?thesis by simp
next
  case False
  have "takeWhile (\<lambda>e. term_at view l (eIndex e) = eTerm e) es = es"
    using assms(3) by (metis log_agree_def takeWhile_eq_take take_all_iff order_refl)
  then have "term_at view l (eIndex (last es)) = eTerm (last es)"
    using False by simp
  moreover have "0 < eTerm (last es)" using False assms(2) by simp
  moreover have "eIndex (last es) = index + length es"
    using contig_last [OF assms(1) False] by simp
  ultimately show ?thesis
    using assms(4) by (auto simp: term_at_def split: if_splits)
qed

lemma maybeAppend_eq:
  assumes "lwf l" and "contig (index + 1) es" and "\<forall>e \<in> set es. 0 < eTerm e"
    and "lCommitted l \<le> index" and "index \<le> log_last view l" and "term_at view l index = t"
  obtains l' where "maybeAppend ops l index t c es = Some ((index + length es, True), l')"
    and "lwf l'" and "log_base view l' = log_base view l" and "log_base_term view l' = log_base_term view l"
    and "log_ents view l' = log_splice view l index es"
    and "lCommitted l' = max (lCommitted l) (min c (index + length es))"
    and "lApplied l' = lApplied l" and "lStorage l' = lStorage l"
proof -
  let ?k = "agree l es"
  have kl: "?k \<le> length es" by (simp add: log_agree_def length_takeWhile_le)
  have base: "log_base view l \<le> index" using assms(1,4) by (auto simp: log_wf_def)
  define n where "n = index + 1 + ?k"
  define new where "new = (if ?k = length es then [] else drop ?k es)"
  have ct: "contig n new"
    using contig_drop [OF assms(2) kl] by (simp add: n_def new_def)
  have n: "lCommitted l < n" using assms(4) by (simp add: n_def)
  have nl: "?k < length es \<Longrightarrow> n \<le> log_last view l + 1"
    using agree_bound [OF assms(2,3) _ base assms(5)] by (simp add: n_def)
  obtain l1 where l1: "(if ?k = length es then Some l else map_option snd (log_append ops l (drop ?k es))) = Some l1"
      "lwf l1" "log_base view l1 = log_base view l" "log_base_term view l1 = log_base_term view l"
      "log_ents view l1 = log_splice view l index es" "lCommitted l1 = lCommitted l" "lApplied l1 = lApplied l"
      "lStorage l1 = lStorage l"
  proof (cases "?k = length es")
    case True
    with assms(1) show ?thesis by (intro that [of l]) (simp_all add: log_splice_def)
  next
    case False
    with kl have "?k < length es" by simp
    obtain l' where l': "log_append ops l new = Some (log_last view l', l')" "lwf l'"
        "log_base view l' = log_base view l" "log_base_term view l' = log_base_term view l"
        "log_ents view l' = (if new = [] then log_ents view l
                             else take (n - log_base view l - 1) (log_ents view l) @ new)"
        "lCommitted l' = lCommitted l" "lApplied l' = lApplied l" "lStorage l' = lStorage l"
      using log_append_eq [OF assms(1) ct n nl [OF \<open>?k < length es\<close>]] by metis
    show ?thesis
      using l' False \<open>?k < length es\<close>
      by (intro that [of l']) (simp_all add: new_def n_def log_splice_def Let_def)
  qed
  have last: "index + length es \<le> log_last view l1"
  proof (cases "?k = length es")
    case True
    with l1(3,5) agree_last [OF assms(2,3) True base assms(5)] show ?thesis by (simp add: log_splice_def)
  next
    case False
    with kl nl base show ?thesis unfolding l1(3,5) by (simp add: log_splice_def n_def Let_def)
  qed
  have "\<exists>l'. commitTo ops l1 (min c (index + length es)) = Some l' \<and>
      l' = l1\<lparr>lCommitted := max (lCommitted l1) (min c (index + length es))\<rparr>"
    using last by (auto simp: commitTo_eq [OF l1(2)] max_def)
  then obtain l' where l': "commitTo ops l1 (min c (index + length es)) = Some l'"
      "l' = l1\<lparr>lCommitted := max (lCommitted l1) (min c (index + length es))\<rparr>" by blast
  have m: "maybeAppend ops l index t c es = Some ((index + length es, True), l')"
    unfolding maybeAppend_def matchTerm_eq [OF assms(1)] findConflict_eq [OF assms(1,2)] bind.bind_lunit Let_def
    using l1(1) l'(1) n kl assms(6) by (cases "?k = length es") (simp_all add: n_def del: map_option_eq_Some)
  show ?thesis
    using l1 l' m commitTo_wf [OF l1(2) l'(1)] by (intro that [of l']) simp_all
qed

end

section \<open>Term lookups after a splice\<close>

lemma term_at_prefix:
  assumes "log_base view l' = log_base view l" and "log_base_term view l' = log_base_term view l"
    and "take (n - log_base view l) (log_ents view l') = take (n - log_base view l) (log_ents view l)"
    and "n \<le> log_last view l" and "n \<le> log_last view l'" and "i \<le> n"
  shows "term_at view l' i = term_at view l i"
proof -
  have "log_ents view l' ! (i - log_base view l - 1) = log_ents view l ! (i - log_base view l - 1)"
    if "log_base view l < i"
    using that assms(6) arg_cong [OF assms(3), of "\<lambda>xs. xs ! (i - log_base view l - 1)"] by simp
  with assms show ?thesis by (auto simp: term_at_def)
qed

lemma splice_prefix:
  assumes "log_base view l \<le> index" and "index \<le> log_last view l"
  shows "take (index - log_base view l) (log_splice view l index es) = take (index - log_base view l) (log_ents view l)"
  using assms by (auto simp: log_splice_def Let_def min_def)

section \<open>Properties over the in-memory storage\<close>

abbreviation mem_log_wf :: "Storage raftLog \<Rightarrow> bool" where
  "mem_log_wf \<equiv> log_wf (\<lambda>s. s) storage_wf"

abbreviation mem_ents :: "Storage raftLog \<Rightarrow> Entry list" where
  "mem_ents \<equiv> log_ents (\<lambda>s. s)"

abbreviation mem_base :: "Storage raftLog \<Rightarrow> nat" where
  "mem_base \<equiv> log_base (\<lambda>s. s)"

text \<open>
  C7. Applying an append request: for entries with consecutive indices after \<open>index\<close>, where
  \<open>index\<close> is at or above the commit index and the terms at \<open>index\<close> agree, \<open>maybeAppend\<close>
  succeeds. The entries up to \<open>index\<close> (hence every committed one) are unchanged, entries that
  already agree are not rewritten, the log is cut only at the first entry whose term
  disagrees, and the commit index rises to the leader's, capped by the last new entry.
\<close>

theorem maybeAppend_splices:
  assumes "mem_log_wf l" and "contig (index + 1) es" and "\<forall>e \<in> set es. 0 < eTerm e"
    and "lCommitted l \<le> index" and "index \<le> mem_base l + length (mem_ents l)"
    and "term_at (\<lambda>s. s) l index = t"
  shows "\<exists>l'. maybeAppend memOps l index t c es = Some ((index + length es, True), l') \<and> mem_log_wf l' \<and>
    mem_base l' = mem_base l \<and>
    take (index - mem_base l) (mem_ents l') = take (index - mem_base l) (mem_ents l) \<and>
    mem_ents l' = log_splice (\<lambda>s. s) l index es \<and>
    lCommitted l' = max (lCommitted l) (min c (index + length es)) \<and> lApplied l' = lApplied l"
proof -
  have "mem_base l \<le> index" using assms(1,4) by (auto simp: log_wf_def)
  then show ?thesis
    using memst.maybeAppend_eq [OF assms, of c] splice_prefix [of "\<lambda>s. s" l index es] assms(5) by metis
qed

definition sample_log :: "Storage raftLog" where
  "sample_log = \<lparr>lStorage = \<lparr>stHardState = hardState0, stSnapshot = snapshot0,
      stEntries = [\<lparr>eTerm = 1, eIndex = 1, eType = EntryNoop, eData = []\<rparr>,
                   \<lparr>eTerm = 1, eIndex = 2, eType = EntryNormal, eData = [7]\<rparr>]\<rparr>,
     lUnstable = \<lparr>uSnapshot = None, uEntries = [\<lparr>eTerm = 2, eIndex = 3, eType = EntryNoop, eData = []\<rparr>], uOffset = 3\<rparr>,
     lCommitted = 2, lApplied = 1\<rparr>"

lemmas log_eval = log_wf_def tail_wf_def storage_wf_def mem_offset_def log_base_def log_base_term_def log_ents_def
  term_at_def snapshot0_def

theorem maybeAppend_splices_witness:
  "\<exists>l'. maybeAppend memOps sample_log 2 1 3 [\<lparr>eTerm = 3, eIndex = 3, eType = EntryNoop, eData = []\<rparr>] =
      Some ((3, True), l') \<and> mem_log_wf l' \<and> lCommitted l' = 3"
  using maybeAppend_splices [of sample_log 2 "[\<lparr>eTerm = 3, eIndex = 3, eType = EntryNoop, eData = []\<rparr>]" 1 3]
  by (auto simp: sample_log_def log_eval)

text \<open>
  C9. The entries handed to the state machine are exactly the committed ones that have not
  been applied: \<open>nextCommittedEnts\<close> never panics on a well-formed log and returns the entries
  of the log at the indices \<open>applied + 1\<close> to \<open>committed\<close>, in order and without gaps, whether
  they are stable, unstable or split between the two.
\<close>

theorem nextCommittedEnts_exact:
  assumes "mem_log_wf l"
  shows "\<exists>es. nextCommittedEnts memOps l = Some es \<and>
    map eIndex es = [lApplied l + 1 ..< lCommitted l + 1] \<and>
    es = take (lCommitted l - lApplied l) (drop (lApplied l - mem_base l) (mem_ents l))"
proof -
  let ?es = "take (lCommitted l - lApplied l) (drop (lApplied l - mem_base l) (mem_ents l))"
  have b: "mem_base l \<le> lApplied l" "lApplied l \<le> lCommitted l" "lCommitted l \<le> mem_base l + length (mem_ents l)"
    using assms by (auto simp: log_wf_def)
  have "contig (mem_base l + 1 + (lApplied l - mem_base l)) (drop (lApplied l - mem_base l) (mem_ents l))"
    using memst.ents_contig [OF assms] b by (intro contig_drop) auto
  then have "contig (lApplied l + 1) ?es" using b(1) by (simp add: contig_take)
  moreover have "lApplied l + 1 + length ?es = lCommitted l + 1" using b by simp
  ultimately have "map eIndex ?es = [lApplied l + 1 ..< lCommitted l + 1]"
    unfolding contig_def by (simp only:)
  then show ?thesis using memst.nextCommittedEnts_eq [OF assms] by blast
qed

theorem nextCommittedEnts_exact_witness:
  "\<exists>es. nextCommittedEnts memOps sample_log = Some es \<and> map eIndex es = [2]"
  using nextCommittedEnts_exact [of sample_log]
  by (auto simp: sample_log_def log_eval upt_rec)

end
