(* ===== verification/Raft_Progress.thy ===== *)
theory Raft_Progress
  imports Raft_Types
begin

text \<open>
  The leader's bookkeeping: per-follower replication progress (\<^verbatim>\<open>raft/progress.go\<close>) and the
  queue of linearizable reads waiting for a heartbeat quorum (\<^verbatim>\<open>raft/readonly.go\<close>).

  Go contexts are byte slices used as map keys through \<open>string\<close>; they are byte lists here, and
  a nil context is the empty list (the code only tests its length). The ack set
  \<open>map[uint64]bool\<close>, whose values are always true, is the list of its keys.
\<close>

section \<open>Replication progress\<close>

record progress =
  Match :: nat
  Next :: nat

definition maybeUpdate :: "progress \<Rightarrow> nat \<Rightarrow> bool \<times> progress" where
  "maybeUpdate pr n =
     (let (updated, pr) = (if Match pr < n then (True, pr\<lparr>Match := n\<rparr>) else (False, pr));
          pr = (if Next pr < n + 1 then pr\<lparr>Next := n + 1\<rparr> else pr)
      in (updated, pr))"

definition maybeDecrTo :: "progress \<Rightarrow> nat \<Rightarrow> nat \<Rightarrow> bool \<times> progress" where
  "maybeDecrTo pr rejected hint =
     (if usub64 (Next pr) 1 \<noteq> rejected then (False, pr)
      else
        let pr = pr\<lparr>Next := (hint + 1) mod 2 ^ 64\<rparr>;
            pr = (if Next pr < 1 then pr\<lparr>Next := 1\<rparr> else pr)
        in (True, pr))"

section \<open>Pending reads\<close>

record readIndexStatus =
  risIndex :: nat
  risReq :: Message
  risAcks :: "nat list"

record readOnly =
  pendingReadIndex :: "bytes \<Rightarrow> readIndexStatus option"
  readIndexQueue :: "bytes list"

definition newReadOnly :: readOnly where
  "newReadOnly = \<lparr>pendingReadIndex = Map.empty, readIndexQueue = []\<rparr>"

definition addRequest :: "readOnly \<Rightarrow> nat \<Rightarrow> Message \<Rightarrow> readOnly" where
  "addRequest ro idx m =
     (let s = mContext m
      in if pendingReadIndex ro s \<noteq> None then ro
         else ro\<lparr>pendingReadIndex := (pendingReadIndex ro)(s \<mapsto> \<lparr>risIndex = idx, risReq = m, risAcks = []\<rparr>),
                 readIndexQueue := readIndexQueue ro @ [s]\<rparr>)"

definition recvAck :: "readOnly \<Rightarrow> nat \<Rightarrow> bytes \<Rightarrow> nat \<times> readOnly" where
  "recvAck ro i ctx =
     (case pendingReadIndex ro ctx of
        None \<Rightarrow> (0, ro)
      | Some rs \<Rightarrow>
          let rs = rs\<lparr>risAcks := List.insert i (risAcks rs)\<rparr>
          in (length (risAcks rs), ro\<lparr>pendingReadIndex := (pendingReadIndex ro)(ctx \<mapsto> rs)\<rparr>))"

text \<open>The scan of \<open>advance\<close>: whether the target was found, how many queue slots were consumed, and the statuses met.\<close>

fun advanceLoop ::
  "(bytes \<Rightarrow> readIndexStatus option) \<Rightarrow> bytes \<Rightarrow> bytes list \<Rightarrow> bool \<times> nat \<times> readIndexStatus list" where
  "advanceLoop pend target [] = (False, 0, [])"
| "advanceLoop pend target (ctx # queue) =
     (case pend ctx of
        None \<Rightarrow> (let (found, i, rss) = advanceLoop pend target queue in (found, i + 1, rss))
      | Some rs \<Rightarrow>
          if ctx = target then (True, 1, [rs])
          else (let (found, i, rss) = advanceLoop pend target queue in (found, i + 1, rs # rss)))"

definition ro_advance :: "readOnly \<Rightarrow> bytes \<Rightarrow> readIndexStatus list \<times> readOnly" where
  "ro_advance ro target =
     (let (found, i, rss) = advanceLoop (pendingReadIndex ro) target (readIndexQueue ro)
      in if \<not> found then ([], ro)
         else (rss,
               ro\<lparr>readIndexQueue := drop i (readIndexQueue ro),
                  pendingReadIndex := fold (\<lambda>rs p. p(mContext (risReq rs) := None)) rss (pendingReadIndex ro)\<rparr>))"

text \<open>\<open>None\<close> is the nil dereference when the newest queued context has no status.\<close>

definition lastPendingRequestCtx :: "readOnly \<Rightarrow> bytes option" where
  "lastPendingRequestCtx ro =
     (if length (readIndexQueue ro) = 0 then Some []
      else map_option (\<lambda>rs. mContext (risReq rs)) (pendingReadIndex ro (last (readIndexQueue ro))))"

section \<open>Progress never runs backwards past the match\<close>

lemma maybeUpdate_Match: "Match (snd (maybeUpdate pr n)) = max (Match pr) n"
  by (auto simp: maybeUpdate_def)

lemma maybeUpdate_Next: "Next (snd (maybeUpdate pr n)) = max (Next pr) (n + 1)"
  by (auto simp: maybeUpdate_def)

lemma maybeUpdate_fst: "fst (maybeUpdate pr n) \<longleftrightarrow> Match pr < n"
  by (auto simp: maybeUpdate_def)

lemma maybeDecrTo_Match: "Match (snd (maybeDecrTo pr j h)) = Match pr"
  by (auto simp: maybeDecrTo_def Let_def)

lemma maybeDecrTo_Next_pos: "0 < Next pr \<Longrightarrow> 0 < Next (snd (maybeDecrTo pr j h))"
  by (auto simp: maybeDecrTo_def Let_def)

section \<open>The read queue as a FIFO\<close>

text \<open>
  Invariant: the queue lists each pending context once, and every status is filed under the
  context of its own request.
\<close>

definition ro_wf :: "readOnly \<Rightarrow> bool" where
  "ro_wf ro \<longleftrightarrow>
     distinct (readIndexQueue ro) \<and> dom (pendingReadIndex ro) = set (readIndexQueue ro) \<and>
     (\<forall>ctx rs. pendingReadIndex ro ctx = Some rs \<longrightarrow> mContext (risReq rs) = ctx \<and> distinct (risAcks rs))"

text \<open>The abstract queue: the pending statuses, oldest first.\<close>

definition ro_queue :: "readOnly \<Rightarrow> readIndexStatus list" where
  "ro_queue ro = map (the \<circ> pendingReadIndex ro) (readIndexQueue ro)"

lemma newReadOnly_wf: "ro_wf newReadOnly" and newReadOnly_queue: "ro_queue newReadOnly = []"
  by (simp_all add: ro_wf_def newReadOnly_def ro_queue_def)

lemma addRequest_wf: "ro_wf ro \<Longrightarrow> ro_wf (addRequest ro idx m)"
  by (auto simp: ro_wf_def addRequest_def Let_def)

lemma addRequest_queue:
  assumes "ro_wf ro"
  shows "ro_queue (addRequest ro idx m) =
    (if mContext m \<in> set (readIndexQueue ro) then ro_queue ro
     else ro_queue ro @ [\<lparr>risIndex = idx, risReq = m, risAcks = []\<rparr>])"
proof (cases "mContext m \<in> set (readIndexQueue ro)")
  case True
  with assms have "mContext m \<in> dom (pendingReadIndex ro)" by (simp add: ro_wf_def)
  with True show ?thesis by (auto simp: addRequest_def dom_def)
next
  case False
  with assms have "mContext m \<notin> dom (pendingReadIndex ro)" by (simp add: ro_wf_def)
  with False show ?thesis by (auto simp: addRequest_def ro_queue_def dom_def Let_def)
qed

lemma recvAck_wf: "ro_wf ro \<Longrightarrow> ro_wf (snd (recvAck ro i ctx))"
  by (auto simp: ro_wf_def recvAck_def Let_def split: option.splits)

lemma advanceLoop_split:
  assumes "target \<notin> set pre" and "\<forall>c \<in> set (pre @ [target]). pend c \<noteq> None"
  shows "advanceLoop pend target (pre @ target # post) =
    (True, length pre + 1, map (the \<circ> pend) (pre @ [target]))"
  using assms by (induction pre) auto

lemma advanceLoop_absent:
  "target \<notin> set queue \<Longrightarrow> fst (advanceLoop pend target queue) = False"
  by (induction queue) (auto split: option.splits prod.splits)

lemma fold_delete:
  "fold (\<lambda>rs p. p(mContext (risReq rs) := None)) rss p = p |` (- (mContext \<circ> risReq) ` set rss)"
  by (induction rss arbitrary: p) (auto simp: fun_eq_iff restrict_map_def)

lemma ro_advance_absent: "target \<notin> set (readIndexQueue ro) \<Longrightarrow> ro_advance ro target = ([], ro)"
  using advanceLoop_absent [of target "readIndexQueue ro" "pendingReadIndex ro"]
  by (auto simp: ro_advance_def split: prod.splits)

text \<open>Releasing up to a pending context pops exactly the prefix of the queue that ends in it.\<close>

lemma ro_advance_split:
  assumes "ro_wf ro" and "readIndexQueue ro = pre @ target # post"
  obtains ro' where "ro_advance ro target = (map (the \<circ> pendingReadIndex ro) (pre @ [target]), ro')"
    and "ro_wf ro'" and "readIndexQueue ro' = post"
    and "ro_queue ro = map (the \<circ> pendingReadIndex ro) (pre @ [target]) @ ro_queue ro'"
proof -
  let ?p = "pendingReadIndex ro" and ?rss = "map (the \<circ> pendingReadIndex ro) (pre @ [target])"
  have dom: "dom ?p = set pre \<union> {target} \<union> set post" and dist: "distinct (pre @ target # post)"
    using assms by (auto simp: ro_wf_def)
  have some: "\<forall>c \<in> set (pre @ [target]). ?p c \<noteq> None" using dom by auto
  have ctx: "c \<in> dom ?p \<Longrightarrow> mContext (risReq (the (?p c))) = c" for c
    using assms(1) by (metis ro_wf_def domD option.sel)
  have img: "(mContext \<circ> risReq) ` set ?rss = set (pre @ [target])"
    using ctx dom by (force simp: image_iff)
  define ro' where "ro' = ro\<lparr>readIndexQueue := post, pendingReadIndex := ?p |` (- set (pre @ [target]))\<rparr>"
  have "ro_advance ro target = (?rss, ro')"
  proof -
    have "advanceLoop ?p target (readIndexQueue ro) = (True, length pre + 1, ?rss)"
      using advanceLoop_split [OF _ some, of post] dist by (simp add: assms(2))
    then show ?thesis
      unfolding ro_advance_def fold_delete using img by (simp only: case_prod_conv Let_def not_True_eq_False if_False) (simp add: assms(2) ro'_def)
  qed
  moreover have "ro_wf ro'"
  proof -
    have "dom (?p |` (- set (pre @ [target]))) = set post" using dom dist by auto
    with dist assms(1) show ?thesis
      by (simp add: ro_wf_def ro'_def) (simp add: restrict_map_def)
  qed
  moreover have "ro_queue ro = ?rss @ ro_queue ro'"
    using dist by (auto simp: ro_queue_def assms(2) ro'_def restrict_map_def)
  ultimately show ?thesis using that by (simp add: ro'_def)
qed

lemma ro_advance_wf: "ro_wf ro \<Longrightarrow> ro_wf (snd (ro_advance ro target))"
proof (cases "target \<in> set (readIndexQueue ro)")
  case True
  assume "ro_wf ro"
  from True obtain pre post where "readIndexQueue ro = pre @ target # post" by (meson split_list)
  with \<open>ro_wf ro\<close> show ?thesis using ro_advance_split by (metis snd_conv)
qed (simp add: ro_advance_absent)

lemma lastPendingRequestCtx_total: "ro_wf ro \<Longrightarrow> lastPendingRequestCtx ro \<noteq> None"
  by (auto simp: lastPendingRequestCtx_def ro_wf_def dom_def)

section \<open>The table of pending reads\<close>

text \<open>The tables a leader can build, with the reads it added and has not released, oldest first.\<close>

inductive ro_run :: "readOnly \<Rightarrow> bytes list \<Rightarrow> bool" where
  ro_new: "ro_run newReadOnly []"
| ro_add: "ro_run ro w \<Longrightarrow> ro_run (addRequest ro idx m) (if mContext m \<in> set w then w else w @ [mContext m])"
| ro_ack: "ro_run ro w \<Longrightarrow> ro_run (snd (recvAck ro i ctx)) w"
| ro_adv: "ro_run ro w \<Longrightarrow> target \<in> set w \<Longrightarrow>
    ro_run (snd (ro_advance ro target)) (drop 1 (dropWhile (\<lambda>c. c \<noteq> target) w))"
| ro_adv_none: "ro_run ro w \<Longrightarrow> target \<notin> set w \<Longrightarrow> ro_run (snd (ro_advance ro target)) w"

lemma dropWhile_split: "distinct (pre @ x # post) \<Longrightarrow> dropWhile (\<lambda>c. c \<noteq> x) (pre @ x # post) = x # post"
  by (induction pre) auto

lemma ro_run_wf: "ro_run ro w \<Longrightarrow> ro_wf ro \<and> readIndexQueue ro = w"
proof (induction rule: ro_run.induct)
  case (ro_add ro w idx m)
  then have "mContext m \<in> set w \<longleftrightarrow> pendingReadIndex ro (mContext m) \<noteq> None" by (auto simp: ro_wf_def)
  with ro_add addRequest_wf [of ro idx m] show ?case by (auto simp: addRequest_def Let_def)
next
  case (ro_ack ro w i ctx)
  then show ?case using recvAck_wf [of ro i ctx] by (auto simp: recvAck_def Let_def split: option.splits)
next
  case (ro_adv ro w target)
  then obtain pre post where w: "w = pre @ target # post" by (meson split_list)
  with ro_adv have "ro_wf ro" and q: "readIndexQueue ro = pre @ target # post" by simp_all
  then obtain ro' where "ro_advance ro target = (map (the \<circ> pendingReadIndex ro) (pre @ [target]), ro')" "ro_wf ro'"
    "readIndexQueue ro' = post" by (rule ro_advance_split)
  moreover have "distinct (pre @ target # post)" using \<open>ro_wf ro\<close> by (simp only: ro_wf_def q)
  ultimately show ?case by (simp add: w dropWhile_split)
qed (simp_all add: newReadOnly_wf ro_advance_absent, simp add: newReadOnly_def)

text \<open>C19. The table of pending reads stays well formed. However reads are added, acknowledged and
  released, the queue lists the contexts waiting, each once and oldest first, each has a status filed
  under its own request's context with every acknowledging node counted once, the newest
  context can be read without a nil dereference, and releasing a waiting context releases
  exactly the statuses up to and including its own, in order.\<close>

theorem pending_reads_well_formed:
  assumes "ro_run ro w"
  shows "readIndexQueue ro = w \<and> distinct w \<and> dom (pendingReadIndex ro) = set w \<and>
    list_all (\<lambda>ctx. case pendingReadIndex ro ctx of None \<Rightarrow> False | Some rs \<Rightarrow> mContext (risReq rs) = ctx \<and> distinct (risAcks rs)) w \<and>
    lastPendingRequestCtx ro = Some (if w = [] then [] else last w) \<and>
    map (mContext \<circ> risReq) (fst (ro_advance ro target)) =
      (if target \<in> set w then takeWhile (\<lambda>ctx. ctx \<noteq> target) w @ [target] else [])"
proof -
  from ro_run_wf [OF assms] have wf: "ro_wf ro" and q: "readIndexQueue ro = w" by simp_all
  have st: "\<exists>rs. pendingReadIndex ro ctx = Some rs \<and> mContext (risReq rs) = ctx \<and> distinct (risAcks rs)" if "ctx \<in> set w" for ctx
    using that wf q by (metis domD ro_wf_def)
  have "lastPendingRequestCtx ro = Some (if w = [] then [] else last w)"
    using st [of "last w"] by (auto simp: lastPendingRequestCtx_def q)
  moreover have "map (mContext \<circ> risReq) (fst (ro_advance ro target)) = takeWhile (\<lambda>ctx. ctx \<noteq> target) w @ [target]"
    if "target \<in> set w"
  proof -
    from that obtain pre post where w: "w = pre @ target # post" "target \<notin> set pre" by (meson split_list_first)
    then obtain ro' where "ro_advance ro target = (map (the \<circ> pendingReadIndex ro) (pre @ [target]), ro')"
      using ro_advance_split [OF wf] q by metis
    moreover have "takeWhile (\<lambda>ctx. ctx \<noteq> target) w = pre" using w by (simp add: takeWhile_tail)
      (metis (mono_tags, lifting) takeWhile_eq_all_conv)
    moreover have "mContext (risReq (the (pendingReadIndex ro ctx))) = ctx" if "ctx \<in> set (pre @ [target])" for ctx
      using st [of ctx] that w(1) by auto
    ultimately show ?thesis by (simp add: map_idI)
  qed
  moreover have "list_all (\<lambda>ctx. case pendingReadIndex ro ctx of None \<Rightarrow> False | Some rs \<Rightarrow> mContext (risReq rs) = ctx \<and> distinct (risAcks rs)) w"
    unfolding list_all_iff using st by fastforce
  ultimately show ?thesis using wf q by (simp add: ro_wf_def ro_advance_absent)
qed

theorem pending_reads_well_formed_witness:
  "let ro = snd (recvAck (addRequest (addRequest newReadOnly 4 (message0\<lparr>mContext := [1]\<rparr>)) 5 (message0\<lparr>mContext := [2]\<rparr>)) 3 [2])
   in readIndexQueue ro = [[1], [2]] \<and> lastPendingRequestCtx ro = Some [2] \<and>
      map (mContext \<circ> risReq) (fst (ro_advance ro [1])) = [[1]]"
proof -
  have "ro_run (snd (recvAck (addRequest (addRequest newReadOnly 4 (message0\<lparr>mContext := [1]\<rparr>)) 5 (message0\<lparr>mContext := [2]\<rparr>)) 3 [2])) [[1], [2]]"
    using ro_ack [OF ro_add [OF ro_add [OF ro_new, of 4 "message0\<lparr>mContext := [1]\<rparr>"], of 5 "message0\<lparr>mContext := [2]\<rparr>"], of 3 "[2]"]
    by simp
  from pending_reads_well_formed [OF this, of "[1]"] show ?thesis by (simp add: Let_def)
qed

end
