(* ===== verification/Raft_Core.thy ===== *)
theory Raft_Core
  imports Raft_Log Raft_Progress
begin

text \<open>
  The consensus state machine: \<^verbatim>\<open>raft/raft.go\<close> (state, role transitions, timers, elections,
  the commit rule), \<^verbatim>\<open>raft/replication.go\<close> (append, heartbeat and snapshot traffic),
  \<^verbatim>\<open>raft/step.go\<close> (the term rules, votes, proposals and reads) and \<^verbatim>\<open>raft/handlers.go\<close>
  (the per-role message handlers).

  Methods of \<open>*raft\<close> become functions from the state to the new state, \<open>None\<close> being a panic.
  The functions appear in the order their calls need. \<open>votes\<close> is the association list of the
  ballots in arrival order, \<open>prs\<close> a map whose missing key is the nil pointer, and \<open>rndPos\<close>
  the number of values drawn so far from \<open>cfg.Rand\<close>.
\<close>

section \<open>State\<close>

abbreviation (input) NoNode :: nat where "NoNode \<equiv> 0"

record 'st raft =
  cfg :: Config
  rid :: nat
  rTerm :: nat
  rVote :: nat
  raftLog :: "'st raftLog"
  rstate :: StateType
  lead :: nat
  peers :: "nat list"
  prs :: "nat \<Rightarrow> progress option"
  votes :: "(nat \<times> bool) list"
  msgs :: "Message list"
  readStates :: "ReadState list"
  rReadOnly :: readOnly
  pendingReadIndexMessages :: "Message list"
  electionElapsed :: int
  heartbeatElapsed :: int
  heartbeatTimeout :: int
  randomizedElectionTimeout :: int
  prevHardSt :: HardState
  rndPos :: nat

definition quorum :: "'st raft \<Rightarrow> nat" where
  "quorum r = length (peers r) div 2 + 1"

definition hardState :: "'st raft \<Rightarrow> HardState" where
  "hardState r = \<lparr>hsTerm = rTerm r, hsVote = rVote r, hsCommit = lCommitted (raftLog r)\<rparr>"

definition send :: "Message \<Rightarrow> 'st raft \<Rightarrow> 'st raft" where
  "send m r =
     (let m = m\<lparr>mFrom := rid r\<rparr>;
          m = (if mTerm m = 0 \<and> mType m \<noteq> MsgPropose then
                 (if mType m = MsgPreVote \<or> mType m = MsgPreVoteResp then m
                  else m\<lparr>mTerm := rTerm r\<rparr>)
               else m)
      in r\<lparr>msgs := msgs r @ [m]\<rparr>)"

section \<open>Replication traffic\<close>

definition sendSnapshot :: "'st LogStorage \<Rightarrow> nat \<Rightarrow> 'st raft \<Rightarrow> 'st raft" where
  "sendSnapshot ops i r =
     (case opSnapshot ops (lStorage (raftLog r)) of
        Inl _ \<Rightarrow> r
      | Inr snap \<Rightarrow>
          if snIndex snap = 0 then r
          else send (message0\<lparr>mTo := i, mType := MsgInstallSnapshot, mSnapshot := Some snap\<rparr>) r)"

definition entriesToSend :: "'st LogStorage \<Rightarrow> 'st raft \<Rightarrow> nat \<Rightarrow> (raft_error + Entry list) option" where
  "entriesToSend ops r lo = do {
     lst \<leftarrow> lastIndex ops (raftLog r);
     if lst < lo then Some (Inr [])
     else
       let limit = cfgMaxEntriesPerAppend (cfg r);
           hi = lst + 1;
           hi = (if 0 < limit \<and> nat limit < hi - lo then lo + nat limit else hi)
       in log_slice ops (raftLog r) lo hi }"

definition sendAppend :: "'st LogStorage \<Rightarrow> nat \<Rightarrow> 'st raft \<Rightarrow> 'st raft option" where
  "sendAppend ops i r =
     (case prs r i of
        None \<Rightarrow> Some r
      | Some pr \<Rightarrow> do {
          let prevIndex = usub64 (Next pr) 1;
          t \<leftarrow> log_term ops (raftLog r) prevIndex;
          case t of
            Inl _ \<Rightarrow> Some (sendSnapshot ops i r)
          | Inr prevTerm \<Rightarrow> do {
              es \<leftarrow> entriesToSend ops r (Next pr);
              case es of
                Inl _ \<Rightarrow> Some (sendSnapshot ops i r)
              | Inr ents \<Rightarrow>
                  Some (send (message0\<lparr>mTo := i, mType := MsgAppend, mLogIndex := prevIndex,
                           mLogTerm := prevTerm, mEntries := ents,
                           mCommit := lCommitted (raftLog r)\<rparr>) r) } })"

definition bcastAppend :: "'st LogStorage \<Rightarrow> 'st raft \<Rightarrow> 'st raft option" where
  "bcastAppend ops r =
     fold_opt (\<lambda>i r. if i = rid r then Some r else sendAppend ops i r) (peers r) r"

definition bcastHeartbeatWithCtx :: "bytes \<Rightarrow> 'st raft \<Rightarrow> 'st raft option" where
  "bcastHeartbeatWithCtx ctx r =
     fold_opt (\<lambda>i r.
        if i = rid r then Some r
        else case prs r i of
          None \<Rightarrow> None
        | Some pr \<Rightarrow>
            Some (send (message0\<lparr>mTo := i, mType := MsgHeartbeat,
                     mCommit := min (Match pr) (lCommitted (raftLog r)), mContext := ctx\<rparr>) r))
       (peers r) r"

definition bcastHeartbeat :: "'st raft \<Rightarrow> 'st raft option" where
  "bcastHeartbeat r = do {
     ctx \<leftarrow> lastPendingRequestCtx (rReadOnly r);
     bcastHeartbeatWithCtx ctx r }"

section \<open>Reads\<close>

definition sendReadIndex :: "Message \<Rightarrow> 'st raft \<Rightarrow> 'st raft option" where
  "sendReadIndex m r =
     (if length (peers r) = 1 then
        Some (r\<lparr>readStates := readStates r @
                  [\<lparr>rsIndex = lCommitted (raftLog r), rsRequestCtx = mContext m\<rparr>]\<rparr>)
      else
        let r = r\<lparr>rReadOnly := addRequest (rReadOnly r) (lCommitted (raftLog r)) m\<rparr>;
            r = r\<lparr>rReadOnly := snd (recvAck (rReadOnly r) (rid r) (mContext m))\<rparr>
        in bcastHeartbeatWithCtx (mContext m) r)"

definition committedEntryInCurrentTerm :: "'st LogStorage \<Rightarrow> 'st raft \<Rightarrow> bool option" where
  "committedEntryInCurrentTerm ops r = do {
     t \<leftarrow> log_term ops (raftLog r) (lCommitted (raftLog r));
     Some (case t of Inl _ \<Rightarrow> False | Inr t \<Rightarrow> t = rTerm r) }"

definition releasePendingReadIndexMessages :: "'st LogStorage \<Rightarrow> 'st raft \<Rightarrow> 'st raft option" where
  "releasePendingReadIndexMessages ops r =
     (if rstate r \<noteq> StateLeader then Some r
      else do {
        c \<leftarrow> committedEntryInCurrentTerm ops r;
        if \<not> c then Some r
        else
          let pending = pendingReadIndexMessages r
          in fold_opt sendReadIndex pending (r\<lparr>pendingReadIndexMessages := []\<rparr>) })"

section \<open>The commit rule\<close>

text \<open>\<open>None\<close> when a peer has no progress record (the nil dereference).\<close>

fun matchesOf :: "(nat \<Rightarrow> progress option) \<Rightarrow> nat list \<Rightarrow> nat list option" where
  "matchesOf p [] = Some []"
| "matchesOf p (i # is) = do { pr \<leftarrow> p i; ms \<leftarrow> matchesOf p is; Some (Match pr # ms) }"

definition maybeCommit :: "'st LogStorage \<Rightarrow> 'st raft \<Rightarrow> (bool \<times> 'st raft) option" where
  "maybeCommit ops r = do {
     ms \<leftarrow> matchesOf (prs r) (peers r);
     let matches = sort ms;
     if length matches < quorum r then None
     else do {
       let mci = matches ! (length matches - quorum r);
       (ok, l) \<leftarrow> log_maybeCommit ops (raftLog r) mci (rTerm r);
       let r = r\<lparr>raftLog := l\<rparr>;
       if \<not> ok then Some (False, r)
       else do {
         r \<leftarrow> releasePendingReadIndexMessages ops r;
         Some (True, r) } } }"

fun stampEntries :: "nat \<Rightarrow> nat \<Rightarrow> Entry list \<Rightarrow> Entry list" where
  "stampEntries t i [] = []"
| "stampEntries t i (e # es) = e\<lparr>eTerm := t, eIndex := i\<rparr> # stampEntries t (i + 1) es"

definition appendEntry :: "'st LogStorage \<Rightarrow> Entry list \<Rightarrow> 'st raft \<Rightarrow> 'st raft option" where
  "appendEntry ops es r = do {
     li \<leftarrow> lastIndex ops (raftLog r);
     (_, l) \<leftarrow> log_append ops (raftLog r) (stampEntries (rTerm r) (li + 1) es);
     let r = r\<lparr>raftLog := l\<rparr>;
     pr \<leftarrow> prs r (rid r);
     li \<leftarrow> lastIndex ops (raftLog r);
     let r = r\<lparr>prs := (prs r)(rid r \<mapsto> snd (maybeUpdate pr li))\<rparr>;
     map_option snd (maybeCommit ops r) }"

section \<open>Role transitions\<close>

text \<open>\<open>Rand.Intn(n)\<close> panics for \<open>n \<le> 0\<close>, and a nil \<open>Rand\<close> panics on use.\<close>

definition resetRandomizedElectionTimeout :: "'st raft \<Rightarrow> 'st raft option" where
  "resetRandomizedElectionTimeout r =
     (case cfgRand (cfg r) of
        None \<Rightarrow> None
      | Some rnd \<Rightarrow>
          if cfgElectionTicks (cfg r) \<le> 0 then None
          else Some (r\<lparr>randomizedElectionTimeout :=
                        cfgElectionTicks (cfg r) + int (rnd (rndPos r)) mod cfgElectionTicks (cfg r),
                       rndPos := rndPos r + 1\<rparr>))"

definition reset :: "'st LogStorage \<Rightarrow> nat \<Rightarrow> 'st raft \<Rightarrow> 'st raft option" where
  "reset ops t r = do {
     let r = (if rTerm r \<noteq> t then r\<lparr>rTerm := t, rVote := NoNode\<rparr> else r);
     let r = r\<lparr>lead := NoNode, electionElapsed := 0, heartbeatElapsed := 0\<rparr>;
     r \<leftarrow> resetRandomizedElectionTimeout r;
     let r = r\<lparr>votes := []\<rparr>;
     lst \<leftarrow> lastIndex ops (raftLog r);
     let r = r\<lparr>prs := fold (\<lambda>i p. p(i \<mapsto> \<lparr>Match = (if i = rid r then lst else 0), Next = lst + 1\<rparr>))
                        (peers r) Map.empty\<rparr>;
     Some (r\<lparr>rReadOnly := newReadOnly, pendingReadIndexMessages := []\<rparr>) }"

definition becomeFollower :: "'st LogStorage \<Rightarrow> nat \<Rightarrow> nat \<Rightarrow> 'st raft \<Rightarrow> 'st raft option" where
  "becomeFollower ops t ld r = do {
     r \<leftarrow> reset ops t r;
     Some (r\<lparr>rstate := StateFollower, lead := ld\<rparr>) }"

definition becomePreCandidate :: "'st raft \<Rightarrow> 'st raft option" where
  "becomePreCandidate r =
     (if rstate r = StateLeader then None
      else resetRandomizedElectionTimeout
             (r\<lparr>rstate := StatePreCandidate, votes := [], lead := NoNode, electionElapsed := 0\<rparr>))"

definition becomeCandidate :: "'st LogStorage \<Rightarrow> 'st raft \<Rightarrow> 'st raft option" where
  "becomeCandidate ops r =
     (if rstate r = StateLeader then None
      else do {
        r \<leftarrow> reset ops (rTerm r + 1) r;
        Some (r\<lparr>rVote := rid r, rstate := StateCandidate\<rparr>) })"

definition becomeLeader :: "'st LogStorage \<Rightarrow> 'st raft \<Rightarrow> 'st raft option" where
  "becomeLeader ops r =
     (if rstate r = StateFollower then None
      else do {
        r \<leftarrow> reset ops (rTerm r) r;
        let r = r\<lparr>lead := rid r, rstate := StateLeader\<rparr>;
        appendEntry ops [\<lparr>eTerm = 0, eIndex = 0, eType = EntryNoop, eData = []\<rparr>] r })"

section \<open>Elections and timers\<close>

definition recordVote :: "nat \<Rightarrow> bool \<Rightarrow> 'st raft \<Rightarrow> 'st raft" where
  "recordVote i granted r =
     (if map_of (votes r) i = None then r\<lparr>votes := votes r @ [(i, granted)]\<rparr> else r)"

definition tallyGranted :: "'st raft \<Rightarrow> nat" where
  "tallyGranted r = length (filter snd (votes r))"

definition tallyRejected :: "'st raft \<Rightarrow> nat" where
  "tallyRejected r = length (filter (\<lambda>v. \<not> snd v) (votes r))"

definition pastElectionTimeout :: "'st raft \<Rightarrow> bool" where
  "pastElectionTimeout r \<longleftrightarrow> randomizedElectionTimeout r \<le> electionElapsed r"

definition promotable :: "'st raft \<Rightarrow> bool" where
  "promotable r \<longleftrightarrow> prs r (rid r) \<noteq> None"

function solicitVotes :: "'st LogStorage \<Rightarrow> MessageType \<Rightarrow> nat \<Rightarrow> 'st raft \<Rightarrow> 'st raft option" where
  "solicitVotes ops t voteTerm r =
     (let r = recordVote (rid r) True r
      in if quorum r \<le> tallyGranted r then
           (if t = MsgPreVote then do {
              r \<leftarrow> becomeCandidate ops r;
              solicitVotes ops MsgVote (rTerm r) r }
            else becomeLeader ops r)
         else do {
           li \<leftarrow> lastIndex ops (raftLog r);
           lt \<leftarrow> lastTerm ops (raftLog r);
           Some (fold (\<lambda>i r. if i = rid r then r
                             else send (message0\<lparr>mType := t, mTo := i, mTerm := voteTerm,
                                          mLogIndex := li, mLogTerm := lt\<rparr>) r)
                   (peers r) r) })"
  by pat_completeness auto
termination
  by (relation "measure (\<lambda>(ops, t, vt, r). if t = MsgPreVote then 1 else 0)") auto

declare solicitVotes.simps [simp del]

definition campaign :: "'st LogStorage \<Rightarrow> 'st raft \<Rightarrow> 'st raft option" where
  "campaign ops r =
     (if cfgPreVote (cfg r) then do {
        r \<leftarrow> becomePreCandidate r;
        solicitVotes ops MsgPreVote (rTerm r + 1) r }
      else do {
        r \<leftarrow> becomeCandidate ops r;
        solicitVotes ops MsgVote (rTerm r) r })"

definition tickElection :: "'st LogStorage \<Rightarrow> 'st raft \<Rightarrow> 'st raft option" where
  "tickElection ops r =
     (let r = r\<lparr>electionElapsed := electionElapsed r + 1\<rparr>
      in if promotable r \<and> pastElectionTimeout r
         then campaign ops (r\<lparr>electionElapsed := 0\<rparr>)
         else Some r)"

definition tickHeartbeat :: "'st raft \<Rightarrow> 'st raft option" where
  "tickHeartbeat r =
     (let r = r\<lparr>heartbeatElapsed := heartbeatElapsed r + 1\<rparr>
      in if heartbeatTimeout r \<le> heartbeatElapsed r
         then bcastHeartbeat (r\<lparr>heartbeatElapsed := 0\<rparr>)
         else Some r)"

definition tick :: "'st LogStorage \<Rightarrow> 'st raft \<Rightarrow> 'st raft option" where
  "tick ops r = (if rstate r = StateLeader then tickHeartbeat r else tickElection ops r)"

section \<open>Message handlers\<close>

fun findConflictByTerm :: "'st LogStorage \<Rightarrow> 'st raft \<Rightarrow> nat \<Rightarrow> nat \<Rightarrow> (nat \<times> nat) option" where
  "findConflictByTerm ops r 0 t = Some (0, 0)"
| "findConflictByTerm ops r (Suc i) t = do {
     gt \<leftarrow> log_term ops (raftLog r) (Suc i);
     case gt of
       Inl _ \<Rightarrow> Some (Suc i, 0)
     | Inr gt \<Rightarrow> if gt \<le> t then Some (Suc i, gt) else findConflictByTerm ops r i t }"

definition handleAppend :: "'st LogStorage \<Rightarrow> Message \<Rightarrow> 'st raft \<Rightarrow> 'st raft option" where
  "handleAppend ops m r =
     (if mLogIndex m < lCommitted (raftLog r) then
        Some (send (message0\<lparr>mTo := mFrom m, mType := MsgAppendResp, mLogIndex := lCommitted (raftLog r)\<rparr>) r)
      else do {
        ((mlastIndex, ok), l) \<leftarrow>
          maybeAppend ops (raftLog r) (mLogIndex m) (mLogTerm m) (mCommit m) (mEntries m);
        let r = r\<lparr>raftLog := l\<rparr>;
        if ok then
          Some (send (message0\<lparr>mTo := mFrom m, mType := MsgAppendResp, mLogIndex := mlastIndex\<rparr>) r)
        else do {
          li \<leftarrow> lastIndex ops (raftLog r);
          (hintIndex, hintTerm) \<leftarrow> findConflictByTerm ops r (min (mLogIndex m) li) (mLogTerm m);
          Some (send (message0\<lparr>mTo := mFrom m, mType := MsgAppendResp, mLogIndex := mLogIndex m,
                   mReject := True, mRejectHint := hintIndex, mHintTerm := hintTerm\<rparr>) r) } })"

definition handleHeartbeat :: "'st LogStorage \<Rightarrow> Message \<Rightarrow> 'st raft \<Rightarrow> 'st raft option" where
  "handleHeartbeat ops m r = do {
     li \<leftarrow> lastIndex ops (raftLog r);
     l \<leftarrow> commitTo ops (raftLog r) (min (mCommit m) li);
     Some (send (message0\<lparr>mTo := mFrom m, mType := MsgHeartbeatResp, mContext := mContext m\<rparr>)
             (r\<lparr>raftLog := l\<rparr>)) }"

definition raft_restore :: "'st LogStorage \<Rightarrow> Snapshot \<Rightarrow> 'st raft \<Rightarrow> (bool \<times> 'st raft) option" where
  "raft_restore ops snap r =
     (if snIndex snap \<le> lCommitted (raftLog r) then Some (False, r)
      else do {
        m \<leftarrow> matchTerm ops (raftLog r) (snIndex snap) (snTerm snap);
        if m then do {
          l \<leftarrow> commitTo ops (raftLog r) (snIndex snap);
          Some (False, r\<lparr>raftLog := l\<rparr>) }
        else Some (True, r\<lparr>raftLog := log_restore (raftLog r) snap\<rparr>) })"

definition handleSnapshot :: "'st LogStorage \<Rightarrow> Message \<Rightarrow> 'st raft \<Rightarrow> 'st raft option" where
  "handleSnapshot ops m r =
     (case mSnapshot m of
        None \<Rightarrow> Some r
      | Some snap \<Rightarrow> do {
          (restored, r) \<leftarrow> raft_restore ops snap r;
          if restored then do {
            li \<leftarrow> lastIndex ops (raftLog r);
            Some (send (message0\<lparr>mTo := mFrom m, mType := MsgInstallSnapshotResp, mLogIndex := li\<rparr>) r) }
          else
            Some (send (message0\<lparr>mTo := mFrom m, mType := MsgInstallSnapshotResp,
                     mLogIndex := lCommitted (raftLog r)\<rparr>) r) })"

text \<open>The scan of \<open>decrHint\<close> back to the last index whose term is at most the hint's.\<close>

fun decrHintLoop :: "'st LogStorage \<Rightarrow> 'st raft \<Rightarrow> nat \<Rightarrow> nat \<Rightarrow> nat option" where
  "decrHintLoop ops r 0 hintTerm = Some 0"
| "decrHintLoop ops r (Suc h) hintTerm = do {
     gt \<leftarrow> log_term ops (raftLog r) (Suc h);
     case gt of
       Inl _ \<Rightarrow> Some (Suc h)
     | Inr gt \<Rightarrow> if gt \<le> hintTerm then Some (Suc h) else decrHintLoop ops r h hintTerm }"

definition decrHint :: "'st LogStorage \<Rightarrow> Message \<Rightarrow> 'st raft \<Rightarrow> nat option" where
  "decrHint ops m r =
     (let hint = mRejectHint m
      in if 0 < mHintTerm m then do {
           li \<leftarrow> lastIndex ops (raftLog r);
           let hint = (if li < hint then li else hint);
           decrHintLoop ops r hint (mHintTerm m) }
         else Some hint)"

definition handleAppendResp :: "'st LogStorage \<Rightarrow> Message \<Rightarrow> 'st raft \<Rightarrow> 'st raft option" where
  "handleAppendResp ops m r =
     (case prs r (mFrom m) of
        None \<Rightarrow> Some r
      | Some pr \<Rightarrow>
          if mReject m then do {
            hint \<leftarrow> decrHint ops m r;
            let (ok, pr) = maybeDecrTo pr (mLogIndex m) hint;
            let r = r\<lparr>prs := (prs r)(mFrom m \<mapsto> pr)\<rparr>;
            if ok then sendAppend ops (mFrom m) r else Some r }
          else do {
            let (updated, pr) = maybeUpdate pr (mLogIndex m);
            let r = r\<lparr>prs := (prs r)(mFrom m \<mapsto> pr)\<rparr>;
            if updated then do {
              (committed, r) \<leftarrow> maybeCommit ops r;
              if committed then bcastAppend ops r else Some r }
            else Some r })"

definition handleHeartbeatResp :: "'st LogStorage \<Rightarrow> Message \<Rightarrow> 'st raft \<Rightarrow> 'st raft option" where
  "handleHeartbeatResp ops m r = do {
     r \<leftarrow> (case prs r (mFrom m) of
             None \<Rightarrow> Some r
           | Some pr \<Rightarrow> do {
               li \<leftarrow> lastIndex ops (raftLog r);
               if Match pr < li then sendAppend ops (mFrom m) r else Some r });
     if length (mContext m) = 0 then Some r
     else do {
       let (acks, ro) = recvAck (rReadOnly r) (mFrom m) (mContext m);
       let r = r\<lparr>rReadOnly := ro\<rparr>;
       if acks < quorum r then Some r
       else do {
         let (rss, ro) = ro_advance (rReadOnly r) (mContext m);
         Some (r\<lparr>rReadOnly := ro,
                 readStates := readStates r @
                   map (\<lambda>rs. \<lparr>rsIndex = risIndex rs, rsRequestCtx = mContext (risReq rs)\<rparr>) rss\<rparr>) } } }"

section \<open>Role-specific stepping\<close>

definition stepFollower :: "'st LogStorage \<Rightarrow> Message \<Rightarrow> 'st raft \<Rightarrow> 'st raft option" where
  "stepFollower ops m r =
     (case mType m of
        MsgAppend \<Rightarrow> handleAppend ops m (r\<lparr>electionElapsed := 0, lead := mFrom m\<rparr>)
      | MsgHeartbeat \<Rightarrow> handleHeartbeat ops m (r\<lparr>electionElapsed := 0, lead := mFrom m\<rparr>)
      | MsgInstallSnapshot \<Rightarrow> handleSnapshot ops m (r\<lparr>electionElapsed := 0, lead := mFrom m\<rparr>)
      | _ \<Rightarrow> Some r)"

definition stepCandidate :: "'st LogStorage \<Rightarrow> Message \<Rightarrow> 'st raft \<Rightarrow> 'st raft option" where
  "stepCandidate ops m r =
     (let myVoteResp = (if rstate r = StatePreCandidate then MsgPreVoteResp else MsgVoteResp)
      in if mType m = MsgAppend then do {
           r \<leftarrow> becomeFollower ops (mTerm m) (mFrom m) r;
           handleAppend ops m r }
         else if mType m = MsgHeartbeat then do {
           r \<leftarrow> becomeFollower ops (mTerm m) (mFrom m) r;
           handleHeartbeat ops m r }
         else if mType m = MsgInstallSnapshot then do {
           r \<leftarrow> becomeFollower ops (mTerm m) (mFrom m) r;
           handleSnapshot ops m r }
         else if mType m = myVoteResp then
           (let r = recordVote (mFrom m) (\<not> mReject m) r;
                granted = tallyGranted r;
                rejected = tallyRejected r
            in if quorum r \<le> granted then
                 (if rstate r = StatePreCandidate then do {
                    r \<leftarrow> becomeCandidate ops r;
                    solicitVotes ops MsgVote (rTerm r) r }
                  else do {
                    r \<leftarrow> becomeLeader ops r;
                    bcastAppend ops r })
               else if quorum r \<le> rejected then becomeFollower ops (rTerm r) NoNode r
               else Some r)
         else Some r)"

definition stepLeader :: "'st LogStorage \<Rightarrow> Message \<Rightarrow> 'st raft \<Rightarrow> 'st raft option" where
  "stepLeader ops m r =
     (case mType m of
        MsgAppendResp \<Rightarrow> handleAppendResp ops m r
      | MsgHeartbeatResp \<Rightarrow> handleHeartbeatResp ops m r
      | MsgInstallSnapshotResp \<Rightarrow>
          (case prs r (mFrom m) of
             None \<Rightarrow> Some r
           | Some pr \<Rightarrow>
               sendAppend ops (mFrom m)
                 (r\<lparr>prs := (prs r)(mFrom m \<mapsto> snd (maybeUpdate pr (mLogIndex m)))\<rparr>))
      | _ \<Rightarrow> Some r)"

section \<open>The entry point\<close>

definition msgRespType :: "MessageType \<Rightarrow> MessageType" where
  "msgRespType t =
     (case t of
        MsgAppend \<Rightarrow> MsgAppendResp
      | MsgHeartbeat \<Rightarrow> MsgHeartbeatResp
      | MsgInstallSnapshot \<Rightarrow> MsgInstallSnapshotResp
      | _ \<Rightarrow> MsgUnknown)"

definition handleVoteRequest :: "'st LogStorage \<Rightarrow> Message \<Rightarrow> 'st raft \<Rightarrow> 'st raft option" where
  "handleVoteRequest ops m r = do {
     let respType = (if mType m = MsgPreVote then MsgPreVoteResp else MsgVoteResp);
     upToDate \<leftarrow> isUpToDate ops (raftLog r) (mLogIndex m) (mLogTerm m);
     let (grant, r) =
       (if mType m = MsgPreVote then (upToDate \<and> rTerm r < mTerm m, r)
        else if mType m = MsgVote then
          (let canVote = (rVote r = mFrom m \<or> (rVote r = NoNode \<and> lead r = NoNode) \<or> rTerm r < mTerm m);
               grant = (canVote \<and> upToDate)
           in (grant, if grant then r\<lparr>rVote := mFrom m, electionElapsed := 0\<rparr> else r))
        else (False, r));
     let resp = message0\<lparr>mTo := mFrom m, mType := respType, mReject := \<not> grant\<rparr>;
     let resp = (if mType m = MsgPreVote then resp\<lparr>mTerm := mTerm m\<rparr> else resp);
     Some (send resp r) }"

definition stepPropose :: "'st LogStorage \<Rightarrow> Message \<Rightarrow> 'st raft \<Rightarrow> (raft_error option \<times> 'st raft) option" where
  "stepPropose ops m r =
     (if rstate r \<noteq> StateLeader then Some (Some ErrNotLeader, r)
      else if length (mEntries m) = 0 then Some (None, r)
      else do {
        r \<leftarrow> appendEntry ops (map (\<lambda>e. e\<lparr>eType := EntryNormal\<rparr>) (mEntries m)) r;
        r \<leftarrow> bcastAppend ops r;
        Some (None, r) })"

definition stepReadIndex :: "'st LogStorage \<Rightarrow> Message \<Rightarrow> 'st raft \<Rightarrow> (raft_error option \<times> 'st raft) option" where
  "stepReadIndex ops m r =
     (if rstate r \<noteq> StateLeader then Some (Some ErrNotLeader, r)
      else do {
        c \<leftarrow> committedEntryInCurrentTerm ops r;
        if \<not> c then Some (None, r\<lparr>pendingReadIndexMessages := pendingReadIndexMessages r @ [m]\<rparr>)
        else do {
          r \<leftarrow> sendReadIndex m r;
          Some (None, r) } })"

text \<open>The stickiness check: a vote or pre-vote is refused while a leader is live.\<close>

definition sticky :: "Message \<Rightarrow> 'st raft \<Rightarrow> bool" where
  "sticky m r \<longleftrightarrow>
     (mType m = MsgVote \<or> mType m = MsgPreVote) \<and> lead r \<noteq> NoNode \<and> rVote r \<noteq> mFrom m \<and>
     electionElapsed r < cfgElectionTicks (cfg r)"

definition stickyReject :: "Message \<Rightarrow> 'st raft \<Rightarrow> 'st raft" where
  "stickyReject m r =
     (let respType = (if mType m = MsgPreVote then MsgPreVoteResp else MsgVoteResp);
          resp = message0\<lparr>mTo := mFrom m, mType := respType, mReject := True\<rparr>;
          resp = (if mType m = MsgPreVote then resp\<lparr>mTerm := mTerm m\<rparr> else resp\<lparr>mTerm := rTerm r\<rparr>)
      in send resp r)"

text \<open>The term rules. The flag says whether stepping ends here (a stale message).\<close>

definition termRules :: "'st LogStorage \<Rightarrow> Message \<Rightarrow> 'st raft \<Rightarrow> (bool \<times> 'st raft) option" where
  "termRules ops m r =
     (if mTerm m = 0 then Some (False, r)
      else if rTerm r < mTerm m then
        (if mType m = MsgPreVote then Some (False, r)
         else if mType m = MsgPreVoteResp \<and> \<not> mReject m then Some (False, r)
         else do {
           let ld = (if mType m = MsgVote then NoNode else mFrom m);
           r \<leftarrow> becomeFollower ops (mTerm m) ld r;
           Some (False, r) })
      else if mTerm m < rTerm r then
        Some (True,
          (case mType m of
             MsgAppend \<Rightarrow> send (message0\<lparr>mTo := mFrom m, mType := msgRespType (mType m)\<rparr>) r
           | MsgHeartbeat \<Rightarrow> send (message0\<lparr>mTo := mFrom m, mType := msgRespType (mType m)\<rparr>) r
           | MsgInstallSnapshot \<Rightarrow> send (message0\<lparr>mTo := mFrom m, mType := msgRespType (mType m)\<rparr>) r
           | MsgPreVote \<Rightarrow>
               send (message0\<lparr>mTo := mFrom m, mType := MsgPreVoteResp, mTerm := rTerm r, mReject := True\<rparr>) r
           | _ \<Rightarrow> r))
      else Some (False, r))"

definition stepRole :: "'st LogStorage \<Rightarrow> Message \<Rightarrow> 'st raft \<Rightarrow> 'st raft option" where
  "stepRole ops m r =
     (if mType m = MsgPreVote \<or> mType m = MsgVote then handleVoteRequest ops m r
      else case rstate r of
        StateFollower \<Rightarrow> stepFollower ops m r
      | StatePreCandidate \<Rightarrow> stepCandidate ops m r
      | StateCandidate \<Rightarrow> stepCandidate ops m r
      | StateLeader \<Rightarrow> stepLeader ops m r)"

definition Step :: "'st LogStorage \<Rightarrow> Message \<Rightarrow> 'st raft \<Rightarrow> (raft_error option \<times> 'st raft) option" where
  "Step ops m r =
     (if mType m = MsgPropose then stepPropose ops m r
      else if mType m = MsgReadIndex then stepReadIndex ops m r
      else if sticky m r then Some (None, stickyReject m r)
      else do {
        (done, r) \<leftarrow> termRules ops m r;
        if done then Some (None, r)
        else do {
          r \<leftarrow> stepRole ops m r;
          Some (None, r) } })"

section \<open>Construction\<close>

definition newRaft :: "'st LogStorage \<Rightarrow> Config \<Rightarrow> 'st \<Rightarrow> (raft_error + 'st raft) option" where
  "newRaft ops c storage =
     (case newLog ops storage of
        Inl e \<Rightarrow> Some (Inl e)
      | Inr rlog \<Rightarrow>
          (case opHardState ops storage of
             Inl e \<Rightarrow> Some (Inl e)
           | Inr hs \<Rightarrow> do {
               let r = \<lparr>cfg = c, rid = cfgID c, rTerm = 0, rVote = 0, raftLog = rlog,
                        rstate = StateFollower, lead = NoNode, peers = sort (cfgPeers c),
                        prs = Map.empty, votes = [], msgs = [], readStates = [],
                        rReadOnly = newReadOnly, pendingReadIndexMessages = [],
                        electionElapsed = 0, heartbeatElapsed = 0,
                        heartbeatTimeout = cfgHeartbeatTicks c, randomizedElectionTimeout = 0,
                        prevHardSt = hardState0, rndPos = 0\<rparr>;
               let r = r\<lparr>rTerm := hsTerm hs, rVote := hsVote hs\<rparr>;
               l \<leftarrow> (if lCommitted (raftLog r) < hsCommit hs then commitTo ops (raftLog r) (hsCommit hs)
                     else Some (raftLog r));
               let r = r\<lparr>raftLog := l\<rparr>;
               let r = r\<lparr>prevHardSt := hardState r\<rparr>;
               r \<leftarrow> becomeFollower ops (rTerm r) NoNode r;
               Some (Inr r) }))"

end
