(* ===== verification/Raft_Node.thy ===== *)
theory Raft_Node
  imports Raft_Core
begin

text \<open>
  The driver-facing facade of the core, \<^verbatim>\<open>raft/node.go\<close>: construction, \<open>Tick\<close>, \<open>Step\<close>, and the
  poll-based output cycle \<open>HasReady\<close> / \<open>Ready\<close> / \<open>Advance\<close>.
\<close>

section \<open>Operations\<close>

record 'st Node =
  nr :: "'st raft"
  pendingReady :: "Ready option"

definition NewNode ::
  "'st LogStorage \<Rightarrow> Config \<Rightarrow> 'st option \<Rightarrow> ((config_error + raft_error) + 'st Node) option" where
  "NewNode ops c storage =
     (case validate c of
        Some e \<Rightarrow> Some (Inl (Inl e))
      | None \<Rightarrow>
          (case storage of
             None \<Rightarrow> None
           | Some st \<Rightarrow> do {
               r \<leftarrow> newRaft ops c st;
               case r of
                 Inl e \<Rightarrow> Some (Inl (Inr e))
               | Inr r \<Rightarrow> Some (Inr \<lparr>nr = r, pendingReady = None\<rparr>) }))"

definition Tick :: "'st LogStorage \<Rightarrow> 'st Node \<Rightarrow> 'st Node option" where
  "Tick ops n = do { r \<leftarrow> tick ops (nr n); Some (n\<lparr>nr := r\<rparr>) }"

definition Node_Step :: "'st LogStorage \<Rightarrow> Message \<Rightarrow> 'st Node \<Rightarrow> (raft_error option \<times> 'st Node) option" where
  "Node_Step ops m n = do { (e, r) \<leftarrow> Step ops m (nr n); Some (e, n\<lparr>nr := r\<rparr>) }"

definition HasReady :: "'st LogStorage \<Rightarrow> 'st Node \<Rightarrow> bool option" where
  "HasReady ops n =
     (if pendingReady n \<noteq> None then Some False
      else
        let r = nr n; u = lUnstable (raftLog r)
        in if 0 < length (msgs r) \<or> 0 < length (readStates r) then Some True
           else if 0 < length (uEntries u) \<or> uSnapshot u \<noteq> None then Some True
           else do {
             c \<leftarrow> hasNextCommittedEnts ops (raftLog r);
             if c then Some True
             else Some (hardState r \<noteq> prevHardSt r) })"

definition Node_Ready :: "'st LogStorage \<Rightarrow> 'st Node \<Rightarrow> (Ready \<times> 'st Node) option" where
  "Node_Ready ops n = do {
     let r = nr n;
     ces \<leftarrow> nextCommittedEnts ops (raftLog r);
     let ents = uEntries (lUnstable (raftLog r));
     let snap = uSnapshot (lUnstable (raftLog r));
     let hs = (if hardState r \<noteq> prevHardSt r then Some (hardState r) else None);
     let mustSync = (0 < length ents \<or> snap \<noteq> None \<or>
           (case hs of
              None \<Rightarrow> False
            | Some h \<Rightarrow> hsTerm h \<noteq> hsTerm (prevHardSt r) \<or> hsVote h \<noteq> hsVote (prevHardSt r)));
     let rd = \<lparr>rdHardState = hs, rdEntries = ents, rdSnapshot = snap, rdCommittedEntries = ces,
               rdMessages = msgs r, rdReadStates = readStates r, rdMustSync = mustSync\<rparr>;
     Some (rd, n\<lparr>pendingReady := Some rd\<rparr>) }"

definition Advance :: "'st Node \<Rightarrow> 'st Node option" where
  "Advance n =
     (case pendingReady n of
        None \<Rightarrow> Some n
      | Some rd \<Rightarrow> do {
          let r = nr n;
          let r = (case rdHardState rd of Some h \<Rightarrow> r\<lparr>prevHardSt := h\<rparr> | None \<Rightarrow> r);
          l \<leftarrow> (if 0 < length (rdEntries rd)
                then stableTo (raftLog r) (eIndex (last (rdEntries rd))) (eTerm (last (rdEntries rd)))
                else Some (raftLog r));
          let l = (case rdSnapshot rd of Some s \<Rightarrow> stableSnapTo l (snIndex s) | None \<Rightarrow> l);
          l \<leftarrow> (if 0 < length (rdCommittedEntries rd)
                then appliedTo l (eIndex (last (rdCommittedEntries rd)))
                else Some l);
          let r = r\<lparr>raftLog := l, msgs := [], readStates := []\<rparr>;
          Some \<lparr>nr = r, pendingReady = None\<rparr> })"

definition Node_State :: "'st Node \<Rightarrow> StateType" where
  "Node_State n = rstate (nr n)"

definition Node_Leader :: "'st Node \<Rightarrow> nat" where
  "Node_Leader n = lead (nr n)"

definition Node_Term :: "'st Node \<Rightarrow> nat" where
  "Node_Term n = rTerm (nr n)"

end
