(* ===== verification/Raft_Frame.thy ===== *)
theory Raft_Frame
  imports Raft_Node
begin

text \<open>
  What the operations of the core leave alone. Most of them only touch the log, the progress
  records, the read queue and the outbox: they are \<open>quiet\<close>. The rest (role transitions,
  votes, the term rules) are characterised by how they move the election state
  \<open>(Term, Vote, state, votes)\<close>. These facts carry the invariants of \<^verbatim>\<open>Raft_Election\<close>.
\<close>

section \<open>Quiet steps\<close>

definition same_frame :: "'st raft \<Rightarrow> 'st raft \<Rightarrow> bool" where
  "same_frame r r' \<longleftrightarrow>
     cfg r' = cfg r \<and> rid r' = rid r \<and> peers r' = peers r \<and> prevHardSt r' = prevHardSt r \<and>
     lStorage (raftLog r') = lStorage (raftLog r)"

lemma same_frame_refl [simp, intro]: "same_frame r r"
  by (simp add: same_frame_def)

lemma same_frame_trans [trans]: "same_frame r s \<Longrightarrow> same_frame s t \<Longrightarrow> same_frame r t"
  by (simp add: same_frame_def)

text \<open>Messages that carry no vote; replication requests carry the sender's term.\<close>

definition plain :: "nat \<Rightarrow> nat \<Rightarrow> Message \<Rightarrow> bool" where
  "plain i t m \<longleftrightarrow>
     mFrom m = i \<and> mType m \<notin> {MsgVote, MsgVoteResp} \<and>
     (mType m \<in> {MsgAppend, MsgHeartbeat, MsgInstallSnapshot} \<longrightarrow> mTerm m = t)"

definition quiet :: "'st raft \<Rightarrow> 'st raft \<Rightarrow> bool" where
  "quiet r r' \<longleftrightarrow>
     same_frame r r' \<and> rTerm r' = rTerm r \<and> rVote r' = rVote r \<and> rstate r' = rstate r \<and>
     votes r' = votes r \<and> lead r' = lead r \<and>
     (\<exists>ms. msgs r' = msgs r @ ms \<and> (\<forall>m \<in> set ms. plain (rid r) (rTerm r) m))"

lemma quiet_refl [simp, intro]: "quiet r r"
  by (simp add: quiet_def)

lemma quiet_trans [trans]: "quiet r s \<Longrightarrow> quiet s t \<Longrightarrow> quiet r t"
  unfolding quiet_def same_frame_def by force

text \<open>Updates of the fields a quiet step may change can be dropped on either side.\<close>

lemma quiet_left [simp]:
  "quiet (r\<lparr>prs := p\<rparr>) t = quiet r t" "quiet (r\<lparr>rReadOnly := ro\<rparr>) t = quiet r t"
  "quiet (r\<lparr>readStates := rss\<rparr>) t = quiet r t" "quiet (r\<lparr>pendingReadIndexMessages := ps\<rparr>) t = quiet r t"
  "quiet (r\<lparr>electionElapsed := e\<rparr>) t = quiet r t" "quiet (r\<lparr>heartbeatElapsed := e\<rparr>) t = quiet r t"
  by (simp_all add: quiet_def same_frame_def)

lemma quiet_right [simp]:
  "quiet r (t\<lparr>prs := p\<rparr>) = quiet r t" "quiet r (t\<lparr>rReadOnly := ro\<rparr>) = quiet r t"
  "quiet r (t\<lparr>readStates := rss\<rparr>) = quiet r t" "quiet r (t\<lparr>pendingReadIndexMessages := ps\<rparr>) = quiet r t"
  "quiet r (t\<lparr>electionElapsed := e\<rparr>) = quiet r t" "quiet r (t\<lparr>heartbeatElapsed := e\<rparr>) = quiet r t"
  by (simp_all add: quiet_def same_frame_def)

lemma quiet_log [simp]:
  "lStorage l = lStorage (raftLog r) \<Longrightarrow> quiet (r\<lparr>raftLog := l\<rparr>) t = quiet r t"
  "lStorage l = lStorage (raftLog t) \<Longrightarrow> quiet r (t\<lparr>raftLog := l\<rparr>) = quiet r t"
  by (simp_all add: quiet_def same_frame_def)

lemma quiet_send [simp]:
  assumes "quiet r t" and "mType m \<notin> {MsgVote, MsgVoteResp}"
    and "mTerm m = 0 \<or> mType m \<notin> {MsgAppend, MsgHeartbeat, MsgInstallSnapshot}"
  shows "quiet r (send m t)"
proof -
  obtain x where x: "send m t = t\<lparr>msgs := msgs t @ [x]\<rparr>" "plain (rid t) (rTerm t) x"
    using assms(2,3) by (auto simp: send_def Let_def plain_def)
  with assms(1) show ?thesis
    by (auto simp: quiet_def same_frame_def)
qed

lemma fold_opt_quiet:
  "fold_opt f xs r = Some r' \<Longrightarrow> (\<And>x r r'. f x r = Some r' \<Longrightarrow> quiet r r') \<Longrightarrow> quiet r r'"
  by (erule fold_opt_rel [where R = quiet]) (auto intro: quiet_trans)

section \<open>The log keeps its storage\<close>

lemma log_append_storage: "log_append ops l es = Some (i, l') \<Longrightarrow> lStorage l' = lStorage l"
  by (auto simp: log_append_def Let_def split: if_split_asm elim!: bind_SomeE)

lemma commitTo_storage: "commitTo ops l i = Some l' \<Longrightarrow> lStorage l' = lStorage l"
  by (auto simp: commitTo_def split: if_split_asm elim!: bind_SomeE)

lemma log_maybeCommit_storage: "log_maybeCommit ops l i t = Some (b, l') \<Longrightarrow> lStorage l' = lStorage l"
  by (auto simp: log_maybeCommit_def dest: commitTo_storage split: if_split_asm elim!: bind_SomeE)

lemma log_restore_storage [simp]: "lStorage (log_restore l s) = lStorage l"
  by (simp add: log_restore_def Let_def)

lemma maybeAppend_storage: "maybeAppend ops l i t c es = Some (x, l') \<Longrightarrow> lStorage l' = lStorage l"
  by (auto simp: maybeAppend_def Let_def dest!: commitTo_storage log_append_storage
      split: if_split_asm elim!: bind_SomeE)

lemmas log_storage_kept = log_append_storage commitTo_storage log_maybeCommit_storage maybeAppend_storage

section \<open>Quiet operations\<close>

lemma sendSnapshot_quiet [simp]: "quiet r (sendSnapshot ops i r)"
  by (auto simp: sendSnapshot_def message0_def split: sum.splits)

lemma sendAppend_quiet: "sendAppend ops i r = Some r' \<Longrightarrow> quiet r r'"
  by (auto simp: sendAppend_def Let_def message0_def
      split: option.split_asm sum.split_asm elim!: bind_SomeE)

lemma bcastAppend_quiet: "bcastAppend ops r = Some r' \<Longrightarrow> quiet r r'"
  unfolding bcastAppend_def
  by (erule fold_opt_quiet) (auto dest: sendAppend_quiet split: if_splits)

lemma bcastHeartbeatWithCtx_quiet: "bcastHeartbeatWithCtx ctx r = Some r' \<Longrightarrow> quiet r r'"
  unfolding bcastHeartbeatWithCtx_def
  by (erule fold_opt_quiet) (auto simp: message0_def split: if_splits option.splits)

lemma bcastHeartbeat_quiet: "bcastHeartbeat r = Some r' \<Longrightarrow> quiet r r'"
  by (auto simp: bcastHeartbeat_def dest: bcastHeartbeatWithCtx_quiet elim!: bind_SomeE)

lemma sendReadIndex_quiet: "sendReadIndex m r = Some r' \<Longrightarrow> quiet r r'"
  by (auto simp: sendReadIndex_def Let_def dest!: bcastHeartbeatWithCtx_quiet
      split: if_splits)

lemma releasePending_quiet: "releasePendingReadIndexMessages ops r = Some r' \<Longrightarrow> quiet r r'"
  by (auto simp: releasePendingReadIndexMessages_def
      dest!: fold_opt_quiet [OF _ sendReadIndex_quiet] split: if_split_asm elim!: bind_SomeE)

lemma maybeCommit_quiet: "maybeCommit ops r = Some (b, r') \<Longrightarrow> quiet r r'"
  by (auto simp: maybeCommit_def Let_def split: if_split_asm
      dest!: log_maybeCommit_storage releasePending_quiet elim!: bind_SomeE)

lemma appendEntry_quiet: "appendEntry ops es r = Some r' \<Longrightarrow> quiet r r'"
  by (auto simp: appendEntry_def Let_def
      dest!: log_append_storage maybeCommit_quiet elim!: bind_SomeE)

lemma handleAppend_quiet: "handleAppend ops m r = Some r' \<Longrightarrow> quiet r r'"
  by (auto simp: handleAppend_def Let_def message0_def split: if_split_asm
      dest!: maybeAppend_storage elim!: bind_SomeE)

lemma handleHeartbeat_quiet: "handleHeartbeat ops m r = Some r' \<Longrightarrow> quiet r r'"
  by (auto simp: handleHeartbeat_def message0_def
      dest!: commitTo_storage elim!: bind_SomeE)

lemma raft_restore_quiet: "raft_restore ops s r = Some (b, r') \<Longrightarrow> quiet r r'"
  by (auto simp: raft_restore_def dest!: commitTo_storage split: if_split_asm elim!: bind_SomeE)

lemma handleSnapshot_quiet: "handleSnapshot ops m r = Some r' \<Longrightarrow> quiet r r'"
  by (auto simp: handleSnapshot_def message0_def split: option.split_asm if_split_asm
      dest!: raft_restore_quiet elim!: bind_SomeE)

lemma handleAppendResp_quiet: "handleAppendResp ops m r = Some r' \<Longrightarrow> quiet r r'"
  by (auto simp: handleAppendResp_def Let_def case_prod_beta split: option.split_asm if_split_asm
      dest!: maybeCommit_quiet bcastAppend_quiet sendAppend_quiet dest: quiet_trans elim!: bind_SomeE)

lemma handleHeartbeatResp_quiet: "handleHeartbeatResp ops m r = Some r' \<Longrightarrow> quiet r r'"
  by (auto simp: handleHeartbeatResp_def Let_def case_prod_beta split: option.split_asm if_split_asm
      dest!: sendAppend_quiet elim!: bind_SomeE)

lemma stepLeader_quiet: "stepLeader ops m r = Some r' \<Longrightarrow> quiet r r'"
  by (auto simp: stepLeader_def split: MessageType.splits option.splits
      dest!: handleAppendResp_quiet handleHeartbeatResp_quiet sendAppend_quiet)

lemma tickHeartbeat_quiet: "tickHeartbeat r = Some r' \<Longrightarrow> quiet r r'"
  by (auto simp: tickHeartbeat_def Let_def dest!: bcastHeartbeat_quiet split: if_splits)

section \<open>Role transitions\<close>

text \<open>A transition that leaves the outbox alone and sets the election state as given.\<close>

definition becomes :: "'st raft \<Rightarrow> nat \<Rightarrow> nat \<Rightarrow> StateType \<Rightarrow> 'st raft \<Rightarrow> bool" where
  "becomes r t v s r' \<longleftrightarrow>
     same_frame r r' \<and> rTerm r' = t \<and> rVote r' = v \<and> rstate r' = s \<and> votes r' = [] \<and> msgs r' = msgs r"

lemma resetTimeout_frame:
  "resetRandomizedElectionTimeout r = Some r' \<Longrightarrow>
     same_frame r r' \<and> rTerm r' = rTerm r \<and> rVote r' = rVote r \<and> rstate r' = rstate r \<and>
     votes r' = votes r \<and> msgs r' = msgs r \<and> lead r' = lead r"
  by (auto simp: resetRandomizedElectionTimeout_def same_frame_def split: option.split_asm if_split_asm)

lemma reset_becomes:
  "reset ops t r = Some r' \<Longrightarrow> becomes r t (if t = rTerm r then rVote r else NoNode) (rstate r) r'"
  by (auto simp: reset_def becomes_def same_frame_def Let_def dest!: resetTimeout_frame elim!: bind_SomeE
      split: if_split_asm)

lemma becomeFollower_becomes:
  "becomeFollower ops t ld r = Some r' \<Longrightarrow>
     becomes r t (if t = rTerm r then rVote r else NoNode) StateFollower r' \<and> lead r' = ld"
  by (auto simp: becomeFollower_def becomes_def same_frame_def dest!: reset_becomes elim!: bind_SomeE)

lemma becomePreCandidate_becomes:
  "becomePreCandidate r = Some r' \<Longrightarrow> becomes r (rTerm r) (rVote r) StatePreCandidate r' \<and> rstate r \<noteq> StateLeader"
  by (auto simp: becomePreCandidate_def becomes_def same_frame_def dest!: resetTimeout_frame split: if_split_asm)

lemma becomeCandidate_becomes:
  "becomeCandidate ops r = Some r' \<Longrightarrow>
     becomes r (rTerm r + 1) (rid r) StateCandidate r' \<and> rstate r \<noteq> StateLeader"
  by (auto simp: becomeCandidate_def becomes_def same_frame_def dest!: reset_becomes
      elim!: bind_SomeE split: if_split_asm)

lemma becomeLeader_becomes:
  assumes "becomeLeader ops r = Some r'"
  obtains r1 where "becomes r (rTerm r) (rVote r) StateLeader r1" and "quiet r1 r'"
    and "rstate r \<noteq> StateFollower"
proof -
  from assms obtain r0 where r0: "reset ops (rTerm r) r = Some r0" "rstate r \<noteq> StateFollower"
      "appendEntry ops [\<lparr>eTerm = 0, eIndex = 0, eType = EntryNoop, eData = []\<rparr>]
         (r0\<lparr>lead := rid r0, rstate := StateLeader\<rparr>) = Some r'"
    by (auto simp: becomeLeader_def Let_def elim!: bind_SomeE split: if_split_asm)
  have "becomes r (rTerm r) (rVote r) StateLeader (r0\<lparr>lead := rid r0, rstate := StateLeader\<rparr>)"
    using reset_becomes [OF r0(1)] by (simp add: becomes_def same_frame_def)
  with r0 appendEntry_quiet that show ?thesis by blast
qed

lemma fold_send:
  assumes "\<And>i r. rid (send (f i) r) = rid r"
  shows "fold (\<lambda>i r. if i = rid r then r else send (f i) r) is r =
    r\<lparr>msgs := msgs r @ map (\<lambda>i. last (msgs (send (f i) r))) (filter (\<lambda>i. i \<noteq> rid r) is)\<rparr>"
  by (induction "is" arbitrary: r) (simp_all add: send_def Let_def)

lemma send_rid [simp]: "rid (send m r) = rid r"
  by (simp add: send_def Let_def)

section \<open>How one input moves the election state\<close>

text \<open>
  Assumptions on inputs that hold of every message a node of the cluster sends: a sender on
  vote requests, and a positive term on the requests and grants that move elections.
\<close>

definition safe_msg :: "Message \<Rightarrow> bool" where
  "safe_msg m \<longleftrightarrow>
     (mType m = MsgVote \<longrightarrow> mFrom m \<noteq> NoNode) \<and>
     (mType m \<in> {MsgAppend, MsgHeartbeat, MsgInstallSnapshot, MsgVote} \<longrightarrow> 0 < mTerm m) \<and>
     (mType m = MsgVoteResp \<and> \<not> mReject m \<longrightarrow> 0 < mTerm m)"

text \<open>A node that stands or leads has voted for itself, in a positive term.\<close>

definition elec_ok :: "'st raft \<Rightarrow> bool" where
  "elec_ok r \<longleftrightarrow>
     (rstate r = StateCandidate \<or> rstate r = StateLeader \<longrightarrow> rVote r = rid r \<and> 0 < rTerm r)"

text \<open>\<open>tv_le\<close>: the term never falls, and within a term a vote is never changed.\<close>

definition tv_le :: "nat \<Rightarrow> nat \<Rightarrow> nat \<Rightarrow> nat \<Rightarrow> bool" where
  "tv_le t v t' v' \<longleftrightarrow> t < t' \<or> t = t' \<and> (v = NoNode \<or> v = v')"

lemma tv_le_refl [simp, intro]: "tv_le t v t v"
  by (simp add: tv_le_def)

lemma tv_le_trans: "tv_le t v t' v' \<Longrightarrow> tv_le t' v' t'' v'' \<Longrightarrow> tv_le t v t'' v''"
  by (auto simp: tv_le_def)

text \<open>
  What a message emitted while handling \<open>m\<close> may be: a vote request only for the node's own
  candidacy, a grant only for the vote just recorded and only in answer to a request.
\<close>

definition out_ok :: "Message \<Rightarrow> 'st raft \<Rightarrow> Message \<Rightarrow> bool" where
  "out_ok m r' x \<longleftrightarrow>
     mFrom x = rid r' \<and>
     (mType x \<in> {MsgAppend, MsgHeartbeat, MsgInstallSnapshot, MsgVote} \<longrightarrow> 0 < mTerm x) \<and>
     (mType x = MsgVote \<longrightarrow> mTerm x = rTerm r' \<and> rVote r' = rid r') \<and>
     (mType x = MsgVoteResp \<and> \<not> mReject x \<longrightarrow>
        0 < mTerm x \<and> mTerm x = rTerm r' \<and> rVote r' = mTo x \<and>
        mType m = MsgVote \<and> mFrom m = mTo x \<and> mTerm m = mTerm x)"

definition emits :: "Message \<Rightarrow> 'st raft \<Rightarrow> 'st raft \<Rightarrow> bool" where
  "emits m r r' \<longleftrightarrow> (\<exists>ms. msgs r' = msgs r @ ms \<and> (\<forall>x \<in> set ms. out_ok m r' x))"

text \<open>Where the ballots of a candidate, and the majority of a new leader, come from.\<close>

definition ballots_from :: "Message \<Rightarrow> 'st raft \<Rightarrow> 'st raft \<Rightarrow> bool" where
  "ballots_from m r r' \<longleftrightarrow>
     votes r' = [(rid r, True)] \<or>
     rstate r = StateCandidate \<and> rTerm r' = rTerm r \<and>
       (votes r' = votes r \<or>
        mType m = MsgVoteResp \<and> (mReject m \<or> mTerm m = rTerm r) \<and>
        votes r' = votes (recordVote (mFrom m) (\<not> mReject m) r))"

definition elected_by :: "Message \<Rightarrow> 'st raft \<Rightarrow> 'st raft \<Rightarrow> bool" where
  "elected_by m r r' \<longleftrightarrow>
     rstate r = StateLeader \<and> rTerm r' = rTerm r \<or>
     quorum r \<le> 1 \<or>
     rstate r = StateCandidate \<and> rTerm r' = rTerm r \<and> mType m = MsgVoteResp \<and>
       (mReject m \<or> mTerm m = rTerm r) \<and>
       quorum r \<le> tallyGranted (recordVote (mFrom m) (\<not> mReject m) r)"

definition moves :: "Message \<Rightarrow> 'st raft \<Rightarrow> 'st raft \<Rightarrow> bool" where
  "moves m r r' \<longleftrightarrow>
     same_frame r r' \<and> tv_le (rTerm r) (rVote r) (rTerm r') (rVote r') \<and> elec_ok r' \<and> emits m r r' \<and>
     (rstate r' = StateCandidate \<longrightarrow> ballots_from m r r') \<and>
     (rstate r' = StateLeader \<longrightarrow> elected_by m r r')"

end
