(* ===== verification/Raft_Election.thy ===== *)
theory Raft_Election
  imports Raft_Frame
begin

text \<open>
  Elections at one node: every input (a tick or a message) moves the election state as
  described by \<open>moves\<close>. The term never falls, a vote is never changed within its term, a vote
  is only announced once it is recorded, and a node only becomes leader on the ballots of a
  quorum. The multi-node argument of \<^verbatim>\<open>Cluster\<close> rests on these two lemmas,
  \<open>Step_moves\<close> and \<open>tick_moves\<close>.
\<close>

section \<open>Composing quiet steps and transitions\<close>

lemma quiet_emits:
  assumes "quiet r r'" and "0 < rTerm r"
  shows "emits m r r'"
proof -
  obtain ms where "msgs r' = msgs r @ ms" "\<forall>x \<in> set ms. plain (rid r) (rTerm r) x"
    using assms(1) by (auto simp: quiet_def)
  moreover have "rid r' = rid r" "rTerm r' = rTerm r"
    using assms(1) by (auto simp: quiet_def same_frame_def)
  ultimately show ?thesis
    using assms(2) unfolding emits_def by (auto simp: out_ok_def plain_def)
qed

lemma quiet_moves:
  assumes "quiet r r'" and "elec_ok r" and "0 < rTerm r"
  shows "moves m r r'"
proof -
  have "emits m r r'" using assms quiet_emits by blast
  moreover have "same_frame r r'" "rTerm r' = rTerm r" "rVote r' = rVote r" "rstate r' = rstate r"
      "votes r' = votes r" "rid r' = rid r"
    using assms(1) by (auto simp: quiet_def same_frame_def)
  ultimately show ?thesis
    using assms(2) by (auto simp: moves_def elec_ok_def ballots_from_def elected_by_def)
qed

text \<open>Stepping down to a follower and then handling the message quietly.\<close>

lemma follower_moves:
  assumes "becomes r t v StateFollower r1" and "quiet r1 r'" and "0 < t"
    and "tv_le (rTerm r) (rVote r) t v"
  shows "moves m r r'"
proof -
  have "rTerm r1 = t" "msgs r1 = msgs r" "same_frame r r1"
    using assms(1) by (auto simp: becomes_def)
  with assms(2,3) have "emits m r r'"
    using quiet_emits [of r1 r' m] by (simp add: emits_def)
  moreover have "same_frame r r'" "rTerm r' = t" "rVote r' = v" "rstate r' = StateFollower"
    using assms(1,2) \<open>same_frame r r1\<close> by (auto simp: becomes_def quiet_def intro: same_frame_trans)
  ultimately show ?thesis using assms(4) by (simp add: moves_def elec_ok_def)
qed

lemma stepdown_moves:
  assumes "becomes r t v StateFollower r'" and "tv_le (rTerm r) (rVote r) t v"
  shows "moves m r r'"
  using assms by (auto simp: becomes_def moves_def elec_ok_def emits_def)

lemma becomeLeader_moves:
  assumes "becomeLeader ops r1 = Some r2" and "quiet r2 r'"
    and "same_frame r r1" and "rTerm r1 = rTerm r" and "rVote r1 = rVote r" and "msgs r1 = msgs r"
    and "rVote r = rid r" and "0 < rTerm r" and "elected_by m r r'"
  shows "moves m r r'"
proof -
  obtain r3 where r3: "becomes r1 (rTerm r1) (rVote r1) StateLeader r3" "quiet r3 r2"
    using becomeLeader_becomes [OF assms(1)] by blast
  have q: "quiet r3 r'" using r3(2) assms(2) by (rule quiet_trans)
  have f: "same_frame r r3" "rTerm r3 = rTerm r" "rVote r3 = rVote r" "rstate r3 = StateLeader" "msgs r3 = msgs r"
    using r3(1) assms(3-6) by (auto simp: becomes_def intro: same_frame_trans)
  have "emits m r r'"
    using quiet_emits [OF q, of m] f assms(8) by (simp add: emits_def)
  moreover have "same_frame r r'" "rTerm r' = rTerm r" "rVote r' = rVote r" "rstate r' = StateLeader" "rid r' = rid r"
    using q f by (auto simp: quiet_def intro: same_frame_trans simp: same_frame_def)
  ultimately show ?thesis using assms(7-9) by (simp add: moves_def elec_ok_def)
qed

section \<open>Campaigns\<close>

lemma recordVote_simps [simp]:
  "rid (recordVote i g r) = rid r" "rTerm (recordVote i g r) = rTerm r" "rVote (recordVote i g r) = rVote r"
  "rstate (recordVote i g r) = rstate r" "msgs (recordVote i g r) = msgs r" "peers (recordVote i g r) = peers r"
  "quorum (recordVote i g r) = quorum r" "same_frame r (recordVote i g r)" "raftLog (recordVote i g r) = raftLog r"
  "cfg (recordVote i g r) = cfg r" "prevHardSt (recordVote i g r) = prevHardSt r"
  by (simp_all add: recordVote_def quorum_def same_frame_def)

text \<open>A new candidate soliciting votes: it stands with its own ballot, or leads a single-node cluster.\<close>

lemma solicitVotes_moves:
  assumes "becomes r (rTerm r + 1) (rid r) StateCandidate r1"
    and "solicitVotes ops MsgVote (rTerm r1) r1 = Some r'"
  shows "moves m r r'"
proof -
  let ?r2 = "recordVote (rid r1) True r1"
  have r1: "same_frame r r1" "rTerm r1 = rTerm r + 1" "rVote r1 = rid r" "rstate r1 = StateCandidate"
      "votes r1 = []" "msgs r1 = msgs r" "rid r1 = rid r" "peers r1 = peers r"
    using assms(1) by (auto simp: becomes_def same_frame_def)
  have votes: "votes ?r2 = [(rid r, True)]" using r1 by (simp add: recordVote_def)
  show ?thesis
  proof (cases "quorum ?r2 \<le> tallyGranted ?r2")
    case True
    then have lead: "becomeLeader ops ?r2 = Some r'"
      using assms(2) by (simp add: solicitVotes.simps [of ops MsgVote])
    have q: "quorum r \<le> 1" using True votes r1(8) by (simp add: tallyGranted_def quorum_def)
    obtain r3 where r3: "becomes ?r2 (rTerm ?r2) (rVote ?r2) StateLeader r3" "quiet r3 r'"
      using becomeLeader_becomes [OF lead] by blast
    have f: "same_frame r r3" "rTerm r3 = rTerm r + 1" "rVote r3 = rid r" "rstate r3 = StateLeader" "msgs r3 = msgs r"
      using r3(1) r1 by (auto simp: becomes_def intro: same_frame_trans simp: same_frame_def)
    have "emits m r r'" using quiet_emits [OF r3(2), of m] f by (simp add: emits_def)
    moreover have "same_frame r r'" "rTerm r' = rTerm r + 1" "rVote r' = rid r" "rstate r' = StateLeader" "rid r' = rid r"
      using r3(2) f by (auto simp: quiet_def same_frame_def)
    ultimately show ?thesis using q by (simp add: moves_def elec_ok_def tv_le_def elected_by_def)
  next
    case False
    then obtain li lt where r': "r' = fold (\<lambda>i r. if i = rid r then r
          else send (message0\<lparr>mType := MsgVote, mTo := i, mTerm := rTerm r1, mLogIndex := li, mLogTerm := lt\<rparr>) r)
          (peers ?r2) ?r2"
      using assms(2) by (auto simp: solicitVotes.simps [of ops MsgVote] elim!: bind_SomeE)
    define f where "f i = message0\<lparr>mType := MsgVote, mTo := i, mTerm := rTerm r1, mLogIndex := li, mLogTerm := lt\<rparr>" for i
    have eq: "r' = ?r2\<lparr>msgs := msgs ?r2 @ map (\<lambda>i. last (msgs (send (f i) ?r2))) (filter (\<lambda>i. i \<noteq> rid ?r2) (peers ?r2))\<rparr>"
      unfolding r' f_def by (rule fold_send) simp
    have out: "out_ok m r' (last (msgs (send (f i) ?r2)))" for i
      using r1 by (simp add: eq f_def out_ok_def send_def Let_def message0_def)
    have "emits m r r'"
      unfolding emits_def
      by (rule exI [of _ "map (\<lambda>i. last (msgs (send (f i) ?r2))) (filter (\<lambda>i. i \<noteq> rid ?r2) (peers ?r2))"])
        (use out r1 in \<open>auto simp: eq\<close>)
    then show ?thesis
      using r1 votes by (auto simp: moves_def eq elec_ok_def tv_le_def ballots_from_def same_frame_def recordVote_def)
  qed
qed

lemma solicitPreVotes_moves:
  assumes "becomes r (rTerm r) (rVote r) StatePreCandidate r1" and "elec_ok r"
    and "solicitVotes ops MsgPreVote t r1 = Some r'"
  shows "moves m r r'"
proof -
  let ?r2 = "recordVote (rid r1) True r1"
  have r1: "same_frame r r1" "rTerm r1 = rTerm r" "rVote r1 = rVote r" "rstate r1 = StatePreCandidate"
      "votes r1 = []" "msgs r1 = msgs r" "rid r1 = rid r" "peers r1 = peers r"
    using assms(1) by (auto simp: becomes_def same_frame_def)
  show ?thesis
  proof (cases "quorum ?r2 \<le> tallyGranted ?r2")
    case True
    then obtain r3 where r3: "becomeCandidate ops ?r2 = Some r3" "solicitVotes ops MsgVote (rTerm r3) r3 = Some r'"
      using assms(3) by (auto simp: solicitVotes.simps [of ops MsgPreVote] elim!: bind_SomeE)
    have "becomes r (rTerm r + 1) (rid r) StateCandidate r3"
      using becomeCandidate_becomes [OF r3(1)] r1 by (auto simp: becomes_def same_frame_def)
    then show ?thesis using r3(2) by (rule solicitVotes_moves)
  next
    case False
    then obtain li lt where r': "r' = fold (\<lambda>i r. if i = rid r then r
          else send (message0\<lparr>mType := MsgPreVote, mTo := i, mTerm := t, mLogIndex := li, mLogTerm := lt\<rparr>) r)
          (peers ?r2) ?r2"
      using assms(3) by (auto simp: solicitVotes.simps [of ops MsgPreVote] elim!: bind_SomeE)
    define f where "f i = message0\<lparr>mType := MsgPreVote, mTo := i, mTerm := t, mLogIndex := li, mLogTerm := lt\<rparr>" for i
    define ms where "ms = map (\<lambda>i. last (msgs (send (f i) ?r2))) (filter (\<lambda>i. i \<noteq> rid ?r2) (peers ?r2))"
    have eq: "r' = ?r2\<lparr>msgs := msgs ?r2 @ ms\<rparr>"
      unfolding r' f_def ms_def by (rule fold_send) simp
    have "\<forall>x \<in> set ms. out_ok m r' x"
      using r1 by (auto simp: ms_def eq f_def out_ok_def send_def Let_def message0_def)
    then have "emits m r r'" using r1 by (auto simp: emits_def eq)
    then show ?thesis using r1 by (auto simp: moves_def eq elec_ok_def same_frame_def)
  qed
qed

lemma campaign_moves:
  assumes "campaign ops r = Some r'" and "elec_ok r"
  shows "moves m r r'"
proof (cases "cfgPreVote (cfg r)")
  case True
  then obtain r1 where "becomePreCandidate r = Some r1" "solicitVotes ops MsgPreVote (rTerm r1 + 1) r1 = Some r'"
    using assms(1) by (auto simp: campaign_def elim!: bind_SomeE)
  then show ?thesis using becomePreCandidate_becomes solicitPreVotes_moves assms(2) by blast
next
  case False
  then obtain r1 where "becomeCandidate ops r = Some r1" "solicitVotes ops MsgVote (rTerm r1) r1 = Some r'"
    using assms(1) by (auto simp: campaign_def elim!: bind_SomeE)
  then show ?thesis using becomeCandidate_becomes solicitVotes_moves by blast
qed

lemma moves_elapsed [simp]:
  "moves m (r\<lparr>electionElapsed := e\<rparr>) r' = moves m r r'"
  by (simp add: moves_def same_frame_def emits_def ballots_from_def elected_by_def quorum_def recordVote_def
      tallyGranted_def)

lemma elec_ok_elapsed [simp]: "elec_ok (r\<lparr>electionElapsed := e\<rparr>) = elec_ok r"
  by (simp add: elec_ok_def)

lemma tick_moves:
  assumes "tick ops r = Some r'" and "elec_ok r"
  shows "moves m r r'"
proof (cases "rstate r = StateLeader")
  case True
  with assms show ?thesis
    by (auto simp: tick_def elec_ok_def dest!: tickHeartbeat_quiet intro!: quiet_moves)
next
  case False
  have "moves m r (r\<lparr>electionElapsed := e\<rparr>)" for e
    using assms(2) False
    by (auto simp: moves_def same_frame_def emits_def elec_ok_def ballots_from_def)
  with False assms show ?thesis
    by (auto simp: tick_def tickElection_def Let_def dest!: campaign_moves [where m = m] split: if_split_asm)
qed

section \<open>Message handling\<close>

text \<open>After the term rules, a message is of the node's own term unless it is a pre-vote.\<close>

definition in_term :: "Message \<Rightarrow> 'st raft \<Rightarrow> bool" where
  "in_term m r \<longleftrightarrow> mTerm m = 0 \<or> mTerm m = rTerm r \<or> mType m = MsgPreVote \<or> mType m = MsgPreVoteResp"

text \<open>Answering with one message, after an update that keeps the role, the term and the ballots.\<close>

lemma answer_moves:
  assumes "same_frame r r0" and "tv_le (rTerm r) (rVote r) (rTerm r0) (rVote r0)" and "elec_ok r0"
    and "rstate r0 = rstate r" and "rTerm r0 = rTerm r" and "votes r0 = votes r" and "msgs r0 = msgs r"
    and "out_ok m r0 (last (msgs (send y r0)))"
  shows "moves m r (send y r0)"
proof -
  obtain x where x: "send y r0 = r0\<lparr>msgs := msgs r0 @ [x]\<rparr>"
    by (simp add: send_def Let_def)
  with assms(8) have "out_ok m r0 x" by simp
  then have "emits m r (send y r0)" by (auto simp: x emits_def assms(7) out_ok_def)
  with assms(1-7) show ?thesis
    by (simp add: moves_def x same_frame_def elec_ok_def ballots_from_def elected_by_def)
qed

lemma last_send: "last (msgs (send y r)) =
    y\<lparr>mFrom := rid r,
      mTerm := (if mTerm y = 0 \<and> mType y \<notin> {MsgPropose, MsgPreVote, MsgPreVoteResp} then rTerm r else mTerm y)\<rparr>"
  by (auto simp: send_def Let_def)

lemma handleVoteRequest_moves:
  assumes "handleVoteRequest ops m r = Some r'" and "safe_msg m" and "in_term m r" and "elec_ok r"
    and "mType m = MsgPreVote \<or> mType m = MsgVote" and "rid r \<noteq> NoNode"
  shows "moves m r r' \<and> rstate r' = rstate r"
proof -
  obtain up where up: "isUpToDate ops (raftLog r) (mLogIndex m) (mLogTerm m) = Some up"
    using assms(1) by (auto simp: handleVoteRequest_def elim!: bind_SomeE)
  define grant where "grant \<longleftrightarrow> up \<and> (rVote r = mFrom m \<or> rVote r = NoNode \<and> lead r = NoNode)"
  show ?thesis
  proof (cases "mType m = MsgPreVote")
    case True
    with assms(1) up obtain y where y: "r' = send y r" "mType y = MsgPreVoteResp"
      by (auto simp: handleVoteRequest_def Let_def message0_def)
    have "moves m r (send y r)"
      by (rule answer_moves) (use assms(4) y(2) in \<open>auto simp: last_send out_ok_def\<close>)
    with y(1) show ?thesis by (simp add: send_def Let_def)
  next
    case False
    with assms(5) have vote: "mType m = MsgVote" by simp
    with assms(2,3) have trm: "mTerm m = rTerm r" "0 < rTerm r" by (auto simp: safe_msg_def in_term_def)
    define y where "y = message0\<lparr>mTo := mFrom m, mType := MsgVoteResp, mReject := \<not> grant\<rparr>"
    define r0 where "r0 = (if grant then r\<lparr>rVote := mFrom m, electionElapsed := 0\<rparr> else r)"
    have r': "r' = send y r0"
      using assms(1) up vote trm by (auto simp: handleVoteRequest_def grant_def Let_def y_def r0_def)
    have "grant \<Longrightarrow> rVote r = mFrom m \<or> rVote r = NoNode" by (auto simp: grant_def)
    then have "moves m r (send y r0)"
      using assms(2,4,6) vote trm
      by (intro answer_moves)
        (auto simp: r0_def y_def last_send same_frame_def tv_le_def elec_ok_def out_ok_def message0_def safe_msg_def)
    with r' show ?thesis by (simp add: send_def Let_def r0_def)
  qed
qed

lemma stepFollower_moves:
  assumes "stepFollower ops m r = Some r'" and "safe_msg m" and "in_term m r" and "rstate r = StateFollower"
  shows "moves m r r' \<and> rstate r' = StateFollower"
proof (cases "mType m \<in> {MsgAppend, MsgHeartbeat, MsgInstallSnapshot}")
  case True
  with assms(2,3) have t: "0 < rTerm r" by (auto simp: safe_msg_def in_term_def)
  have "quiet (r\<lparr>electionElapsed := 0, lead := mFrom m\<rparr>) r'"
    using True assms(1) by (auto simp: stepFollower_def dest: handleAppend_quiet handleHeartbeat_quiet handleSnapshot_quiet)
  moreover have "becomes (r\<lparr>votes := []\<rparr>) (rTerm r) (rVote r) StateFollower (r\<lparr>electionElapsed := 0, lead := mFrom m, votes := []\<rparr>)"
    using assms(4) by (simp add: becomes_def same_frame_def)
  ultimately have q: "emits m r r'" "same_frame r r'" "rTerm r' = rTerm r" "rVote r' = rVote r" "rstate r' = StateFollower"
    using quiet_emits [of "r\<lparr>electionElapsed := 0, lead := mFrom m\<rparr>" r' m] t assms(4)
    by (auto simp: emits_def quiet_def same_frame_def)
  then show ?thesis by (simp add: moves_def elec_ok_def)
next
  case False
  with assms(1) have "r' = r" by (auto simp: stepFollower_def split: MessageType.split_asm)
  with assms(4) show ?thesis by (simp add: moves_def elec_ok_def emits_def)
qed

lemma stepCandidate_request_moves:
  assumes "becomeFollower ops (mTerm m) (mFrom m) r = Some r1" and "quiet r1 r'"
    and "0 < mTerm m" and "mTerm m = rTerm r"
  shows "moves m r r'"
  using becomeFollower_becomes [OF assms(1)] assms(2-4) by (intro follower_moves) auto

lemma stepCandidate_moves:
  assumes "stepCandidate ops m r = Some r'" and "safe_msg m" and "in_term m r" and "elec_ok r"
    and "rstate r = StatePreCandidate \<or> rstate r = StateCandidate"
  shows "moves m r r'"
proof -
  let ?vr = "if rstate r = StatePreCandidate then MsgPreVoteResp else MsgVoteResp"
  let ?r1 = "recordVote (mFrom m) (\<not> mReject m) r"
  consider (req) "mType m \<in> {MsgAppend, MsgHeartbeat, MsgInstallSnapshot}"
    | (vote) "mType m = ?vr" | (other) "mType m \<notin> {MsgAppend, MsgHeartbeat, MsgInstallSnapshot}" "mType m \<noteq> ?vr"
    by blast
  then show ?thesis
  proof cases
    case req
    then have t: "0 < mTerm m" "mTerm m = rTerm r"
      using assms(2,3) by (auto simp: safe_msg_def in_term_def)
    have "\<exists>r1. becomeFollower ops (mTerm m) (mFrom m) r = Some r1 \<and> quiet r1 r'"
      using req assms(1)
      by (auto simp: stepCandidate_def dest!: handleAppend_quiet handleHeartbeat_quiet handleSnapshot_quiet elim!: bind_SomeE)
    with t show ?thesis using stepCandidate_request_moves by blast
  next
    case vote
    then have s: "(if quorum ?r1 \<le> tallyGranted ?r1 then
          (if rstate ?r1 = StatePreCandidate
           then Option.bind (becomeCandidate ops ?r1) (\<lambda>r. solicitVotes ops MsgVote (rTerm r) r)
           else Option.bind (becomeLeader ops ?r1) (bcastAppend ops))
        else if quorum ?r1 \<le> tallyRejected ?r1 then becomeFollower ops (rTerm ?r1) NoNode ?r1
        else Some ?r1) = Some r'"
      using assms(1) by (simp add: stepCandidate_def Let_def split: if_split_asm)
    have vt: "mReject m \<or> mTerm m = rTerm r" if "rstate r = StateCandidate"
      using that vote assms(2,3) by (auto simp: safe_msg_def in_term_def)
    show ?thesis
    proof (cases "quorum ?r1 \<le> tallyGranted ?r1")
      case True
      show ?thesis
      proof (cases "rstate r = StatePreCandidate")
        case True
        with s \<open>quorum ?r1 \<le> tallyGranted ?r1\<close> obtain r2 where
          r2: "becomeCandidate ops ?r1 = Some r2" "solicitVotes ops MsgVote (rTerm r2) r2 = Some r'"
          by (auto elim!: bind_SomeE)
        have "becomes r (rTerm r + 1) (rid r) StateCandidate r2"
          using becomeCandidate_becomes [OF r2(1)] by (auto simp: becomes_def same_frame_def)
        then show ?thesis using r2(2) by (rule solicitVotes_moves)
      next
        case False
        with assms(5) have c: "rstate r = StateCandidate" by simp
        with s True obtain r2 where r2: "becomeLeader ops ?r1 = Some r2" "bcastAppend ops r2 = Some r'"
          by (auto elim!: bind_SomeE)
        obtain r3 where "becomes ?r1 (rTerm ?r1) (rVote ?r1) StateLeader r3" "quiet r3 r2"
          using becomeLeader_becomes [OF r2(1)] by blast
        then have "rTerm r' = rTerm r"
          using bcastAppend_quiet [OF r2(2)] by (auto simp: becomes_def quiet_def)
        then have "elected_by m r r'"
          using True c vote vt by (auto simp: elected_by_def)
        with c assms(4) show ?thesis
          by (intro becomeLeader_moves [OF r2(1) bcastAppend_quiet [OF r2(2)]]) (auto simp: elec_ok_def)
      qed
    next
      case False
      show ?thesis
      proof (cases "quorum ?r1 \<le> tallyRejected ?r1")
        case True
        with False s have "becomeFollower ops (rTerm ?r1) NoNode ?r1 = Some r'" by simp
        from becomeFollower_becomes [OF this] have "becomes r (rTerm r) (rVote r) StateFollower r'"
          by (auto simp: becomes_def same_frame_def)
        then show ?thesis by (rule stepdown_moves) simp
      next
        case False
        with \<open>\<not> quorum ?r1 \<le> tallyGranted ?r1\<close> s have "r' = ?r1" by simp
        with vote vt assms(4,5) show ?thesis
          by (auto simp: moves_def elec_ok_def emits_def ballots_from_def)
      qed
    qed
  next
    case other
    with assms(1) have "r' = r" by (auto simp: stepCandidate_def split: if_split_asm)
    with assms(4,5) show ?thesis by (auto simp: moves_def emits_def ballots_from_def)
  qed
qed

lemma stepRole_moves:
  assumes "stepRole ops m r = Some r'" and "safe_msg m" and "in_term m r" and "elec_ok r" and "rid r \<noteq> NoNode"
  shows "moves m r r'"
proof (cases "mType m = MsgPreVote \<or> mType m = MsgVote")
  case True
  with assms handleVoteRequest_moves show ?thesis by (auto simp: stepRole_def)
next
  case False
  show ?thesis
  proof (cases "rstate r")
    case StateFollower
    with False assms stepFollower_moves show ?thesis by (auto simp: stepRole_def)
  next
    case StateLeader
    with assms(4) have "0 < rTerm r" by (simp add: elec_ok_def)
    moreover have "quiet r r'" using StateLeader False assms(1) stepLeader_quiet by (auto simp: stepRole_def)
    ultimately show ?thesis using assms(4) quiet_moves by blast
  qed (use False assms stepCandidate_moves in \<open>auto simp: stepRole_def\<close>)
qed

text \<open>A follower handling a message stays a follower.\<close>

lemma stepRole_follower:
  assumes "stepRole ops m r = Some r'" and "rstate r = StateFollower"
    and "safe_msg m" and "in_term m r" and "elec_ok r" and "rid r \<noteq> NoNode"
  shows "rstate r' = StateFollower"
  using assms stepFollower_moves [of ops m r r'] handleVoteRequest_moves [of ops m r r']
  by (auto simp: stepRole_def split: if_split_asm)

section \<open>The term rules, and every message\<close>

lemma termRules_cases:
  assumes "termRules ops m r = Some (b, r1)"
  obtains (same) "r1 = r" "\<not> b" "in_term m r"
    | (adopt) "\<not> b" "becomes r (mTerm m) NoNode StateFollower r1" "rTerm r < mTerm m" "in_term m r1"
    | (stale) "b" "r1 = r" | (reply) y where "b" "r1 = send y r"
        "mType y \<in> {MsgAppendResp, MsgHeartbeatResp, MsgInstallSnapshotResp, MsgPreVoteResp}"
proof -
  consider "mTerm m = 0" | "rTerm r < mTerm m" "mType m = MsgPreVote \<or> mType m = MsgPreVoteResp \<and> \<not> mReject m"
    | "rTerm r < mTerm m" "\<not> (mType m = MsgPreVote \<or> mType m = MsgPreVoteResp \<and> \<not> mReject m)"
    | "mTerm m \<noteq> 0" "mTerm m < rTerm r" | "mTerm m = rTerm r"
    by linarith
  then show ?thesis
  proof cases
    case 3
    then obtain ld where "becomeFollower ops (mTerm m) ld r = Some r1" "\<not> b"
      using assms by (auto simp: termRules_def Let_def elim!: bind_SomeE)
    with becomeFollower_becomes [of ops "mTerm m" ld r r1] 3(1) adopt show ?thesis
      by (auto simp: becomes_def in_term_def)
  next
    case 4
    with assms stale reply show ?thesis
      by (auto simp: termRules_def msgRespType_def message0_def split: MessageType.split_asm)
  qed (use assms same in \<open>auto simp: termRules_def in_term_def split: if_split_asm\<close>)
qed

lemma moves_refl: "elec_ok r \<Longrightarrow> moves m r r"
  by (auto simp: moves_def emits_def ballots_from_def elected_by_def)

theorem Step_moves:
  assumes "Step ops m r = Some (e, r')" and "safe_msg m" and "elec_ok r" and "rid r \<noteq> NoNode"
  shows "moves m r r'"
proof -
  consider (local) "mType m \<in> {MsgPropose, MsgReadIndex}"
    | (sticky) "mType m \<notin> {MsgPropose, MsgReadIndex}" "sticky m r" "r' = stickyReject m r"
    | (rules) b r1 where "termRules ops m r = Some (b, r1)" "b \<Longrightarrow> r' = r1" "\<not> b \<Longrightarrow> stepRole ops m r1 = Some r'"
    using assms(1) by (auto simp: Step_def elim!: bind_SomeE split: if_split_asm)
  then show ?thesis
  proof cases
    case local
    then have "r' = r \<or> rstate r = StateLeader \<and> quiet r r'"
      using assms(1)
      by (auto simp: Step_def stepPropose_def stepReadIndex_def elim!: bind_SomeE split: if_split_asm
          dest!: appendEntry_quiet bcastAppend_quiet sendReadIndex_quiet dest: quiet_trans)
    moreover have "rstate r = StateLeader \<Longrightarrow> 0 < rTerm r" using assms(3) by (simp add: elec_ok_def)
    ultimately show ?thesis using assms(3) moves_refl quiet_moves by blast
  next
    case sticky
    have "moves m r (stickyReject m r)"
      unfolding stickyReject_def Let_def
      by (rule answer_moves) (use assms(3) in \<open>auto simp: last_send out_ok_def message0_def\<close>)
    with sticky show ?thesis by simp
  next
    case rules
    from rules(1) show ?thesis
    proof (cases rule: termRules_cases)
      case same
      with rules(3) assms stepRole_moves show ?thesis by blast
    next
      case adopt
      then have r1: "same_frame r r1" "rTerm r1 = mTerm m" "rVote r1 = NoNode" "rstate r1 = StateFollower"
          "msgs r1 = msgs r" "rid r1 = rid r"
        by (auto simp: becomes_def same_frame_def)
      then have ok: "elec_ok r1" by (simp add: elec_ok_def)
      have role: "stepRole ops m r1 = Some r'" "rid r1 \<noteq> NoNode"
        using rules(3) adopt(1) assms(4) r1(6) by simp_all
      have mv: "moves m r1 r'" using role assms(2) adopt(4) ok by (intro stepRole_moves)
      have fo: "rstate r' = StateFollower"
        by (rule stepRole_follower [OF role(1) r1(4) assms(2) adopt(4) ok role(2)])
      have "emits m r r'" "same_frame r r'"
        using mv r1 by (auto simp: moves_def emits_def intro: same_frame_trans)
      moreover have "rTerm r < rTerm r'"
        using mv r1(2) adopt(3) by (auto simp: moves_def tv_le_def)
      ultimately show ?thesis using mv fo by (simp add: moves_def tv_le_def)
    next
      case stale
      with rules(2) moves_refl assms(3) show ?thesis by simp
    next
      case (reply y)
      have "moves m r (send y r)"
        by (rule answer_moves) (use assms(3) reply(3) in \<open>auto simp: last_send out_ok_def\<close>)
      with reply rules(2) show ?thesis by simp
    qed
  qed
qed

end
