(* ===== verification/KV_Codec.thy ===== *)
theory KV_Codec
  imports Prelude
begin

text \<open>
  The wire format of the replicated commands: \<^verbatim>\<open>kv/codec.go\<close> (the append helpers and the
  strict decoder) and \<^verbatim>\<open>kv/command.go\<close> (\<open>Command\<close>, \<open>Result\<close>, \<open>EncodeCommand\<close>,
  \<open>DecodeCommand\<close>).

  The decoder is the record of the source, a buffer and an offset; each read returns the
  value and the advanced decoder, or one of the errors below (the source's formatted
  messages, with the numbers they print). The lemmas show that every reader inverts its
  writer, that every reader accepts only what its writer produces, and hence that
  \<open>DecodeCommand\<close> and \<open>EncodeCommand\<close> are inverse to each other on both sides.
\<close>

section \<open>Codec helpers\<close>

datatype kv_error =
    TruncatedInput nat nat nat  \<comment> \<open>offset, wanted, available\<close>
  | InvalidPresenceFlag byte nat
  | TrailingBytes nat
  | UnknownCommandVersion byte
  | InvalidOp byte
  | UnknownSnapshotVersion byte
  | SessionCountExceeds uint64
  | KeyCountExceeds uint64

abbreviation flagAbsent :: byte where "flagAbsent \<equiv> 0"
abbreviation flagPresent :: byte where "flagPresent \<equiv> 1"

definition appendUint64 :: "bytes \<Rightarrow> uint64 \<Rightarrow> bytes" where
  "appendUint64 buf v = buf @ be_bytes 8 (unat v)"

definition appendUint32 :: "bytes \<Rightarrow> nat \<Rightarrow> bytes" where
  "appendUint32 buf v = buf @ be_bytes 4 v"

definition appendString :: "bytes \<Rightarrow> bytes \<Rightarrow> bytes" where
  "appendString buf s = appendUint32 buf (length s) @ s"

definition appendOptBytes :: "bytes \<Rightarrow> bytes option \<Rightarrow> bytes" where
  "appendOptBytes buf b =
     (case b of
        None \<Rightarrow> buf @ [flagAbsent]
      | Some b \<Rightarrow> appendUint32 (buf @ [flagPresent]) (length b) @ b)"

record decoder =
  d_buf :: bytes
  d_off :: nat

definition remaining :: "decoder \<Rightarrow> nat" where
  "remaining d = length (d_buf d) - d_off d"

definition d_byte :: "decoder \<Rightarrow> kv_error + byte \<times> decoder" where
  "d_byte d =
     (if remaining d < 1 then Inl (TruncatedInput (d_off d) 1 0)
      else Inr (d_buf d ! d_off d, d\<lparr>d_off := d_off d + 1\<rparr>))"

definition d_uint64 :: "decoder \<Rightarrow> kv_error + uint64 \<times> decoder" where
  "d_uint64 d =
     (if remaining d < 8 then Inl (TruncatedInput (d_off d) 8 (remaining d))
      else Inr (word_of_nat (be_nat (take 8 (drop (d_off d) (d_buf d)))),
                d\<lparr>d_off := d_off d + 8\<rparr>))"

definition d_uint32 :: "decoder \<Rightarrow> kv_error + nat \<times> decoder" where
  "d_uint32 d =
     (if remaining d < 4 then Inl (TruncatedInput (d_off d) 4 (remaining d))
      else Inr (be_nat (take 4 (drop (d_off d) (d_buf d))), d\<lparr>d_off := d_off d + 4\<rparr>))"

definition bytesN :: "decoder \<Rightarrow> nat \<Rightarrow> kv_error + bytes \<times> decoder" where
  "bytesN d n =
     (if remaining d < n then Inl (TruncatedInput (d_off d) n (remaining d))
      else Inr (take n (drop (d_off d) (d_buf d)), d\<lparr>d_off := d_off d + n\<rparr>))"

definition d_string :: "decoder \<Rightarrow> kv_error + bytes \<times> decoder" where
  "d_string d = res_bind (d_uint32 d) (\<lambda>(n, d). bytesN d n)"

definition optBytes :: "decoder \<Rightarrow> kv_error + bytes option \<times> decoder" where
  "optBytes d =
     res_bind (d_byte d) (\<lambda>(flag, d).
       if flag = flagAbsent then Inr (None, d)
       else if flag = flagPresent then
         res_bind (d_uint32 d) (\<lambda>(n, d).
           res_bind (bytesN d n) (\<lambda>(b, d). Inr (Some b, d)))
       else Inl (InvalidPresenceFlag flag (d_off d - 1)))"

definition d_finish :: "decoder \<Rightarrow> kv_error option" where
  "d_finish d = (if remaining d \<noteq> 0 then Some (TrailingBytes (remaining d)) else None)"

section \<open>Commands and results\<close>

type_synonym OpType = byte

abbreviation OpInvalid :: OpType where "OpInvalid \<equiv> 0"
abbreviation OpGet :: OpType where "OpGet \<equiv> 1"
abbreviation OpPut :: OpType where "OpPut \<equiv> 2"
abbreviation OpDelete :: OpType where "OpDelete \<equiv> 3"
abbreviation OpCAS :: OpType where "OpCAS \<equiv> 4"

record Command =
  cmdClientID :: uint64
  cmdSeq :: uint64
  cmdOp :: OpType
  cmdKey :: bytes
  cmdValue :: "bytes option"
  cmdExpect :: "bytes option"

type_synonym Status = byte

abbreviation StatusOK :: Status where "StatusOK \<equiv> 0"
abbreviation StatusNotFound :: Status where "StatusNotFound \<equiv> 1"
abbreviation StatusCASMismatch :: Status where "StatusCASMismatch \<equiv> 2"
abbreviation StatusStaleSeq :: Status where "StatusStaleSeq \<equiv> 3"

record Result =
  resStatus :: Status
  resValue :: "bytes option"
  resVersion :: uint64

abbreviation commandEncodingVersion :: byte where "commandEncodingVersion \<equiv> 1"

definition EncodeCommand :: "Command \<Rightarrow> bytes" where
  "EncodeCommand c =
     (let buf = [commandEncodingVersion];
          buf = appendUint64 buf (cmdClientID c);
          buf = appendUint64 buf (cmdSeq c);
          buf = buf @ [cmdOp c];
          buf = appendString buf (cmdKey c);
          buf = appendOptBytes buf (cmdValue c)
      in appendOptBytes buf (cmdExpect c))"

definition DecodeCommand :: "bytes \<Rightarrow> kv_error + Command" where
  "DecodeCommand data =
     res_bind (d_byte \<lparr>d_buf = data, d_off = 0\<rparr>) (\<lambda>(version, d).
     if version \<noteq> commandEncodingVersion then Inl (UnknownCommandVersion version) else
     res_bind (d_uint64 d) (\<lambda>(clientID, d).
     res_bind (d_uint64 d) (\<lambda>(seq, d).
     res_bind (d_byte d) (\<lambda>(op, d).
     if op < OpGet \<or> OpCAS < op then Inl (InvalidOp op) else
     res_bind (d_string d) (\<lambda>(key, d).
     res_bind (optBytes d) (\<lambda>(val, d).
     res_bind (optBytes d) (\<lambda>(expect, d).
     case d_finish d of
       Some e \<Rightarrow> Inl e
     | None \<Rightarrow> Inr \<lparr>cmdClientID = clientID, cmdSeq = seq, cmdOp = op, cmdKey = key,
                    cmdValue = val, cmdExpect = expect\<rparr>)))))))"

section \<open>Readers and writers\<close>

text \<open>
  \<open>dec p rest\<close> is a decoder that has consumed \<open>p\<close> and still has \<open>rest\<close> to read. Every
  decoder whose offset is inside its buffer has this shape.
\<close>

definition dec :: "bytes \<Rightarrow> bytes \<Rightarrow> decoder" where
  "dec p rest = \<lparr>d_buf = p @ rest, d_off = length p\<rparr>"

lemma dec_start: "\<lparr>d_buf = data, d_off = 0\<rparr> = dec [] data"
  by (simp add: dec_def)

lemma remaining_dec [simp]: "remaining (dec p rest) = length rest"
  by (simp add: dec_def remaining_def)

lemma d_off_dec [simp]: "d_off (dec p rest) = length p"
  by (simp add: dec_def)

lemma dec_inj [simp]: "dec p rest = dec p' rest' \<longleftrightarrow> p = p' \<and> rest = rest'"
  by (auto simp: dec_def)

lemma dec_advance: "n \<le> length rest \<Longrightarrow>
    (dec p rest)\<lparr>d_off := length p + n\<rparr> = dec (p @ take n rest) (drop n rest)"
  by (simp add: dec_def)

text \<open>What each reader computes on a decoder of this shape.\<close>

lemma d_byte_dec [codec_simps]:
  "d_byte (dec p rest) =
     (case rest of [] \<Rightarrow> Inl (TruncatedInput (length p) 1 0) | b # rest' \<Rightarrow> Inr (b, dec (p @ [b]) rest'))"
  by (cases rest) (auto simp: d_byte_def dec_def remaining_def nth_append)

lemma d_uint64_dec [codec_simps]:
  "d_uint64 (dec p rest) =
     (if length rest < 8 then Inl (TruncatedInput (length p) 8 (length rest))
      else Inr (word_of_nat (be_nat (take 8 rest)), dec (p @ take 8 rest) (drop 8 rest)))"
  by (simp add: d_uint64_def dec_advance) (simp add: dec_def)

lemma d_uint32_dec [codec_simps]:
  "d_uint32 (dec p rest) =
     (if length rest < 4 then Inl (TruncatedInput (length p) 4 (length rest))
      else Inr (be_nat (take 4 rest), dec (p @ take 4 rest) (drop 4 rest)))"
  by (simp add: d_uint32_def dec_advance) (simp add: dec_def)

lemma bytesN_dec [codec_simps]:
  "bytesN (dec p rest) n =
     (if length rest < n then Inl (TruncatedInput (length p) n (length rest))
      else Inr (take n rest, dec (p @ take n rest) (drop n rest)))"
  by (simp add: bytesN_def dec_advance) (simp add: dec_def)

lemma d_finish_dec [simp]:
  "d_finish (dec p rest) = (if rest = [] then None else Some (TrailingBytes (length rest)))"
  by (simp add: d_finish_def)

text \<open>The writers append an encoding that does not depend on the buffer.\<close>

lemma appendUint64_Nil: "appendUint64 buf v = buf @ appendUint64 [] v"
  by (simp add: appendUint64_def)

lemma appendString_Nil: "appendString buf s = buf @ appendString [] s"
  by (simp add: appendString_def appendUint32_def)

lemma appendOptBytes_Nil: "appendOptBytes buf b = buf @ appendOptBytes [] b"
  by (simp add: appendOptBytes_def appendUint32_def split: option.split)

lemma length_appendUint64 [simp]: "length (appendUint64 buf v) = length buf + 8"
  by (simp add: appendUint64_def)

lemma length_appendString [simp]: "length (appendString buf s) = length buf + 4 + length s"
  by (simp add: appendString_def appendUint32_def)

lemma length_appendOptBytes [simp]:
  "length (appendOptBytes buf b) = length buf + (case b of None \<Rightarrow> 1 | Some b \<Rightarrow> 5 + length b)"
  by (simp add: appendOptBytes_def appendUint32_def split: option.split)

text \<open>Each reader inverts its writer and stops exactly at its end.\<close>

definition len_ok :: "bytes \<Rightarrow> bool" where
  "len_ok s \<longleftrightarrow> length s < 2 ^ 32"

definition opt_len_ok :: "bytes option \<Rightarrow> bool" where
  "opt_len_ok b \<longleftrightarrow> (case b of None \<Rightarrow> True | Some b \<Rightarrow> len_ok b)"

lemma opt_len_ok_simps [simp]: "opt_len_ok None" "opt_len_ok (Some b) = len_ok b"
  by (simp_all add: opt_len_ok_def)

lemma d_uint64_append [codec_simps]:
  "d_uint64 (dec p (appendUint64 [] v @ rest)) = Inr (v, dec (p @ appendUint64 [] v) rest)"
  by (simp add: d_uint64_dec appendUint64_def)

lemma d_string_append [codec_simps]:
  "len_ok s \<Longrightarrow>
   d_string (dec p (appendString [] s @ rest)) = Inr (s, dec (p @ appendString [] s) rest)"
  by (simp add: d_string_def d_uint32_dec bytesN_dec appendString_def appendUint32_def len_ok_def)

lemma optBytes_append [codec_simps]:
  "opt_len_ok b \<Longrightarrow>
   optBytes (dec p (appendOptBytes [] b @ rest)) = Inr (b, dec (p @ appendOptBytes [] b) rest)"
  by (cases b)
     (simp_all add: optBytes_def d_byte_dec d_uint32_dec bytesN_dec appendOptBytes_def
        appendUint32_def len_ok_def)

text \<open>Conversely a successful read consumed exactly what the writer writes for its value.\<close>

lemma d_byte_inv: "d_byte (dec p rest) = Inr (b, d) \<Longrightarrow> \<exists>rest'. rest = b # rest' \<and> d = dec (p @ [b]) rest'"
  by (auto simp: d_byte_dec split: list.splits)

lemma d_uint64_inv:
  assumes "d_uint64 (dec p rest) = Inr (v, d)"
  shows "\<exists>rest'. rest = appendUint64 [] v @ rest' \<and> d = dec (p @ appendUint64 [] v) rest'"
proof -
  from assms have len: "8 \<le> length rest"
    and v: "v = word_of_nat (be_nat (take 8 rest))" and d: "d = dec (p @ take 8 rest) (drop 8 rest)"
    by (auto simp: d_uint64_dec split: if_splits)
  have "be_nat (take 8 rest) < 18446744073709551616"
    using len by (intro be_nat8_less) simp
  then have "unat v = be_nat (take 8 rest)"
    by (simp add: v unat_of_nat)
  then have "appendUint64 [] v = take 8 rest"
    using len by (simp add: appendUint64_def be_bytes_be_nat_len)
  with d show ?thesis by (metis append_take_drop_id)
qed

lemma d_uint32_inv:
  assumes "d_uint32 (dec p rest) = Inr (n, d)"
  shows "\<exists>rest'. rest = be_bytes 4 n @ rest' \<and> d = dec (p @ be_bytes 4 n) rest' \<and> n < 2 ^ 32"
proof -
  from assms have len: "4 \<le> length rest"
    and n: "n = be_nat (take 4 rest)" and d: "d = dec (p @ take 4 rest) (drop 4 rest)"
    by (auto simp: d_uint32_dec split: if_splits)
  have "be_bytes 4 n = take 4 rest"
    using len by (simp add: n be_bytes_be_nat_len)
  moreover have "n < 2 ^ 32"
    using len by (simp add: n be_nat4_less)
  ultimately show ?thesis using d by (metis append_take_drop_id)
qed

lemma bytesN_inv:
  "bytesN (dec p rest) n = Inr (b, d) \<Longrightarrow>
   \<exists>rest'. rest = b @ rest' \<and> length b = n \<and> d = dec (p @ b) rest'"
  by (auto simp: bytesN_dec split: if_splits intro!: exI [of _ "drop n rest"])

lemma d_string_inv:
  "d_string (dec p rest) = Inr (s, d) \<Longrightarrow>
   \<exists>rest'. rest = appendString [] s @ rest' \<and> d = dec (p @ appendString [] s) rest' \<and> len_ok s"
  by (fastforce simp: d_string_def res_bind_eq_Inr appendString_def appendUint32_def len_ok_def
        dest!: d_uint32_inv bytesN_inv)

lemma optBytes_inv:
  "optBytes (dec p rest) = Inr (b, d) \<Longrightarrow>
   \<exists>rest'. rest = appendOptBytes [] b @ rest' \<and> d = dec (p @ appendOptBytes [] b) rest' \<and> opt_len_ok b"
  by (fastforce simp: optBytes_def res_bind_eq_Inr appendOptBytes_def appendUint32_def len_ok_def
        split: if_splits dest!: d_byte_inv d_uint32_inv bytesN_inv)

section \<open>Encoding and decoding commands\<close>

text \<open>
  A command is encodable when its operation is one the decoder admits and its byte
  fields have a 32-bit length (the length prefix is \<open>uint32(len(s))\<close>).
\<close>

definition encodable :: "Command \<Rightarrow> bool" where
  "encodable c \<longleftrightarrow> OpGet \<le> cmdOp c \<and> cmdOp c \<le> OpCAS \<and> len_ok (cmdKey c) \<and>
     opt_len_ok (cmdValue c) \<and> opt_len_ok (cmdExpect c)"

lemma EncodeCommand_append:
  "EncodeCommand c = commandEncodingVersion # appendUint64 [] (cmdClientID c) @
     appendUint64 [] (cmdSeq c) @ cmdOp c # appendString [] (cmdKey c) @
     appendOptBytes [] (cmdValue c) @ appendOptBytes [] (cmdExpect c)"
  unfolding EncodeCommand_def Let_def
  by (subst appendOptBytes_Nil, subst (2) appendOptBytes_Nil, subst appendString_Nil,
      subst appendUint64_Nil, subst (2) appendUint64_Nil) simp

lemma DecodeCommand_Encode_append:
  assumes "encodable c"
  shows "DecodeCommand (EncodeCommand c @ rest) =
    (if rest = [] then Inr c else Inl (TrailingBytes (length rest)))"
proof -
  have op: "\<not> (cmdOp c < OpGet \<or> OpCAS < cmdOp c)"
    using assms by (auto simp: encodable_def not_less)
  have c: "\<lparr>cmdClientID = cmdClientID c, cmdSeq = cmdSeq c, cmdOp = cmdOp c, cmdKey = cmdKey c,
            cmdValue = cmdValue c, cmdExpect = cmdExpect c\<rparr> = c"
    by simp
  show ?thesis
    using assms op unfolding encodable_def
    by (simp add: DecodeCommand_def EncodeCommand_append dec_start d_byte_dec d_uint64_append
        d_string_append optBytes_append c del: not_less)
qed

lemma DecodeCommand_inv:
  assumes "DecodeCommand data = Inr c"
  shows "EncodeCommand c = data \<and> encodable c"
proof -
  from assms obtain clientID seq op key val expect d1 d2 d3 d4 d5 d6 d7 where
        1: "d_byte (dec [] data) = Inr (commandEncodingVersion, d1)"
    and 2: "d_uint64 d1 = Inr (clientID, d2)" and 3: "d_uint64 d2 = Inr (seq, d3)"
    and 4: "d_byte d3 = Inr (op, d4)" and op: "\<not> op < OpGet" "\<not> OpCAS < op"
    and 5: "d_string d4 = Inr (key, d5)" and 6: "optBytes d5 = Inr (val, d6)"
    and 7: "optBytes d6 = Inr (expect, d7)" and fin: "d_finish d7 = None"
    and c: "c = \<lparr>cmdClientID = clientID, cmdSeq = seq, cmdOp = op, cmdKey = key,
                 cmdValue = val, cmdExpect = expect\<rparr>"
    unfolding DecodeCommand_def dec_start
    by (auto simp: res_bind_eq_Inr split: if_splits option.splits)
  from 1 obtain r1 where r1: "data = commandEncodingVersion # r1" "d1 = dec [commandEncodingVersion] r1"
    by (auto dest: d_byte_inv)
  from 2 r1 obtain p2 r2 where r2: "r1 = appendUint64 [] clientID @ r2" "d2 = dec p2 r2"
    by (blast dest: d_uint64_inv)
  from 3 r2 obtain p3 r3 where r3: "r2 = appendUint64 [] seq @ r3" "d3 = dec p3 r3"
    by (blast dest: d_uint64_inv)
  from 4 r3 obtain p4 r4 where r4: "r3 = op # r4" "d4 = dec p4 r4"
    by (blast dest: d_byte_inv)
  from 5 r4 obtain p5 r5 where r5: "r4 = appendString [] key @ r5" "d5 = dec p5 r5" "len_ok key"
    by (blast dest: d_string_inv)
  from 6 r5 obtain p6 r6 where r6: "r5 = appendOptBytes [] val @ r6" "d6 = dec p6 r6" "opt_len_ok val"
    by (blast dest: optBytes_inv)
  from 7 r6 obtain p7 r7 where r7: "r6 = appendOptBytes [] expect @ r7" "d7 = dec p7 r7" "opt_len_ok expect"
    by (blast dest: optBytes_inv)
  from fin r7 have "r7 = []" by (simp split: if_splits)
  moreover have "OpGet \<le> op" "op \<le> OpCAS" using op by (simp_all only: not_less)
  ultimately show ?thesis using r1 r2 r3 r4 r5 r6 r7
    by (simp add: c EncodeCommand_append encodable_def)
qed


section \<open>Properties\<close>

text \<open>
  C20. Decoding the encoding of a command gives the command back: for every command with a
  valid operation and 32-bit field lengths, \<open>DecodeCommand(EncodeCommand(c))\<close> is \<open>c\<close> with
  no error; the nil/empty distinction of \<open>Value\<close> and \<open>Expect\<close> survives.
\<close>
theorem decode_encode_command: "encodable c \<Longrightarrow> DecodeCommand (EncodeCommand c) = Inr c"
  using DecodeCommand_Encode_append [of c "[]"] by simp

definition sample_cas :: Command where
  "sample_cas = \<lparr>cmdClientID = 7, cmdSeq = 9, cmdOp = OpCAS, cmdKey = [107, 48],
     cmdValue = Some [], cmdExpect = None\<rparr>"

theorem decode_encode_command_witness:
  "encodable sample_cas \<and> DecodeCommand (EncodeCommand sample_cas) = Inr sample_cas"
proof -
  have e: "encodable sample_cas"
    by (simp add: encodable_def sample_cas_def len_ok_def)
  show ?thesis using e decode_encode_command [OF e] by simp
qed



text \<open>
  A truncated command is always an error: no proper prefix of an encoded command
  decodes, whatever byte the truncation falls on.
\<close>
lemma decode_command_truncated:
  assumes "encodable c" and "EncodeCommand c = pre @ rest" and "rest \<noteq> []"
  shows "\<exists>e. DecodeCommand pre = Inl e"
proof (cases "DecodeCommand pre")
  case (Inr c')
  then have c': "EncodeCommand c' = pre" "encodable c'"
    using DecodeCommand_inv by blast+
  have "DecodeCommand (EncodeCommand c) = Inl (TrailingBytes (length rest))"
    using DecodeCommand_Encode_append [OF c'(2), of rest] c'(1) assms(2,3) by simp
  with DecodeCommand_Encode_append [OF assms(1), of "[]"] show ?thesis by simp
qed blast

lemma decode_command_truncated_example: "\<exists>e. DecodeCommand (take 20 (EncodeCommand sample_cas)) = Inl e"
proof (rule decode_command_truncated [of sample_cas _ "drop 20 (EncodeCommand sample_cas)"])
  show "encodable sample_cas"
    by (simp add: encodable_def sample_cas_def len_ok_def)
  show "EncodeCommand sample_cas =
      take 20 (EncodeCommand sample_cas) @ drop 20 (EncodeCommand sample_cas)" by simp
  show "drop 20 (EncodeCommand sample_cas) \<noteq> []"
    by (simp add: EncodeCommand_append sample_cas_def)
qed

end
