(* ===== verification/KV_Machine.thy ===== *)
theory KV_Machine
  imports KV_Codec "HOL-Library.Finite_Map" "HOL-Library.List_Lexorder"
begin

text \<open>
  The replicated state machine of \<^verbatim>\<open>kv/kv.go\<close>: the store, the client session table that
  makes command application exactly-once, and the snapshot codec.

  Go maps are finite maps (\<open>fmap\<close>); indexing an absent key of a Go map gives the zero
  value, which \<open>fmget\<close> writes out. \<open>bytes.Clone\<close> and \<open>Result.clone\<close> only break aliasing;
  byte strings are values here, so both are the identity. The panic of \<open>execute\<close> on an
  invalid operation is \<open>None\<close>.
\<close>

section \<open>State\<close>

record ValueRecord =
  vrValue :: "bytes option"
  vrVersion :: uint64

record Session =
  LastSeq :: uint64
  LastResult :: Result

record StateMachine =
  sm_data :: "(bytes, ValueRecord) fmap"
  sm_sessions :: "(uint64, Session) fmap"

definition fmget :: "'v \<Rightarrow> ('k, 'v) fmap \<Rightarrow> 'k \<Rightarrow> 'v" where
  "fmget z m k = (case fmlookup m k of None \<Rightarrow> z | Some v \<Rightarrow> v)"

abbreviation zeroResult :: Result where
  "zeroResult \<equiv> \<lparr>resStatus = StatusOK, resValue = None, resVersion = 0\<rparr>"

abbreviation zeroRecord :: ValueRecord where
  "zeroRecord \<equiv> \<lparr>vrValue = None, vrVersion = 0\<rparr>"

abbreviation zeroSession :: Session where
  "zeroSession \<equiv> \<lparr>LastSeq = 0, LastResult = zeroResult\<rparr>"

definition NewStateMachine :: StateMachine where
  "NewStateMachine = \<lparr>sm_data = fmempty, sm_sessions = fmempty\<rparr>"

section \<open>Applying commands\<close>

definition kv_get :: "StateMachine \<Rightarrow> bytes \<Rightarrow> Result" where
  "kv_get m key =
     (case fmlookup (sm_data m) key of
        None \<Rightarrow> zeroResult\<lparr>resStatus := StatusNotFound\<rparr>
      | Some rec \<Rightarrow> \<lparr>resStatus = StatusOK, resValue = vrValue rec, resVersion = vrVersion rec\<rparr>)"

definition kv_cas :: "StateMachine \<Rightarrow> Command \<Rightarrow> Result \<times> StateMachine" where
  "kv_cas m cmd =
     (let cur = fmget zeroRecord (sm_data m) (cmdKey cmd);
          exists = (fmlookup (sm_data m) (cmdKey cmd) \<noteq> None);
          mismatch = \<lparr>resStatus = StatusCASMismatch, resValue = vrValue cur, resVersion = vrVersion cur\<rparr>;
          rec = \<lparr>vrValue = cmdValue cmd, vrVersion = vrVersion cur + 1\<rparr>;
          swap = (\<lparr>resStatus = StatusOK, resValue = None, resVersion = vrVersion rec\<rparr>,
                  m\<lparr>sm_data := fmupd (cmdKey cmd) rec (sm_data m)\<rparr>)
      in case cmdExpect cmd of
           None \<Rightarrow> if exists then (mismatch, m) else swap
         | Some expect \<Rightarrow>
             if \<not> exists then (zeroResult\<lparr>resStatus := StatusCASMismatch\<rparr>, m)
             else if (case vrValue cur of None \<Rightarrow> [] | Some v \<Rightarrow> v) \<noteq> expect then (mismatch, m)
             else swap)"

definition execute :: "StateMachine \<Rightarrow> Command \<Rightarrow> (Result \<times> StateMachine) option" where
  "execute m cmd =
     (if cmdOp cmd = OpGet then Some (kv_get m (cmdKey cmd), m)
      else if cmdOp cmd = OpPut then
        (let rec = \<lparr>vrValue = cmdValue cmd,
                    vrVersion = vrVersion (fmget zeroRecord (sm_data m) (cmdKey cmd)) + 1\<rparr>
         in Some (\<lparr>resStatus = StatusOK, resValue = None, resVersion = vrVersion rec\<rparr>,
                  m\<lparr>sm_data := fmupd (cmdKey cmd) rec (sm_data m)\<rparr>))
      else if cmdOp cmd = OpDelete then
        (if fmlookup (sm_data m) (cmdKey cmd) = None
         then Some (zeroResult\<lparr>resStatus := StatusNotFound\<rparr>, m)
         else Some (zeroResult, m\<lparr>sm_data := fmdrop (cmdKey cmd) (sm_data m)\<rparr>))
      else if cmdOp cmd = OpCAS then Some (kv_cas m cmd)
      else None)"

definition Apply :: "StateMachine \<Rightarrow> Command \<Rightarrow> (Result \<times> StateMachine) option" where
  "Apply m cmd =
     (let run = (case execute m cmd of
                   None \<Rightarrow> None
                 | Some (res, m') \<Rightarrow>
                     Some (res, m'\<lparr>sm_sessions :=
                       fmupd (cmdClientID cmd) \<lparr>LastSeq = cmdSeq cmd, LastResult = res\<rparr> (sm_sessions m')\<rparr>))
      in case fmlookup (sm_sessions m) (cmdClientID cmd) of
           None \<Rightarrow> run
         | Some sess \<Rightarrow>
             if cmdSeq cmd = LastSeq sess then Some (LastResult sess, m)
             else if cmdSeq cmd < LastSeq sess
             then Some (zeroResult\<lparr>resStatus := StatusStaleSeq\<rparr>, m)
             else run)"

definition Read :: "StateMachine \<Rightarrow> bytes \<Rightarrow> Result" where
  "Read m key = kv_get m key"

definition Len :: "StateMachine \<Rightarrow> nat" where
  "Len m = fcard (fmdom (sm_data m))"

section \<open>Snapshots\<close>

abbreviation snapshotEncodingVersion :: byte where "snapshotEncodingVersion \<equiv> 1"

definition appendSession :: "StateMachine \<Rightarrow> bytes \<Rightarrow> uint64 \<Rightarrow> bytes" where
  "appendSession m buf cid =
     (let sess = fmget zeroSession (sm_sessions m) cid;
          buf = appendUint64 buf cid;
          buf = appendUint64 buf (LastSeq sess);
          buf = buf @ [resStatus (LastResult sess)];
          buf = appendOptBytes buf (resValue (LastResult sess))
      in appendUint64 buf (resVersion (LastResult sess)))"

definition appendKey :: "StateMachine \<Rightarrow> bytes \<Rightarrow> bytes \<Rightarrow> bytes" where
  "appendKey m buf k =
     (let rec = fmget zeroRecord (sm_data m) k;
          buf = appendString buf k;
          buf = appendOptBytes buf (vrValue rec)
      in appendUint64 buf (vrVersion rec))"

definition Snapshot :: "StateMachine \<Rightarrow> bytes" where
  "Snapshot m =
     (let buf = [snapshotEncodingVersion];
          clientIDs = sorted_list_of_fset (fmdom (sm_sessions m));
          buf = appendUint64 buf (word_of_nat (length clientIDs));
          buf = foldl (appendSession m) buf clientIDs;
          keys = sorted_list_of_fset (fmdom (sm_data m));
          buf = appendUint64 buf (word_of_nat (length keys))
      in foldl (appendKey m) buf keys)"

fun restoreSessions :: "nat \<Rightarrow> decoder \<Rightarrow> (uint64, Session) fmap \<Rightarrow>
    kv_error + (uint64, Session) fmap \<times> decoder" where
  "restoreSessions 0 d sessions = Inr (sessions, d)"
| "restoreSessions (Suc n) d sessions =
     res_bind (d_uint64 d) (\<lambda>(cid, d).
     res_bind (d_uint64 d) (\<lambda>(lastSeq, d).
     res_bind (d_byte d) (\<lambda>(status, d).
     res_bind (optBytes d) (\<lambda>(val, d).
     res_bind (d_uint64 d) (\<lambda>(version, d).
     restoreSessions n d
       (fmupd cid \<lparr>LastSeq = lastSeq,
                  LastResult = \<lparr>resStatus = status, resValue = val, resVersion = version\<rparr>\<rparr>
              sessions))))))"

fun restoreKeys :: "nat \<Rightarrow> decoder \<Rightarrow> (bytes, ValueRecord) fmap \<Rightarrow>
    kv_error + (bytes, ValueRecord) fmap \<times> decoder" where
  "restoreKeys 0 d data = Inr (data, d)"
| "restoreKeys (Suc n) d data =
     res_bind (d_string d) (\<lambda>(key, d).
     res_bind (optBytes d) (\<lambda>(val, d).
     res_bind (d_uint64 d) (\<lambda>(version, d).
     restoreKeys n d (fmupd key \<lparr>vrValue = val, vrVersion = version\<rparr> data))))"

definition restoreState :: "bytes \<Rightarrow> kv_error + StateMachine" where
  "restoreState snapshot =
     res_bind (d_byte \<lparr>d_buf = snapshot, d_off = 0\<rparr>) (\<lambda>(version, d).
     if version \<noteq> snapshotEncodingVersion then Inl (UnknownSnapshotVersion version) else
     res_bind (d_uint64 d) (\<lambda>(nSessions, d).
     if remaining d div 26 < unat nSessions then Inl (SessionCountExceeds nSessions) else
     res_bind (restoreSessions (unat nSessions) d fmempty) (\<lambda>(sessions, d).
     res_bind (d_uint64 d) (\<lambda>(nKeys, d).
     if remaining d div 13 < unat nKeys then Inl (KeyCountExceeds nKeys) else
     res_bind (restoreKeys (unat nKeys) d fmempty) (\<lambda>(data, d).
     case d_finish d of
       Some e \<Rightarrow> Inl e
     | None \<Rightarrow> Inr \<lparr>sm_data = data, sm_sessions = sessions\<rparr>)))))"

definition Restore :: "StateMachine \<Rightarrow> bytes \<Rightarrow> kv_error option \<times> StateMachine" where
  "Restore m snapshot =
     (case restoreState snapshot of
        Inl e \<Rightarrow> (Some e, m)
      | Inr m' \<Rightarrow> (None, m'))"


section \<open>Snapshot round trip\<close>

lemma appendSession_Nil: "appendSession m buf cid = buf @ appendSession m [] cid"
  by (simp add: appendSession_def Let_def appendUint64_def appendOptBytes_def appendUint32_def
        split: option.split)

lemma appendSession_append:
  "appendSession m [] cid =
     (let sess = fmget zeroSession (sm_sessions m) cid
      in appendUint64 [] cid @ appendUint64 [] (LastSeq sess) @ resStatus (LastResult sess) #
         appendOptBytes [] (resValue (LastResult sess)) @ appendUint64 [] (resVersion (LastResult sess)))"
  by (simp add: appendSession_def Let_def appendUint64_def appendOptBytes_def appendUint32_def
        split: option.split)

lemma appendKey_append:
  "appendKey m buf k = buf @ appendString [] k @
     appendOptBytes [] (vrValue (fmget zeroRecord (sm_data m) k)) @
     appendUint64 [] (vrVersion (fmget zeroRecord (sm_data m) k))"
  unfolding appendKey_def Let_def
  by (subst appendUint64_Nil, subst appendOptBytes_Nil, subst appendString_Nil) simp

lemma foldl_append_concat:
  "(\<And>buf x. f buf x = buf @ f [] x) \<Longrightarrow> foldl f buf xs = buf @ concat (map (f []) xs)"
proof (induction xs arbitrary: buf)
  case Nil
  show ?case by simp
next
  case (Cons x xs)
  have "foldl f buf (x # xs) = f buf x @ concat (map (f []) xs)"
    using Cons.IH [OF Cons.prems] by simp
  also have "f buf x = buf @ f [] x" by (rule Cons.prems)
  finally show ?case by simp
qed

text \<open>A state is representable when its byte strings have 32-bit lengths and its maps 64-bit sizes.\<close>

definition snapshotable :: "StateMachine \<Rightarrow> bool" where
  "snapshotable m \<longleftrightarrow>
     (\<forall>cid sess. fmlookup (sm_sessions m) cid = Some sess \<longrightarrow> opt_len_ok (resValue (LastResult sess))) \<and>
     (\<forall>k rec. fmlookup (sm_data m) k = Some rec \<longrightarrow> len_ok k \<and> opt_len_ok (vrValue rec)) \<and>
     fcard (fmdom (sm_sessions m)) < 2 ^ 64 \<and> fcard (fmdom (sm_data m)) < 2 ^ 64"

lemma restoreSessions_append:
  assumes "\<forall>cid \<in> set ids. opt_len_ok (resValue (LastResult (fmget zeroSession (sm_sessions m) cid)))"
  shows "\<exists>p'. restoreSessions (length ids) (dec p (concat (map (appendSession m []) ids) @ rest)) acc =
    Inr (fold (\<lambda>cid. fmupd cid (fmget zeroSession (sm_sessions m) cid)) ids acc, dec p' rest)"
  using assms
proof (induction ids arbitrary: p acc)
  case Nil
  then show ?case by auto
next
  case (Cons cid ids)
  let ?s = "fmget zeroSession (sm_sessions m) cid"
  have s: "\<lparr>LastSeq = LastSeq ?s, LastResult = \<lparr>resStatus = resStatus (LastResult ?s),
      resValue = resValue (LastResult ?s), resVersion = resVersion (LastResult ?s)\<rparr>\<rparr> = ?s"
    by simp
  from Cons.prems have len: "opt_len_ok (resValue (LastResult ?s))" by simp
  have step: "restoreSessions (length (cid # ids))
      (dec p (concat (map (appendSession m []) (cid # ids)) @ rest)) acc =
    restoreSessions (length ids) (dec (p @ appendSession m [] cid)
      (concat (map (appendSession m []) ids) @ rest)) (fmupd cid ?s acc)"
    by (simp add: appendSession_append Let_def d_uint64_append d_byte_dec optBytes_append len s)
  from Cons.prems have "\<forall>cid \<in> set ids.
      opt_len_ok (resValue (LastResult (fmget zeroSession (sm_sessions m) cid)))" by simp
  from Cons.IH [OF this, of "p @ appendSession m [] cid" "fmupd cid ?s acc"] show ?case
    unfolding step by simp
qed

lemma restoreKeys_append:
  assumes "\<forall>k \<in> set ks. len_ok k \<and> opt_len_ok (vrValue (fmget zeroRecord (sm_data m) k))"
  shows "\<exists>p'. restoreKeys (length ks) (dec p (concat (map (appendKey m []) ks) @ rest)) acc =
    Inr (fold (\<lambda>k. fmupd k (fmget zeroRecord (sm_data m) k)) ks acc, dec p' rest)"
  using assms
proof (induction ks arbitrary: p acc)
  case Nil
  then show ?case by auto
next
  case (Cons k ks)
  let ?r = "fmget zeroRecord (sm_data m) k"
  have r: "\<lparr>vrValue = vrValue ?r, vrVersion = vrVersion ?r\<rparr> = ?r"
    by simp
  from Cons.prems have len: "len_ok k" "opt_len_ok (vrValue ?r)" by simp_all
  have step: "restoreKeys (length (k # ks)) (dec p (concat (map (appendKey m []) (k # ks)) @ rest)) acc =
    restoreKeys (length ks) (dec (p @ appendKey m [] k)
      (concat (map (appendKey m []) ks) @ rest)) (fmupd k ?r acc)"
    by (simp add: appendKey_append d_string_append d_uint64_append optBytes_append len r)
  from Cons.prems have "\<forall>k \<in> set ks. len_ok k \<and> opt_len_ok (vrValue (fmget zeroRecord (sm_data m) k))"
    by simp
  from Cons.IH [OF this, of "p @ appendKey m [] k" "fmupd k ?r acc"] show ?case
    unfolding step by simp
qed

lemma fold_fmupd_lookup:
  "fmlookup (fold (\<lambda>k. fmupd k (f k)) ks acc) x =
     (if x \<in> set ks then Some (f x) else fmlookup acc x)"
  by (induction ks arbitrary: acc) auto

lemma fold_fmupd_fmget:
  "fold (\<lambda>k. fmupd k (fmget z m k)) (sorted_list_of_fset (fmdom m)) fmempty = m"
  by (rule fmap_ext) (auto simp: fold_fmupd_lookup fmget_def fmlookup_dom_iff split: option.splits)

lemma length_appendSession_ge: "26 \<le> length (appendSession m [] cid)"
  by (simp add: appendSession_append Let_def split: option.split)

lemma length_appendKey_ge: "13 \<le> length (appendKey m [] k)"
  by (simp add: appendKey_append split: option.split)

lemma length_concat_ge: "(\<And>x. n \<le> length (f x)) \<Longrightarrow> length xs * n \<le> length (concat (map f xs))"
proof (induction xs)
  case (Cons x xs)
  from Cons.prems have "n \<le> length (f x)" .
  moreover have "length xs * n \<le> length (concat (map f xs))"
    using Cons.prems by (rule Cons.IH)
  ultimately show ?case by simp
qed simp

lemma length_sorted_list_of_fset: "length (sorted_list_of_fset S) = fcard S"
  by (simp add: sorted_list_of_fset.rep_eq fcard.rep_eq)

lemma Snapshot_append:
  "Snapshot m = snapshotEncodingVersion #
     appendUint64 [] (word_of_nat (fcard (fmdom (sm_sessions m)))) @
     concat (map (appendSession m []) (sorted_list_of_fset (fmdom (sm_sessions m)))) @
     appendUint64 [] (word_of_nat (fcard (fmdom (sm_data m)))) @
     concat (map (appendKey m []) (sorted_list_of_fset (fmdom (sm_data m))))"
proof -
  have k: "foldl (appendKey m) buf ks = buf @ concat (map (appendKey m []) ks)" for buf ks
    by (rule foldl_append_concat) (simp add: appendKey_append)
  have s: "foldl (appendSession m) buf ids = buf @ concat (map (appendSession m []) ids)" for buf ids
    by (rule foldl_append_concat) (rule appendSession_Nil)
  show ?thesis
    unfolding Snapshot_def Let_def length_sorted_list_of_fset k s
    by (subst appendUint64_Nil, subst (2) appendUint64_Nil) simp
qed

lemma unat_of_nat64: "n < 2 ^ 64 \<Longrightarrow> unat (word_of_nat n :: uint64) = n"
  by (simp add: unat_of_nat)

lemma div_ge_count: "n * c \<le> l \<Longrightarrow> 0 < c \<Longrightarrow> \<not> l div c < (n :: nat)"
  by (simp add: less_mult_imp_div_less not_less div_less_iff_less_mult)

lemma restoreState_Snapshot:
  assumes "snapshotable m"
  shows "restoreState (Snapshot m) = Inr m"
proof -
  let ?ids = "sorted_list_of_fset (fmdom (sm_sessions m))" and ?ks = "sorted_list_of_fset (fmdom (sm_data m))"
  let ?S = "concat (map (appendSession m []) ?ids)" and ?K = "concat (map (appendKey m []) ?ks)"
  let ?ns = "fcard (fmdom (sm_sessions m))" and ?nk = "fcard (fmdom (sm_data m))"
  have ns: "unat (word_of_nat ?ns :: uint64) = length ?ids"
    and nk: "unat (word_of_nat ?nk :: uint64) = length ?ks"
    using assms by (simp_all add: snapshotable_def unat_of_nat64 length_sorted_list_of_fset)
  have S: "length ?ids * 26 \<le> length ?S" and K: "length ?ks * 13 \<le> length ?K"
    by (intro length_concat_ge length_appendSession_ge length_appendKey_ge)+
  have gs: "\<not> (length ?S + (8 + length ?K)) div 26 < length ?ids"
    using S by (intro div_ge_count) simp_all
  have gk: "\<not> length ?K div 13 < length ?ks"
    using K by (intro div_ge_count) simp_all
  have "\<forall>cid \<in> set ?ids. opt_len_ok (resValue (LastResult (fmget zeroSession (sm_sessions m) cid)))"
    using assms by (auto simp: snapshotable_def fmget_def fmlookup_dom_iff)
  from restoreSessions_append [OF this, where acc = fmempty] have rs: "\<exists>p'. restoreSessions (length ?ids) (dec p (?S @ rest)) fmempty =
      Inr (sm_sessions m, dec p' rest)" for p rest
    by (simp add: fold_fmupd_fmget)
  have "\<forall>k \<in> set ?ks. len_ok k \<and> opt_len_ok (vrValue (fmget zeroRecord (sm_data m) k))"
    using assms by (auto simp: snapshotable_def fmget_def fmlookup_dom_iff)
  from restoreKeys_append [OF this, where rest = "[]" and acc = fmempty]
  have rk: "\<exists>p'. restoreKeys (length ?ks) (dec p ?K) fmempty = Inr (sm_data m, dec p' [])" for p
    by (simp add: fold_fmupd_fmget)
  let ?h = "[snapshotEncodingVersion] @ appendUint64 [] (word_of_nat ?ns)"
  let ?t = "appendUint64 [] (word_of_nat ?nk) @ ?K"
  obtain p1 where p1: "restoreSessions (length ?ids) (dec ?h (?S @ ?t)) fmempty = Inr (sm_sessions m, dec p1 ?t)"
    using rs by blast
  obtain p2 where p2: "restoreKeys (length ?ks) (dec (p1 @ appendUint64 [] (word_of_nat ?nk)) ?K) fmempty =
      Inr (sm_data m, dec p2 [])"
    using rk by blast
  show ?thesis
    using p1 p2 gs gk
    by (simp add: restoreState_def Snapshot_append dec_start d_byte_dec d_uint64_append ns nk)
qed


section \<open>Exactly-once application\<close>

text \<open>
  \<open>runLog\<close> applies a committed command sequence, as the drivers do entry by entry. The
  specification it is compared with has no session table: \<open>freshCmds\<close> keeps a command
  only when its sequence number exceeds every number already seen for its client, and
  \<open>execAll\<close> runs what is left against the store unconditionally.
\<close>

fun runLog :: "StateMachine \<Rightarrow> Command list \<Rightarrow> (Result list \<times> StateMachine) option" where
  "runLog m [] = Some ([], m)"
| "runLog m (c # cs) =
     (case Apply m c of
        None \<Rightarrow> None
      | Some (r, m') \<Rightarrow> map_option (\<lambda>(rs, m''). (r # rs, m'')) (runLog m' cs))"

fun execAll :: "StateMachine \<Rightarrow> Command list \<Rightarrow> StateMachine option" where
  "execAll m [] = Some m"
| "execAll m (c # cs) =
     (case execute m c of None \<Rightarrow> None | Some (r, m') \<Rightarrow> execAll m' cs)"

definition isFresh :: "(uint64 \<rightharpoonup> uint64) \<Rightarrow> Command \<Rightarrow> bool" where
  "isFresh seen c = (case seen (cmdClientID c) of None \<Rightarrow> True | Some s \<Rightarrow> s < cmdSeq c)"

fun freshCmds :: "(uint64 \<rightharpoonup> uint64) \<Rightarrow> Command list \<Rightarrow> Command list" where
  "freshCmds seen [] = []"
| "freshCmds seen (c # cs) =
     (if isFresh seen c then c # freshCmds (seen(cmdClientID c \<mapsto> cmdSeq c)) cs
      else freshCmds seen cs)"

definition lastSeqs :: "StateMachine \<Rightarrow> uint64 \<rightharpoonup> uint64" where
  "lastSeqs m cid = map_option LastSeq (fmlookup (sm_sessions m) cid)"

lemma execute_sessions:
  "execute (m\<lparr>sm_sessions := s\<rparr>) c = map_option (\<lambda>(r, m'). (r, m'\<lparr>sm_sessions := s\<rparr>)) (execute m c)"
  by (simp add: execute_def kv_get_def kv_cas_def Let_def split: option.split)

lemma execute_keeps_sessions: "execute m c = Some (r, m') \<Longrightarrow> sm_sessions m' = sm_sessions m"
  by (auto simp: execute_def kv_cas_def Let_def split: if_splits option.splits)

lemma execAll_sessions:
  "execAll (m\<lparr>sm_sessions := s\<rparr>) cs = map_option (\<lambda>m'. m'\<lparr>sm_sessions := s\<rparr>) (execAll m cs)"
  by (induction cs arbitrary: m) (auto simp: execute_sessions split: option.splits)

lemma Apply_fresh:
  "isFresh (lastSeqs m) c \<Longrightarrow>
   Apply m c = (case execute m c of None \<Rightarrow> None
     | Some (r, m') \<Rightarrow> Some (r, m'\<lparr>sm_sessions :=
         fmupd (cmdClientID c) \<lparr>LastSeq = cmdSeq c, LastResult = r\<rparr> (sm_sessions m)\<rparr>))"
  by (auto simp: Apply_def isFresh_def lastSeqs_def Let_def
        split: option.splits dest: execute_keeps_sessions)

lemma Apply_not_fresh: "\<not> isFresh (lastSeqs m) c \<Longrightarrow> \<exists>r. Apply m c = Some (r, m)"
  by (auto simp: Apply_def isFresh_def lastSeqs_def split: option.splits)

lemma lastSeqs_upd [simp]:
  "lastSeqs (m\<lparr>sm_sessions := fmupd cid sess s\<rparr>) =
     (lastSeqs (m\<lparr>sm_sessions := s\<rparr>))(cid \<mapsto> LastSeq sess)"
  by (auto simp: lastSeqs_def)

lemma lastSeqs_sessions: "lastSeqs (m'\<lparr>sm_sessions := sm_sessions m\<rparr>) = lastSeqs m"
  by (simp add: lastSeqs_def fun_eq_iff)

lemma runLog_data:
  "map_option (\<lambda>x. sm_data (snd x)) (runLog m cs) =
   map_option sm_data (execAll m (freshCmds (lastSeqs m) cs))"
proof (induction cs arbitrary: m)
  case Nil
  then show ?case by simp
next
  case (Cons c cs)
  show ?case
  proof (cases "isFresh (lastSeqs m) c")
    case True
    show ?thesis
    proof (cases "execute m c")
      case None
      with True show ?thesis by (simp add: Apply_fresh)
    next
      case (Some a)
      obtain r m1 where a: "a = (r, m1)" by (cases a)
      let ?m = "m1\<lparr>sm_sessions := fmupd (cmdClientID c) \<lparr>LastSeq = cmdSeq c, LastResult = r\<rparr> (sm_sessions m)\<rparr>"
      have "map_option (\<lambda>x. sm_data (snd x)) (runLog m (c # cs)) =
          map_option (\<lambda>x. sm_data (snd x)) (runLog ?m cs)"
        using Some a True by (simp add: Apply_fresh option.map_comp comp_def split_beta)
      also have "\<dots> = map_option sm_data (execAll ?m (freshCmds (lastSeqs ?m) cs))"
        by (rule Cons.IH)
      also have "lastSeqs ?m = (lastSeqs m)(cmdClientID c \<mapsto> cmdSeq c)"
        by (simp add: lastSeqs_sessions)
      finally show ?thesis
        using Some a True by (simp add: execAll_sessions option.map_comp comp_def fun_upd_def)
    qed
  next
    case False
    then obtain r where "Apply m c = Some (r, m)"
      using Apply_not_fresh by blast
    with False Cons.IH [of m] show ?thesis
      by (simp add: option.map_comp comp_def split_beta)
  qed
qed

text \<open>The session of a client changes only through the client's own commands, and never backwards.\<close>

lemma Apply_other_session:
  "Apply m c = Some (r, m') \<Longrightarrow> cid \<noteq> cmdClientID c \<Longrightarrow>
   fmlookup (sm_sessions m') cid = fmlookup (sm_sessions m) cid"
  by (auto simp: Apply_def Let_def split: option.splits if_splits dest: execute_keeps_sessions)

lemma Apply_own_session:
  assumes "Apply m c = Some (r, m')" and "isFresh (lastSeqs m) c \<or> lastSeqs m (cmdClientID c) = Some (cmdSeq c)"
  shows "fmlookup (sm_sessions m') (cmdClientID c) = Some \<lparr>LastSeq = cmdSeq c, LastResult = r\<rparr>"
  using assms
  by (auto simp: Apply_def isFresh_def lastSeqs_def Let_def split: option.splits if_splits)

lemma Apply_old_session:
  "Apply m x = Some (r, m') \<Longrightarrow> fmlookup (sm_sessions m) (cmdClientID x) = Some sess \<Longrightarrow>
   cmdSeq x \<le> LastSeq sess \<Longrightarrow> m' = m"
  by (auto simp: Apply_def Let_def split: if_splits)

lemma runLog_session:
  assumes "runLog m cs = Some (rs, m')" and "fmlookup (sm_sessions m) cid = Some sess"
    and "\<forall>x \<in> set cs. cmdClientID x = cid \<longrightarrow> cmdSeq x \<le> LastSeq sess"
  shows "fmlookup (sm_sessions m') cid = Some sess"
  using assms
proof (induction cs arbitrary: m rs)
  case Nil
  then show ?case by simp
next
  case (Cons c cs)
  from Cons.prems(1) obtain r m1 rs1 where
    m1: "Apply m c = Some (r, m1)" and rest: "runLog m1 cs = Some (rs1, m')"
    by (auto split: option.splits)
  have "fmlookup (sm_sessions m1) cid = Some sess"
  proof (cases "cmdClientID c = cid")
    case True
    then have "m1 = m"
      using Apply_old_session [OF m1] Cons.prems(2,3) by simp
    with Cons.prems(2) show ?thesis by simp
  next
    case False
    with Apply_other_session [OF m1] Cons.prems(2) show ?thesis by simp
  qed
  with Cons.IH [OF rest] Cons.prems(3) show ?case by simp
qed

section \<open>Properties\<close>

text \<open>
  C11. Snapshot then Restore is the identity on the whole replicated state: data, versions,
  sessions and recorded results, into whatever state machine the snapshot is restored.
\<close>
theorem restore_snapshot:
  "snapshotable m \<Longrightarrow> Restore m0 (Snapshot m) = (None, m)"
  by (simp add: Restore_def restoreState_Snapshot)

definition sample_sm :: StateMachine where
  "sample_sm = \<lparr>sm_data = fmupd [107] \<lparr>vrValue = Some [1, 2], vrVersion = 3\<rparr> fmempty,
     sm_sessions = fmupd 5 \<lparr>LastSeq = 9, LastResult = zeroResult\<rparr> fmempty\<rparr>"

theorem restore_snapshot_witness:
  "snapshotable sample_sm \<and> Restore NewStateMachine (Snapshot sample_sm) = (None, sample_sm)"
proof -
  have "snapshotable sample_sm"
    by (simp add: snapshotable_def sample_sm_def len_ok_def fcard.rep_eq)
  then show ?thesis using restore_snapshot by blast
qed

text \<open>
  C10. Exactly-once apply: applying any command log, with any retries, duplicates and stale
  commands in it, leaves the store exactly as executing only the fresh commands (the first
  occurrence of each client's increasing sequence numbers) against a store with no session
  table, and it panics exactly when that execution does.
\<close>
theorem exactly_once_apply:
  "map_option (\<lambda>x. sm_data (snd x)) (runLog m cs) =
   map_option sm_data (execAll m (freshCmds (lastSeqs m) cs))"
  by (rule runLog_data)

text \<open>
  C12. A retry gets the original answer: once a command has been applied, re-applying it
  after any further commands, as long as its client issued nothing newer, returns the same
  result and changes nothing.
\<close>
theorem retry_same_result:
  assumes "Apply m c = Some (r, m1)"
    and "isFresh (lastSeqs m) c \<or> lastSeqs m (cmdClientID c) = Some (cmdSeq c)"
    and "runLog m1 cs = Some (rs, m2)"
    and "\<forall>x \<in> set cs. cmdClientID x = cmdClientID c \<longrightarrow> cmdSeq x \<le> cmdSeq c"
  shows "Apply m2 c = Some (r, m2)"
proof -
  have "fmlookup (sm_sessions m2) (cmdClientID c) = Some \<lparr>LastSeq = cmdSeq c, LastResult = r\<rparr>"
    using Apply_own_session [OF assms(1,2)] assms(3,4) by (auto intro: runLog_session)
  then show ?thesis by (simp add: Apply_def)
qed

definition sample_put :: "uint64 \<Rightarrow> uint64 \<Rightarrow> Command" where
  "sample_put cid seq = \<lparr>cmdClientID = cid, cmdSeq = seq, cmdOp = OpPut, cmdKey = [107],
     cmdValue = Some [1], cmdExpect = None\<rparr>"

theorem retry_same_result_witness:
  "\<exists>r m2 rs. runLog NewStateMachine [sample_put 1 1, sample_put 2 1] = Some (rs, m2) \<and>
     rs ! 0 = r \<and> resVersion r = 1 \<and> Apply m2 (sample_put 1 1) = Some (r, m2)"
proof -
  define m1 where "m1 = snd (the (Apply NewStateMachine (sample_put 1 1)))"
  define r where "r = fst (the (Apply NewStateMachine (sample_put 1 1)))"
  define m2 where "m2 = snd (the (Apply m1 (sample_put 2 1)))"
  have 1: "Apply NewStateMachine (sample_put 1 1) = Some (r, m1)"
    by (simp add: r_def m1_def Apply_def NewStateMachine_def sample_put_def execute_def Let_def)
  have v: "resVersion r = 1"
    by (simp add: r_def Apply_def NewStateMachine_def sample_put_def execute_def Let_def fmget_def)
  have 2: "\<exists>r2. runLog m1 [sample_put 2 1] = Some ([r2], m2)"
    by (simp add: m2_def m1_def Apply_def NewStateMachine_def sample_put_def execute_def Let_def)
  then obtain r2 where r2: "runLog m1 [sample_put 2 1] = Some ([r2], m2)" by blast
  have "Apply m2 (sample_put 1 1) = Some (r, m2)"
    by (rule retry_same_result [OF 1 _ r2])
       (simp_all add: isFresh_def lastSeqs_def NewStateMachine_def sample_put_def)
  with 1 r2 v show ?thesis by (auto split: option.splits)
qed

end
