(* ===== verification/Server_Drive.thy ===== *)
theory Server_Drive
  imports Raft_Node KV_Machine "HOL-Library.AList"
begin

text \<open>
  The production runtime around the core: the state of \<^verbatim>\<open>server/server.go\<close> and the drive
  loop of \<^verbatim>\<open>server/drive.go\<close>.

  \<open>s.stor\<close> and the storage pointer inside the raft log are the same object, so the storage
  lives in one place here, the log's \<open>lStorage\<close>, and a storage write replaces it there. The
  transport and the response channels are outputs: \<open>srvSent\<close> lists the messages handed to
  \<open>tr.Send\<close>, \<open>srvResp\<close> the answers put on response channels (named by numbers). The waiter
  maps are association lists.
\<close>

section \<open>State\<close>

type_synonym clientKey = "uint64 \<times> uint64"

record opResult =
  orRes :: Result
  orNotLeader :: bool
  orLeaderID :: nat

datatype request = reqPropose Command nat | reqRead bytes nat

record readWaiter =
  rwKey :: bytes
  rwResp :: nat

datatype drive_error = StorageError raft_error | SnapshotRestoreError kv_error

record 'st Server =
  srvNode :: "'st Node"
  srvSM :: StateMachine
  srvApplied :: nat
  srvPrevLeader :: bool
  srvReadToken :: uint64
  srvPendingReads :: "ReadState list"
  srvWriteWaiters :: "(clientKey \<times> nat) list"
  srvReadWaiters :: "(bytes \<times> readWaiter) list"
  srvSent :: "Message list"
  srvResp :: "(nat \<times> opResult) list"

definition srvStor :: "'st Server \<Rightarrow> 'st" where
  "srvStor s = lStorage (raftLog (nr (srvNode s)))"

definition setStor :: "'st \<Rightarrow> 'st Server \<Rightarrow> 'st Server" where
  "setStor st s =
     (let n = srvNode s; r = nr n
      in s\<lparr>srvNode := n\<lparr>nr := r\<lparr>raftLog := (raftLog r)\<lparr>lStorage := st\<rparr>\<rparr>\<rparr>\<rparr>)"

definition respond :: "nat \<Rightarrow> opResult \<Rightarrow> 'st Server \<Rightarrow> 'st Server" where
  "respond ch res s = s\<lparr>srvResp := srvResp s @ [(ch, res)]\<rparr>"

section \<open>Construction\<close>

text \<open>
  \<open>New\<close>, from the point where the storage is open: build the node and resume the state
  machine from the persisted snapshot.
\<close>

datatype new_error = NewNodeError "config_error + raft_error" | RestoreSnapshotError kv_error

definition server_New :: "'st LogStorage \<Rightarrow> Config \<Rightarrow> 'st \<Rightarrow> (new_error + 'st Server) option" where
  "server_New ops rc stor =
     (case NewNode ops rc (Some stor) of
        None \<Rightarrow> None
      | Some (Inl e) \<Rightarrow> Some (Inl (NewNodeError e))
      | Some (Inr node) \<Rightarrow>
          let s = \<lparr>srvNode = node, srvSM = NewStateMachine, srvApplied = 0, srvPrevLeader = False,
                   srvReadToken = 0, srvPendingReads = [], srvWriteWaiters = [], srvReadWaiters = [],
                   srvSent = [], srvResp = []\<rparr>
          in case opSnapshot ops stor of
               Inl _ \<Rightarrow> Some (Inr s)
             | Inr snap \<Rightarrow>
                 if 0 < snIndex snap then
                   (if 0 < length (snData snap) then
                      (case Restore (srvSM s) (snData snap) of
                         (Some e, _) \<Rightarrow> Some (Inl (RestoreSnapshotError e))
                       | (None, sm) \<Rightarrow> Some (Inr (s\<lparr>srvSM := sm, srvApplied := snIndex snap\<rparr>)))
                    else Some (Inr (s\<lparr>srvApplied := snIndex snap\<rparr>)))
                 else Some (Inr s))"

section \<open>Client requests\<close>

definition notLeaderResult :: "'st Server \<Rightarrow> opResult" where
  "notLeaderResult s = \<lparr>orRes = zeroResult, orNotLeader = True, orLeaderID = Node_Leader (srvNode s)\<rparr>"

definition handleRequest :: "'st LogStorage \<Rightarrow> request \<Rightarrow> 'st Server \<Rightarrow> 'st Server option" where
  "handleRequest ops req s =
     (case req of
        reqPropose cmd ch \<Rightarrow> do {
          (e, n) \<leftarrow> Node_Step ops (message0\<lparr>mType := MsgPropose,
             mEntries := [\<lparr>eTerm = 0, eIndex = 0, eType = EntryNormal, eData = EncodeCommand cmd\<rparr>]\<rparr>) (srvNode s);
          let s = s\<lparr>srvNode := n\<rparr>;
          if e \<noteq> None then Some (respond ch (notLeaderResult s) s)
          else Some (s\<lparr>srvWriteWaiters := AList.update (cmdClientID cmd, cmdSeq cmd) ch (srvWriteWaiters s)\<rparr>) }
      | reqRead key ch \<Rightarrow> do {
          let s = s\<lparr>srvReadToken := srvReadToken s + 1\<rparr>;
          let token = be_bytes 8 (unat (srvReadToken s));
          (e, n) \<leftarrow> Node_Step ops (message0\<lparr>mType := MsgReadIndex, mContext := token\<rparr>) (srvNode s);
          let s = s\<lparr>srvNode := n\<rparr>;
          if e \<noteq> None then Some (respond ch (notLeaderResult s) s)
          else Some (s\<lparr>srvReadWaiters := AList.update token \<lparr>rwKey = key, rwResp = ch\<rparr> (srvReadWaiters s)\<rparr>) })"

section \<open>Applying and answering\<close>

definition serveRead :: "ReadState \<Rightarrow> 'st Server \<Rightarrow> 'st Server" where
  "serveRead rs s =
     (case map_of (srvReadWaiters s) (rsRequestCtx rs) of
        None \<Rightarrow> s
      | Some w \<Rightarrow>
          let s = s\<lparr>srvReadWaiters := AList.delete (rsRequestCtx rs) (srvReadWaiters s)\<rparr>
          in respond (rwResp w) \<lparr>orRes = Read (srvSM s) (rwKey w), orNotLeader = False, orLeaderID = 0\<rparr> s)"

fun servePendingLoop :: "ReadState list \<Rightarrow> 'st Server \<Rightarrow> ReadState list \<times> 'st Server" where
  "servePendingLoop [] s = ([], s)"
| "servePendingLoop (rs # rss) s =
     (if rsIndex rs \<le> srvApplied s then servePendingLoop rss (serveRead rs s)
      else let (kept, s) = servePendingLoop rss s in (rs # kept, s))"

definition servePendingReads :: "'st Server \<Rightarrow> 'st Server" where
  "servePendingReads s =
     (if length (srvPendingReads s) = 0 then s
      else let (kept, s) = servePendingLoop (srvPendingReads s) s in s\<lparr>srvPendingReads := kept\<rparr>)"

definition releaseRead :: "ReadState \<Rightarrow> 'st Server \<Rightarrow> 'st Server" where
  "releaseRead rs s =
     (if rsIndex rs \<le> srvApplied s then serveRead rs s
      else s\<lparr>srvPendingReads := srvPendingReads s @ [rs]\<rparr>)"

text \<open>\<open>None\<close> is the panic of the state machine on an invalid operation.\<close>

definition applyEntry :: "Entry \<Rightarrow> 'st Server \<Rightarrow> 'st Server option" where
  "applyEntry e s =
     (if eIndex e \<le> srvApplied s then Some s
      else
        let s = s\<lparr>srvApplied := eIndex e\<rparr>
        in if eType e = EntryNormal \<and> 0 < length (eData e) then
             (case DecodeCommand (eData e) of
                Inl _ \<Rightarrow> Some s
              | Inr cmd \<Rightarrow> do {
                  (res, sm) \<leftarrow> Apply (srvSM s) cmd;
                  let s = s\<lparr>srvSM := sm\<rparr>;
                  let k = (cmdClientID cmd, cmdSeq cmd);
                  let s = (case map_of (srvWriteWaiters s) k of
                             None \<Rightarrow> s
                           | Some ch \<Rightarrow>
                               (respond ch \<lparr>orRes = res, orNotLeader = False, orLeaderID = 0\<rparr> s)
                                 \<lparr>srvWriteWaiters := AList.delete k (srvWriteWaiters s)\<rparr>);
                  Some (servePendingReads s) })
           else Some (servePendingReads s))"

definition checkLeadership :: "'st Server \<Rightarrow> 'st Server" where
  "checkLeadership s =
     (let isLeader = (Node_State (srvNode s) = StateLeader);
          s = (if srvPrevLeader s \<and> \<not> isLeader then
                 let res = notLeaderResult s;
                     s = fold (\<lambda>(k, ch). respond ch res) (srvWriteWaiters s) s;
                     s = fold (\<lambda>(k, w). respond (rwResp w) res) (srvReadWaiters s) s
                 in s\<lparr>srvWriteWaiters := [], srvReadWaiters := [], srvPendingReads := []\<rparr>
               else s)
      in s\<lparr>srvPrevLeader := isLeader\<rparr>)"

section \<open>Draining a Ready batch\<close>

text \<open>
  The body of the loop in \<open>drain\<close>, one function per effect, in the order of the code. Between
  any two of them the process may crash, which \<^verbatim>\<open>Cluster\<close> exploits.
\<close>

definition persistSnapshot :: "'st LogStorage \<Rightarrow> Ready \<Rightarrow> 'st Server \<Rightarrow> (drive_error + 'st Server) option" where
  "persistSnapshot ops rd s =
     (case rdSnapshot rd of
        None \<Rightarrow> Some (Inr s)
      | Some snap \<Rightarrow>
          let (e, st) = opApplySnapshot ops (srvStor s) snap; s = setStor st s
          in case e of
               Some err \<Rightarrow> if err \<noteq> ErrCompacted then Some (Inl (StorageError err)) else Some (Inr s)
             | None \<Rightarrow> Some (Inr s))"

definition persistEntries :: "'st LogStorage \<Rightarrow> Ready \<Rightarrow> 'st Server \<Rightarrow> (drive_error + 'st Server) option" where
  "persistEntries ops rd s =
     (if 0 < length (rdEntries rd) then do {
        (e, st) \<leftarrow> opAppendEntries ops (srvStor s) (rdEntries rd);
        case e of Some err \<Rightarrow> Some (Inl (StorageError err)) | None \<Rightarrow> Some (Inr (setStor st s)) }
      else Some (Inr s))"

definition persistHardState :: "'st LogStorage \<Rightarrow> Ready \<Rightarrow> 'st Server \<Rightarrow> (drive_error + 'st Server) option" where
  "persistHardState ops rd s =
     (case rdHardState rd of
        None \<Rightarrow> Some (Inr s)
      | Some hs \<Rightarrow>
          let (e, st) = opSetHardState ops (srvStor s) hs; s = setStor st s
          in case e of Some err \<Rightarrow> Some (Inl (StorageError err)) | None \<Rightarrow> Some (Inr s))"

definition syncReady :: "('st \<Rightarrow> raft_error option \<times> 'st) \<Rightarrow> Ready \<Rightarrow> 'st Server \<Rightarrow> (drive_error + 'st Server) option" where
  "syncReady sync rd s =
     (if rdMustSync rd then
        let (e, st) = sync (srvStor s); s = setStor st s
        in case e of Some err \<Rightarrow> Some (Inl (StorageError err)) | None \<Rightarrow> Some (Inr s)
      else Some (Inr s))"

definition sendReady :: "Ready \<Rightarrow> 'st Server \<Rightarrow> 'st Server" where
  "sendReady rd s =
     (if 0 < length (rdMessages rd) then s\<lparr>srvSent := srvSent s @ rdMessages rd\<rparr> else s)"

definition applyReady :: "Ready \<Rightarrow> 'st Server \<Rightarrow> (drive_error + 'st Server) option" where
  "applyReady rd s =
     (case (case rdSnapshot rd of
              None \<Rightarrow> Inr s
            | Some snap \<Rightarrow>
                res_bind
                  (if 0 < length (snData snap) then
                     (case Restore (srvSM s) (snData snap) of
                        (Some e, _) \<Rightarrow> Inl (SnapshotRestoreError e)
                      | (None, sm) \<Rightarrow> Inr (s\<lparr>srvSM := sm\<rparr>))
                   else Inr s)
                  (\<lambda>s. Inr (if srvApplied s < snIndex snap then s\<lparr>srvApplied := snIndex snap\<rparr> else s))) of
        Inl e \<Rightarrow> Some (Inl e)
      | Inr s \<Rightarrow> do {
          s \<leftarrow> fold_opt applyEntry (rdCommittedEntries rd) s;
          Some (Inr (fold releaseRead (rdReadStates rd) s)) })"

text \<open>Chaining steps that can panic (\<open>None\<close>) or return an error (\<open>Inl\<close>).\<close>

definition and_then :: "('e + 'a) option \<Rightarrow> ('a \<Rightarrow> ('e + 'b) option) \<Rightarrow> ('e + 'b) option" where
  "and_then x f = (case x of None \<Rightarrow> None | Some (Inl e) \<Rightarrow> Some (Inl e) | Some (Inr a) \<Rightarrow> f a)"

definition drainOnce ::
  "'st LogStorage \<Rightarrow> ('st \<Rightarrow> raft_error option \<times> 'st) \<Rightarrow> 'st Server \<Rightarrow> (drive_error + 'st Server) option" where
  "drainOnce ops sync s = do {
     (rd, n) \<leftarrow> Node_Ready ops (srvNode s);
     let s = s\<lparr>srvNode := n\<rparr>;
     and_then (persistSnapshot ops rd s) (\<lambda>s.
     and_then (persistEntries ops rd s) (\<lambda>s.
     and_then (persistHardState ops rd s) (\<lambda>s.
     and_then (syncReady sync rd s) (\<lambda>s.
     and_then (applyReady rd (sendReady rd s)) (\<lambda>s. do {
       n \<leftarrow> Advance (srvNode s);
       Some (Inr (s\<lparr>srvNode := n\<rparr>)) }))))) }"

text \<open>The loop, with fuel: \<open>None\<close> when it panics or the fuel runs out.\<close>

fun drainLoop ::
  "nat \<Rightarrow> 'st LogStorage \<Rightarrow> ('st \<Rightarrow> raft_error option \<times> 'st) \<Rightarrow> 'st Server \<Rightarrow> (drive_error + 'st Server) option" where
  "drainLoop 0 ops sync s = None"
| "drainLoop (Suc fuel) ops sync s = do {
     more \<leftarrow> HasReady ops (srvNode s);
     if more then and_then (drainOnce ops sync s) (drainLoop fuel ops sync)
     else Some (Inr s) }"

definition drain ::
  "nat \<Rightarrow> 'st LogStorage \<Rightarrow> ('st \<Rightarrow> raft_error option \<times> 'st) \<Rightarrow> 'st Server \<Rightarrow> (drive_error + 'st Server) option" where
  "drain fuel ops sync s = drainLoop fuel ops sync (checkLeadership s)"

section \<open>The drive loop\<close>

datatype drive_event = TickEvent | RecvEvent Message | RequestEvent request

definition driveEvent ::
  "nat \<Rightarrow> 'st LogStorage \<Rightarrow> ('st \<Rightarrow> raft_error option \<times> 'st) \<Rightarrow> drive_event \<Rightarrow> 'st Server \<Rightarrow>
     (drive_error + 'st Server) option" where
  "driveEvent fuel ops sync ev s =
     (case ev of
        TickEvent \<Rightarrow> do { n \<leftarrow> Tick ops (srvNode s); drain fuel ops sync (s\<lparr>srvNode := n\<rparr>) }
      | RecvEvent m \<Rightarrow> do { (_, n) \<leftarrow> Node_Step ops m (srvNode s); drain fuel ops sync (s\<lparr>srvNode := n\<rparr>) }
      | RequestEvent req \<Rightarrow> do { s \<leftarrow> handleRequest ops req s; drain fuel ops sync s })"

end
