(* ===== verification/Cluster_Safety.thy ===== *)
theory Cluster_Safety
  imports Cluster Mem_Storage
begin

text \<open>
  Election safety of the cluster. The invariant ties each announced vote to every storage
  state a crash could leave (the voter stands by it), each ballot a candidate counts to a
  grant on the network, and each past election to a majority of announced votes. It rests on
  the drive loop's order, persist before send, and on \<open>MustSync\<close> being set whenever the term
  or the vote changed.
\<close>

section \<open>The invariant\<close>

definition is_grant :: "Message \<Rightarrow> bool" where
  "is_grant m \<longleftrightarrow> mType m = MsgVoteResp \<and> \<not> mReject m"

text \<open>A message is well-formed, and a grant answers a vote request that was sent.\<close>

definition msg_ok :: "Message set \<Rightarrow> Message \<Rightarrow> bool" where
  "msg_ok N m \<longleftrightarrow>
     (mType m \<in> {MsgAppend, MsgHeartbeat, MsgInstallSnapshot, MsgVote} \<longrightarrow> 0 < mTerm m) \<and>
     (is_grant m \<longrightarrow> 0 < mTerm m \<and>
        (\<exists>m' \<in> N. mType m' = MsgVote \<and> mFrom m' = mTo m \<and> mTerm m' = mTerm m))"

definition net_ok :: "nat set \<Rightarrow> Message set \<Rightarrow> bool" where
  "net_ok P N \<longleftrightarrow> (\<forall>m \<in> N. mFrom m \<in> P \<and> msg_ok N m)"

definition ballots_ok :: "Message set \<Rightarrow> 'st raft \<Rightarrow> bool" where
  "ballots_ok N r \<longleftrightarrow>
     (rstate r = StateCandidate \<longrightarrow>
        distinct (map fst (votes r)) \<and>
        (\<forall>j. (j, True) \<in> set (votes r) \<longrightarrow>
           j = rid r \<or> (\<exists>m \<in> N. is_grant m \<and> mFrom m = j \<and> mTo m = rid r \<and> mTerm m = rTerm r)))"

definition node_ok :: "nat set \<Rightarrow> Message set \<Rightarrow> (nat \<times> nat) set \<Rightarrow> 'st raft \<Rightarrow> bool" where
  "node_ok P N E r \<longleftrightarrow>
     rid r \<in> P \<and> set (peers r) = P \<and> distinct (peers r) \<and> elec_ok r \<and>
     tv_le (hsTerm (prevHardSt r)) (hsVote (prevHardSt r)) (rTerm r) (rVote r) \<and>
     (\<forall>m \<in> set (msgs r). mFrom m = rid r \<and> msg_ok N m \<and>
        (\<forall>(j, u, x) \<in> promises m. stands_by (rTerm r) (rVote r) u x)) \<and>
     ballots_ok N r \<and> (rstate r = StateLeader \<longrightarrow> (rTerm r, rid r) \<in> E)"

text \<open>The batch a server works on, as \<open>Ready\<close> computed it.\<close>

definition batch_ok :: "'st Node \<Rightarrow> Ready \<Rightarrow> bool" where
  "batch_ok n rd \<longleftrightarrow>
     pendingReady n = Some rd \<and> rdMessages rd = msgs (nr n) \<and>
     rdHardState rd = (if hardState (nr n) \<noteq> prevHardSt (nr n) then Some (hardState (nr n)) else None) \<and>
     (rTerm (nr n) \<noteq> hsTerm (prevHardSt (nr n)) \<or> rVote (nr n) \<noteq> hsVote (prevHardSt (nr n)) \<longrightarrow> rdMustSync rd)"

definition holds :: "('st \<Rightarrow> HardState) \<Rightarrow> nat \<Rightarrow> nat \<Rightarrow> 'st \<Rightarrow> bool" where
  "holds hsOf t v st \<longleftrightarrow> hsTerm (hsOf st) = t \<and> hsVote (hsOf st) = v"

text \<open>How far the durable states have caught up with the node, by program counter.\<close>

definition durable_ok :: "('st \<Rightarrow> HardState) \<Rightarrow> 'st Server \<Rightarrow> pc \<Rightarrow> 'st list \<Rightarrow> bool" where
  "durable_ok hsOf s pc h \<longleftrightarrow>
     (let n = srvNode s; r = nr n;
          old = holds hsOf (hsTerm (prevHardSt r)) (hsVote (prevHardSt r));
          new = holds hsOf (rTerm r) (rVote r);
          before = ((\<forall>st \<in> set h. old st) \<and> old (srvStor s));
          after = ((\<forall>st \<in> set h. new st) \<and> new (srvStor s))
      in case pc of
           Idle \<Rightarrow> before
         | PersistSnap rd \<Rightarrow> batch_ok n rd \<and> before
         | PersistEnts rd \<Rightarrow> batch_ok n rd \<and> before
         | PersistHS rd \<Rightarrow> batch_ok n rd \<and> before
         | Syncing rd \<Rightarrow> batch_ok n rd \<and> (\<forall>st \<in> set h. old st \<or> new st) \<and> new (srvStor s)
         | Sending rd \<Rightarrow> batch_ok n rd \<and> after
         | Applying rd \<Rightarrow> batch_ok n rd \<and> after
         | Advancing rd \<Rightarrow> batch_ok n rd \<and> after)"

definition outbox :: "'st proc \<Rightarrow> Message set" where
  "outbox p = (case up p of None \<Rightarrow> {} | Some (s, pc) \<Rightarrow> set (msgs (nr (srvNode s))))"

text \<open>In each term, the votes a server has announced or is about to announce are for one candidate.\<close>

definition one_vote :: "nat \<Rightarrow> Message set \<Rightarrow> bool" where
  "one_vote i N \<longleftrightarrow> (\<forall>u x y. (i, u, x) \<in> announced N \<longrightarrow> (i, u, y) \<in> announced N \<longrightarrow> x = y)"

lemma outbox_simps [simp]:
  "outbox \<lparr>up = None, hist = h\<rparr> = {}"
  "outbox \<lparr>up = Some (s, pc), hist = h\<rparr> = set (msgs (nr (srvNode s)))"
  by (simp_all add: outbox_def)

lemma one_vote_mono: "one_vote i N' \<Longrightarrow> N \<subseteq> N' \<Longrightarrow> one_vote i N"
  unfolding one_vote_def announced_def by blast

definition proc_ok ::
  "('st \<Rightarrow> HardState) \<Rightarrow> nat set \<Rightarrow> Message set \<Rightarrow> (nat \<times> nat) set \<Rightarrow> nat \<Rightarrow> 'st proc \<Rightarrow> bool" where
  "proc_ok hsOf P N E i p \<longleftrightarrow>
     hist p \<noteq> [] \<and> one_vote i (N \<union> outbox p) \<and>
     (\<forall>st \<in> set (hist p). \<forall>u x. (i, u, x) \<in> announced N \<longrightarrow>
        stands_by (hsTerm (hsOf st)) (hsVote (hsOf st)) u x) \<and>
     (case up p of
        None \<Rightarrow> True
      | Some (s, pc) \<Rightarrow>
          rid (nr (srvNode s)) = i \<and> node_ok P N E (nr (srvNode s)) \<and> durable_ok hsOf s pc (hist p))"

definition won :: "nat set \<Rightarrow> Message set \<Rightarrow> nat \<Rightarrow> nat \<Rightarrow> bool" where
  "won P N t a \<longleftrightarrow> P = {a} \<or> (\<exists>Q \<in> majorities P. \<forall>j \<in> Q. (j, t, a) \<in> announced N)"

definition cinv :: "('st \<Rightarrow> HardState) \<Rightarrow> nat set \<Rightarrow> 'st cluster \<Rightarrow> bool" where
  "cinv hsOf P c \<longleftrightarrow>
     finite P \<and> NoNode \<notin> P \<and> net_ok P (net c) \<and>
     (\<forall>(t, a) \<in> elections c. a \<in> P \<and> won P (net c) t a) \<and>
     (\<forall>i \<in> P. proc_ok hsOf P (net c) (elections c) i (procs c i))"

section \<open>Monotonicity in the network and the history\<close>

lemma msg_ok_mono: "msg_ok N m \<Longrightarrow> N \<subseteq> N' \<Longrightarrow> msg_ok N' m"
  by (auto simp: msg_ok_def)

lemma announced_mono: "N \<subseteq> N' \<Longrightarrow> announced N \<subseteq> announced N'"
  by (auto simp: announced_def)

lemma announced_Un: "announced (A \<union> B) = announced A \<union> announced B"
  by (auto simp: announced_def)

lemma won_mono: "won P N t a \<Longrightarrow> N \<subseteq> N' \<Longrightarrow> won P N' t a"
  using announced_mono [of N N'] unfolding won_def by blast

lemma node_ok_mono:
  assumes "node_ok P N E r" and "N \<subseteq> N'" and "E \<subseteq> E'"
  shows "node_ok P N' E' r"
proof -
  have "ballots_ok N' r" using assms(1,2) by (fastforce simp: node_ok_def ballots_ok_def)
  with assms msg_ok_mono [OF _ assms(2)] show ?thesis by (auto simp: node_ok_def)
qed

lemma proc_ok_mono:
  assumes "proc_ok hsOf P N E i p" and "E \<subseteq> E'" and "N \<subseteq> N'"
    and "\<And>u x. (i, u, x) \<in> announced N' \<Longrightarrow> (i, u, x) \<in> announced N"
  shows "proc_ok hsOf P N' E' i p"
proof -
  have "one_vote i (N' \<union> outbox p)"
    using assms(1,4) unfolding proc_ok_def one_vote_def announced_Un by blast
  with assms node_ok_mono [OF _ assms(3,2)] show ?thesis by (auto simp: proc_ok_def split: option.splits)
qed

lemma net_ok_safe:
  assumes "net_ok P N" and "NoNode \<notin> P" and "m \<in> N"
  shows "safe_msg m"
proof -
  have "mFrom m \<in> P" "msg_ok N m" using assms by (auto simp: net_ok_def)
  moreover have "mFrom m \<noteq> NoNode" using calculation assms(2) by metis
  ultimately show ?thesis by (auto simp: msg_ok_def safe_msg_def is_grant_def)
qed

section \<open>Inputs to a node\<close>

text \<open>A vote or a vote request reaching a node is a message on the network addressed to it.\<close>

definition input_ok :: "Message set \<Rightarrow> 'st raft \<Rightarrow> Message \<Rightarrow> bool" where
  "input_ok N r m \<longleftrightarrow> m \<in> N \<and> mTo m = rid r \<or> mType m \<notin> {MsgVote, MsgVoteResp}"

lemma promise_candidate:
  assumes "msg_ok N m" and "net_ok P N" and "mFrom m \<in> P" and "(j, u, x) \<in> promises m"
  shows "x \<in> P"
  using assms by (auto simp: promises_def msg_ok_def net_ok_def is_grant_def split: if_splits)

lemma moves_outbox:
  assumes "moves m r r'" and "node_ok P N E r" and "net_ok P N" and "NoNode \<notin> P" and "input_ok N r m"
    and "x \<in> set (msgs r')"
  shows "mFrom x = rid r' \<and> msg_ok N x \<and> (\<forall>(j, u, y) \<in> promises x. stands_by (rTerm r') (rVote r') u y)"
proof -
  have id: "rid r' = rid r" using assms(1) by (simp add: moves_def same_frame_def)
  obtain ms where ms: "msgs r' = msgs r @ ms" "\<forall>x \<in> set ms. out_ok m r' x"
    using assms(1) by (auto simp: moves_def emits_def)
  show ?thesis
  proof (cases "x \<in> set (msgs r)")
    case True
    then have x: "mFrom x = rid r" "msg_ok N x" "\<forall>(j, u, y) \<in> promises x. stands_by (rTerm r) (rVote r) u y" "rid r \<in> P"
      using assms(2) by (auto simp: node_ok_def)
    have "stands_by (rTerm r') (rVote r') u y" if "(j, u, y) \<in> promises x" for j u y
    proof -
      have "y \<in> P" using promise_candidate [OF x(2) assms(3) _ that] x(1,4) by simp
      then have "y \<noteq> NoNode" using assms(4) by metis
      moreover have "stands_by (rTerm r) (rVote r) u y" using x(3) that by auto
      ultimately show ?thesis using stands_by_mono assms(1) by (auto simp: moves_def)
    qed
    with x id show ?thesis by auto
  next
    case False
    with ms assms(6) have "out_ok m r' x" by auto
    with assms(5) id show ?thesis
      by (auto simp: out_ok_def msg_ok_def is_grant_def input_ok_def promises_def stands_by_def)
  qed
qed

text \<open>A vote added to the outbox is the recorded one.\<close>

lemma moves_new_promise:
  assumes "moves m r r'" and "(j, u, x) \<in> announced (set (msgs r'))" and "(j, u, x) \<notin> announced (set (msgs r))"
  shows "u = rTerm r' \<and> x = rVote r'"
proof -
  obtain ms where ms: "msgs r' = msgs r @ ms" "\<forall>x \<in> set ms. out_ok m r' x"
    using assms(1) by (auto simp: moves_def emits_def)
  with assms(2,3) obtain y where "y \<in> set ms" "(j, u, x) \<in> promises y"
    by (auto simp: announced_def)
  with ms(2) show ?thesis by (auto simp: out_ok_def promises_def split: if_split_asm)
qed

lemma recordVote_ballots:
  assumes "ballots_ok N r" and "rstate r = StateCandidate" and "input_ok N r m" and "mType m = MsgVoteResp"
    and "mReject m \<or> mTerm m = rTerm r"
  shows "ballots_ok N (recordVote (mFrom m) (\<not> mReject m) r)"
proof (cases "map_of (votes r) (mFrom m) = None")
  case True
  then have "mFrom m \<notin> fst ` set (votes r)" by (simp add: map_of_eq_None_iff)
  with assms True show ?thesis
    by (auto simp: ballots_ok_def recordVote_def input_ok_def is_grant_def)
next
  case False
  then have "recordVote (mFrom m) (\<not> mReject m) r = r" by (auto simp: recordVote_def)
  with assms(1) show ?thesis by simp
qed

lemma moves_ballots:
  assumes "moves m r r'" and "ballots_ok N r" and "input_ok N r m"
  shows "ballots_ok N r'"
proof (cases "rstate r' = StateCandidate")
  case True
  have id: "rid r' = rid r" using assms(1) by (simp add: moves_def same_frame_def)
  from True assms(1) have "ballots_from m r r'" by (simp add: moves_def)
  then consider "votes r' = [(rid r, True)]"
    | "rstate r = StateCandidate" "rTerm r' = rTerm r" "votes r' = votes r"
    | "rstate r = StateCandidate" "rTerm r' = rTerm r" "mType m = MsgVoteResp" "mReject m \<or> mTerm m = rTerm r"
      "votes r' = votes (recordVote (mFrom m) (\<not> mReject m) r)"
    by (auto simp: ballots_from_def)
  then show ?thesis
  proof cases
    case 3
    with recordVote_ballots [OF assms(2) 3(1) assms(3) 3(3,4)] id show ?thesis by (simp add: ballots_ok_def)
  qed (use assms(2) id in \<open>auto simp: ballots_ok_def\<close>)
qed (simp add: ballots_ok_def)

text \<open>The ballots a new leader counted form a majority of announced votes.\<close>

lemma granted_card:
  assumes "distinct (map fst vs)"
  shows "card {j. (j, True) \<in> set vs} = length (filter snd vs)"
proof -
  have "{j. (j, True) \<in> set vs} = fst ` set (filter snd vs)" by force
  moreover have "distinct (map fst (filter snd vs))" using assms by (simp add: distinct_map_filter)
  ultimately show ?thesis by (metis distinct_card length_map set_map)
qed

lemma majority_won:
  assumes "ballots_ok N r" and "rstate r = StateCandidate" and "quorum r \<le> tallyGranted r"
    and "net_ok P N" and "set (peers r) = P" and "distinct (peers r)" and "rid r \<in> P"
  shows "won P N (rTerm r) (rid r)"
proof -
  let ?Q = "{j. (j, True) \<in> set (votes r)}"
  have card: "card ?Q = tallyGranted r" "finite P" "quorum r = card P div 2 + 1"
    using assms(1,2,5,6) granted_card [of "votes r"]
    by (auto simp: ballots_ok_def tallyGranted_def quorum_def distinct_card)
  have grant: "\<exists>m \<in> N. is_grant m \<and> mFrom m = j \<and> mTo m = rid r \<and> mTerm m = rTerm r"
    if "j \<in> ?Q" "j \<noteq> rid r" for j
    using that assms(1,2) by (auto simp: ballots_ok_def)
  then have ann: "(j, rTerm r, rid r) \<in> announced N" if "j \<in> ?Q" "j \<noteq> rid r" for j
    using that by (force simp: announced_def promises_def is_grant_def)
  have sub: "?Q \<subseteq> P" using grant assms(4,7) by (force simp: net_ok_def)
  show ?thesis
  proof (cases "\<exists>j \<in> ?Q. j \<noteq> rid r")
    case True
    then obtain j m where "m \<in> N" "is_grant m" "mTo m = rid r" "mTerm m = rTerm r" using grant by blast
    then obtain m' where "m' \<in> N" "mType m' = MsgVote" "mFrom m' = rid r" "mTerm m' = rTerm r"
      using assms(4) by (force simp: net_ok_def msg_ok_def)
    then have "(rid r, rTerm r, rid r) \<in> announced N" by (force simp: announced_def promises_def)
    with ann have "\<forall>j \<in> ?Q. (j, rTerm r, rid r) \<in> announced N" by metis
    moreover have "?Q \<in> majorities P" using card sub assms(3) by (simp add: majorities_def)
    ultimately show ?thesis unfolding won_def by blast
  next
    case False
    then have "?Q \<subseteq> {rid r}" by blast
    then have "card ?Q \<le> 1" by (metis card_mono finite.emptyI finite_insert is_singletonI is_singleton_altdef)
    then have "card P \<le> 1" using card assms(3) by simp
    then have "P = {rid r}" using assms(7) card(2)
      by (metis One_nat_def card_le_Suc0_iff_eq insert_absorb is_singletonI' is_singleton_the_elem empty_iff singleton_iff)
    then show ?thesis by (simp add: won_def)
  qed
qed

lemma moves_leader:
  assumes "moves m r r'" and "node_ok P N E r" and "net_ok P N" and "input_ok N r m" and "rstate r' = StateLeader"
  shows "(rTerm r', rid r') \<in> E \<or> won P N (rTerm r') (rid r')"
proof -
  have id: "rid r' = rid r" using assms(1) by (simp add: moves_def same_frame_def)
  have r: "set (peers r) = P" "distinct (peers r)" "rid r \<in> P" "ballots_ok N r" "rstate r = StateLeader \<longrightarrow> (rTerm r, rid r) \<in> E"
    using assms(2) by (auto simp: node_ok_def)
  from assms(1,5) have "elected_by m r r'" by (simp add: moves_def)
  then consider "rstate r = StateLeader" "rTerm r' = rTerm r" | "quorum r \<le> 1"
    | "rstate r = StateCandidate" "rTerm r' = rTerm r" "mType m = MsgVoteResp" "mReject m \<or> mTerm m = rTerm r"
      "quorum r \<le> tallyGranted (recordVote (mFrom m) (\<not> mReject m) r)"
    by (auto simp: elected_by_def)
  then show ?thesis
  proof cases
    case 2
    then have "length (peers r) \<le> 1" by (simp add: quorum_def)
    then have "P = {rid r}" using r(1,3) by (cases "peers r") auto
    with id show ?thesis by (simp add: won_def)
  next
    case 3
    have "won P N (rTerm (recordVote (mFrom m) (\<not> mReject m) r)) (rid (recordVote (mFrom m) (\<not> mReject m) r))"
      using recordVote_ballots [OF r(4) 3(1) assms(4) 3(3,4)] 3(1,5) assms(3) r(1-3) by (intro majority_won) auto
    with 3(2) id show ?thesis by simp
  qed (use r(5) id in simp)
qed

lemma moves_node_ok:
  assumes "moves m r r'" and "node_ok P N E r" and "net_ok P N" and "NoNode \<notin> P" and "input_ok N r m"
    and "rstate r' = StateLeader \<longrightarrow> (rTerm r', rid r') \<in> E'" and "E \<subseteq> E'"
  shows "node_ok P N E' r'"
proof -
  have f: "same_frame r r'" "tv_le (rTerm r) (rVote r) (rTerm r') (rVote r')" "elec_ok r'"
    using assms(1) by (auto simp: moves_def)
  have "ballots_ok N r'" using moves_ballots assms(1,2,5) by (auto simp: node_ok_def)
  moreover have "tv_le (hsTerm (prevHardSt r')) (hsVote (prevHardSt r')) (rTerm r') (rVote r')"
    using f assms(2) tv_le_trans by (auto simp: node_ok_def same_frame_def)
  ultimately show ?thesis
    using f assms(2,6) moves_outbox [OF assms(1-5)] by (auto simp: node_ok_def same_frame_def)
qed

section \<open>The drive loop leaves the node alone\<close>

lemma respond_node [simp]: "srvNode (respond ch res s) = srvNode s"
  by (simp add: respond_def)

lemma serveRead_node [simp]: "srvNode (serveRead rs s) = srvNode s"
  by (simp add: serveRead_def Let_def split: option.split)

lemma servePendingLoop_node: "servePendingLoop rss s = (kept, s') \<Longrightarrow> srvNode s' = srvNode s"
  by (induction rss arbitrary: s kept) (auto split: if_split_asm prod.split_asm)

lemma servePendingReads_node [simp]: "srvNode (servePendingReads s) = srvNode s"
  by (auto simp: servePendingReads_def dest: servePendingLoop_node split: prod.split)

lemma releaseRead_node [simp]: "srvNode (releaseRead rs s) = srvNode s"
  by (simp add: releaseRead_def)

lemma applyEntry_node: "applyEntry e s = Some s' \<Longrightarrow> srvNode s' = srvNode s"
  by (auto simp: applyEntry_def Let_def elim!: bind_SomeE split: if_split_asm sum.split_asm option.split_asm)

lemma fold_releaseRead_node [simp]: "srvNode (fold releaseRead rss s) = srvNode s"
  by (induction rss arbitrary: s) simp_all

lemma fold_applyEntry_node: "fold_opt applyEntry es s = Some s' \<Longrightarrow> srvNode s' = srvNode s"
  by (erule fold_opt_rel [where R = "\<lambda>s s'. srvNode s' = srvNode s"]) (auto dest: applyEntry_node)

lemma applyReady_node: "applyReady rd s = Some (Inr s') \<Longrightarrow> srvNode s' = srvNode s"
  by (auto simp: applyReady_def res_bind_eq_Inr elim!: bind_SomeE dest!: fold_applyEntry_node
      split: option.split_asm sum.split_asm if_split_asm prod.split_asm)

lemma fold_respond_node:
  "srvNode (fold (\<lambda>(k, ch). respond ch res) ws s) = srvNode s"
  "srvNode (fold (\<lambda>(k, w). respond (rwResp w) res) rws s) = srvNode s"
  by (induction ws arbitrary: s; auto) (induction rws arbitrary: s; auto)

lemma checkLeadership_node [simp]: "srvNode (checkLeadership s) = srvNode s"
  by (simp add: checkLeadership_def Let_def fold_respond_node)

lemma sendReady_node [simp]: "srvNode (sendReady rd s) = srvNode s"
  by (simp add: sendReady_def)

lemma setStor_simps [simp]:
  "srvStor (setStor st s) = st" "rid (nr (srvNode (setStor st s))) = rid (nr (srvNode s))"
  "prevHardSt (nr (srvNode (setStor st s))) = prevHardSt (nr (srvNode s))"
  "rTerm (nr (srvNode (setStor st s))) = rTerm (nr (srvNode s))"
  "rVote (nr (srvNode (setStor st s))) = rVote (nr (srvNode s))"
  "hardState (nr (srvNode (setStor st s))) = hardState (nr (srvNode s))"
  "msgs (nr (srvNode (setStor st s))) = msgs (nr (srvNode s))"
  "batch_ok (srvNode (setStor st s)) rd = batch_ok (srvNode s) rd"
  "node_ok P N E (nr (srvNode (setStor st s))) = node_ok P N E (nr (srvNode s))"
  by (simp_all add: setStor_def srvStor_def hardState_def batch_ok_def node_ok_def elec_ok_def ballots_ok_def Let_def)

lemma handleRequest_step:
  assumes "handleRequest ops req s = Some s'"
  obtains m e n where "Node_Step ops m (srvNode s) = Some (e, n)" and "srvNode s' = n"
    and "mType m \<in> {MsgPropose, MsgReadIndex}"
proof (cases req)
  case (reqPropose cmd ch)
  with assms that show ?thesis
    by (auto simp: handleRequest_def Let_def message0_def elim!: bind_SomeE split: if_split_asm)
next
  case (reqRead key ch)
  with assms that show ?thesis
    by (auto simp: handleRequest_def Let_def message0_def elim!: bind_SomeE split: if_split_asm)
qed

section \<open>Constructing, polling and acknowledging\<close>

lemma hardState_sel [simp]:
  "hsTerm (hardState r) = rTerm r" "hsVote (hardState r) = rVote r" "hsCommit (hardState r) = lCommitted (raftLog r)"
  by (simp_all add: hardState_def)

lemma hardState_eqD: "hardState r = h \<Longrightarrow> rTerm r = hsTerm h \<and> rVote r = hsVote h"
  by (auto simp: hardState_def)

lemma newRaft_fresh:
  assumes "newRaft ops c st = Some (Inr r)"
  obtains hs where "opHardState ops st = Inr hs" and "rTerm r = hsTerm hs" and "rVote r = hsVote hs"
    and "hsTerm (prevHardSt r) = hsTerm hs" and "hsVote (prevHardSt r) = hsVote hs"
    and "rid r = cfgID c" and "peers r = sort (cfgPeers c)" and "rstate r = StateFollower"
    and "msgs r = []" and "votes r = []" and "lStorage (raftLog r) = st"
proof -
  from assms obtain rlog hs where n: "newLog ops st = Inr rlog" "opHardState ops st = Inr hs"
    by (auto simp: newRaft_def split: sum.split_asm)
  have st: "lStorage rlog = st" using n(1) by (auto simp: newLog_def res_bind_eq_Inr)
  from assms n obtain l r0 where l: "lStorage l = lStorage rlog" "becomeFollower ops (hsTerm hs) NoNode r0 = Some r"
      "rid r0 = cfgID c \<and> peers r0 = sort (cfgPeers c) \<and> rTerm r0 = hsTerm hs \<and> rVote r0 = hsVote hs \<and>
       raftLog r0 = l \<and> msgs r0 = [] \<and> prevHardSt r0 = hardState r0"
    by (fastforce simp: newRaft_def hardState_def Let_def dest!: commitTo_storage elim!: bind_SomeE
        cong: if_cong split: if_split_asm)
  show ?thesis
    using n(2) st l(1,3) becomeFollower_becomes [OF l(2)]
    by (intro that [of hs]) (auto simp: becomes_def same_frame_def)
qed

lemma server_New_node:
  assumes "server_New ops c st = Some (Inr s)"
  shows "validate c = None" and "newRaft ops c st = Some (Inr (nr (srvNode s)))"
  using assms
  by (auto simp: server_New_def NewNode_def Let_def elim!: bind_SomeE
      split: option.split_asm sum.split_asm if_split_asm prod.split_asm)

lemma Node_Ready_batch:
  "Node_Ready ops n = Some (rd, n') \<Longrightarrow> nr n' = nr n \<and> batch_ok n' rd"
  by (auto simp: Node_Ready_def Let_def batch_ok_def dest: hardState_eqD elim!: bind_SomeE)

lemma Advance_node:
  assumes "Advance n = Some n'" and "batch_ok n rd"
  shows "same_frame (nr n) ((nr n')\<lparr>prevHardSt := prevHardSt (nr n)\<rparr>)" and "msgs (nr n') = []"
    and "rTerm (nr n') = rTerm (nr n)" and "rVote (nr n') = rVote (nr n)" and "rstate (nr n') = rstate (nr n)"
    and "votes (nr n') = votes (nr n)"
    and "hsTerm (prevHardSt (nr n')) = rTerm (nr n)" and "hsVote (prevHardSt (nr n')) = rVote (nr n)"
proof -
  have rd: "pendingReady n = Some rd" using assms(2) by (simp add: batch_ok_def)
  have f: "same_frame (nr n) ((nr n')\<lparr>prevHardSt := prevHardSt (nr n)\<rparr>) \<and> msgs (nr n') = [] \<and>
      rTerm (nr n') = rTerm (nr n) \<and> rVote (nr n') = rVote (nr n) \<and> rstate (nr n') = rstate (nr n) \<and>
      votes (nr n') = votes (nr n) \<and>
      prevHardSt (nr n') = (case rdHardState rd of Some h \<Rightarrow> h | None \<Rightarrow> prevHardSt (nr n))"
    using assms(1) rd
    by (auto simp: Advance_def Let_def stableTo_def stableSnapTo_def appliedTo_def same_frame_def
        elim!: bind_SomeE split: if_split_asm option.split_asm)
  then show "same_frame (nr n) ((nr n')\<lparr>prevHardSt := prevHardSt (nr n)\<rparr>)" "msgs (nr n') = []"
    "rTerm (nr n') = rTerm (nr n)" "rVote (nr n') = rVote (nr n)" "rstate (nr n') = rstate (nr n)"
    "votes (nr n') = votes (nr n)"
    by simp_all
  show "hsTerm (prevHardSt (nr n')) = rTerm (nr n)" "hsVote (prevHardSt (nr n')) = rVote (nr n)"
    using assms(2) f by (auto simp: batch_ok_def dest: hardState_eqD split: if_split_asm)
qed

section \<open>The storage contract for votes\<close>

text \<open>
  What the argument needs of a storage: the hard state reads back as written, and no other
  operation changes it.
\<close>

locale vote_storage =
  fixes ops :: "'st LogStorage" and sync :: "'st \<Rightarrow> raft_error option \<times> 'st" and hsOf :: "'st \<Rightarrow> HardState"
    and reboot :: "'st list \<Rightarrow> 'st \<Rightarrow> bool"
  assumes hs_read: "opHardState ops st = Inr hs \<Longrightarrow> hsOf st = hs"
    and hs_append: "opAppendEntries ops st es = Some (e, st') \<Longrightarrow> hsOf st' = hsOf st"
    and hs_snapshot: "opApplySnapshot ops st snap = (e, st') \<Longrightarrow> hsOf st' = hsOf st"
    and hs_set: "opSetHardState ops st hs = (None, st') \<Longrightarrow> hsOf st' = hs"
    and hs_sync: "sync st = (e, st') \<Longrightarrow> hsOf st' = hsOf st"
    and hs_reboot: "reboot h st \<Longrightarrow> hsOf st \<in> hsOf ` set h"
begin

abbreviation ok :: "nat set \<Rightarrow> 'st cluster \<Rightarrow> bool" where
  "ok \<equiv> cinv hsOf"

lemma ok_set_proc:
  assumes "ok P c" and "proc_ok hsOf P (net c) (elections c) i p"
  shows "ok P (set_proc i p c)"
  using assms by (auto simp: cinv_def set_proc_def)

lemma proc_up:
  assumes "ok P c" and "i \<in> P" and "procs c i = \<lparr>up = Some (s, pc), hist = h\<rparr>"
  shows "rid (nr (srvNode s)) = i" and "node_ok P (net c) (elections c) (nr (srvNode s))"
    and "durable_ok hsOf s pc h" and "h \<noteq> []"
    and "\<And>st u x. st \<in> set h \<Longrightarrow> (i, u, x) \<in> announced (net c) \<Longrightarrow>
      stands_by (hsTerm (hsOf st)) (hsVote (hsOf st)) u x"
    and "one_vote i (net c \<union> set (msgs (nr (srvNode s))))"
  using assms by (fastforce simp: cinv_def proc_ok_def)+

text \<open>
  A storage state with the old or the new term and vote stands by everything announced.
\<close>

lemma holds_old_stands:
  assumes "ok P c" and "i \<in> P" and "procs c i = \<lparr>up = Some (s, pc), hist = h\<rparr>"
    and "\<forall>st \<in> set h. holds hsOf t v st" and "holds hsOf t v st'" and "(i, u, x) \<in> announced (net c)"
  shows "stands_by (hsTerm (hsOf st')) (hsVote (hsOf st')) u x"
  using proc_up(4) [OF assms(1-3)] proc_up(5) [OF assms(1-3) _ assms(6), of "hd h"] assms(4,5) by (simp add: holds_def)

lemma announced_nonzero:
  assumes "ok P c" and "(i, u, x) \<in> announced (net c)"
  shows "x \<noteq> NoNode"
proof -
  obtain m where m: "m \<in> net c" "(i, u, x) \<in> promises m" using assms(2) by (auto simp: announced_def)
  have c: "net_ok P (net c)" "NoNode \<notin> P" using assms(1) by (auto simp: cinv_def)
  then have "x \<in> P" using promise_candidate [OF _ c(1) _ m(2)] m(1) by (auto simp: net_ok_def)
  with c(2) show ?thesis by metis
qed

lemma prev_stands:
  assumes "ok P c" and "i \<in> P" and "procs c i = \<lparr>up = Some (s, pc), hist = h\<rparr>"
    and "(i, u, x) \<in> announced (net c)"
    and "stands_by (hsTerm (prevHardSt (nr (srvNode s)))) (hsVote (prevHardSt (nr (srvNode s)))) u x"
  shows "stands_by (rTerm (nr (srvNode s))) (rVote (nr (srvNode s))) u x"
proof -
  have "x \<noteq> NoNode" using announced_nonzero [OF assms(1,4)] .
  moreover have "tv_le (hsTerm (prevHardSt (nr (srvNode s)))) (hsVote (prevHardSt (nr (srvNode s))))
      (rTerm (nr (srvNode s))) (rVote (nr (srvNode s)))"
    using proc_up(2) [OF assms(1-3)] by (simp add: node_ok_def)
  ultimately show ?thesis using stands_by_mono assms(5) by blast
qed

text \<open>The votes of the outbox and the network stay unique when an input moves the node.\<close>

lemma input_one_vote:
  assumes "ok P c" and "i \<in> P" and "procs c i = \<lparr>up = Some (s, Idle), hist = h\<rparr>"
    and "moves m (nr (srvNode s)) r'" and "input_ok (net c) (nr (srvNode s)) m"
  shows "one_vote i (net c \<union> set (msgs r'))"
proof -
  let ?r = "nr (srvNode s)"
  have c: "NoNode \<notin> P" "net_ok P (net c)" using assms(1) by (auto simp: cinv_def)
  note p = proc_up [OF assms(1-3)]
  have out: "stands_by (rTerm r') (rVote r') u x" if "(i, u, x) \<in> announced (set (msgs r'))" for u x
    using that moves_outbox [OF assms(4) p(2) c(2,1) assms(5)] unfolding announced_def by blast
  have net: "stands_by (rTerm r') (rVote r') u x" if "(i, u, x) \<in> announced (net c)" for u x
  proof -
    have "stands_by (hsTerm (prevHardSt ?r)) (hsVote (prevHardSt ?r)) u x"
      using p(3,4) p(5) [OF _ that, of "hd h"] by (auto simp: durable_ok_def Let_def holds_def)
    then have "stands_by (rTerm ?r) (rVote ?r) u x" by (rule prev_stands [OF assms(1-3) that])
    then show ?thesis
      using announced_nonzero [OF assms(1) that] assms(4) stands_by_mono by (auto simp: moves_def)
  qed
  have new: "u = rTerm r' \<and> x = rVote r'"
    if "(i, u, x) \<in> announced (net c \<union> set (msgs r'))" "(i, u, x) \<notin> announced (net c \<union> set (msgs ?r))" for u x
    using that moves_new_promise [OF assms(4)] by (auto simp: announced_Un)
  have all: "stands_by (rTerm r') (rVote r') u x" if "(i, u, x) \<in> announced (net c \<union> set (msgs r'))" for u x
    using that out net by (auto simp: announced_Un)
  show ?thesis
    unfolding one_vote_def
  proof (intro allI impI)
    fix u x y
    assume x: "(i, u, x) \<in> announced (net c \<union> set (msgs r'))" and y: "(i, u, y) \<in> announced (net c \<union> set (msgs r'))"
    show "x = y"
    proof (cases "(i, u, x) \<in> announced (net c \<union> set (msgs ?r)) \<and> (i, u, y) \<in> announced (net c \<union> set (msgs ?r))")
      case True
      with p(6) show ?thesis unfolding one_vote_def by blast
    next
      case False
      then have "u = rTerm r'" using new [OF x] new [OF y] by blast
      with all [OF x] all [OF y] show ?thesis by (simp add: stands_by_def)
    qed
  qed
qed

text \<open>An input that moves the node's election state.\<close>

lemma ok_input:
  assumes "ok P c" and "i \<in> P" and "procs c i = \<lparr>up = Some (s, Idle), hist = h\<rparr>"
    and "moves m (nr (srvNode s)) (nr (srvNode s'))" and "input_ok (net c) (nr (srvNode s)) m"
  shows "ok P (note_leader i s' (set_proc i \<lparr>up = Some (s', Idle), hist = h\<rparr> c))"
proof -
  let ?r = "nr (srvNode s)" and ?r' = "nr (srvNode s')"
  let ?c = "note_leader i s' (set_proc i \<lparr>up = Some (s', Idle), hist = h\<rparr> c)"
  have c: "finite P" "NoNode \<notin> P" "net_ok P (net c)"
    and p: "proc_ok hsOf P (net c) (elections c) i (procs c i)"
    using assms(1,2) by (auto simp: cinv_def)
  have node: "node_ok P (net c) (elections c) ?r" "rid ?r = i" and dur: "durable_ok hsOf s Idle h"
    using p assms(3) by (auto simp: proc_ok_def)
  have fr: "same_frame ?r ?r'" using assms(4) by (simp add: moves_def)
  then have id: "rid ?r' = i" using node(2) by (simp add: same_frame_def)
  have E: "elections c \<subseteq> elections ?c" "net ?c = net c"
    by (auto simp: note_leader_def set_proc_def)
  have lead: "rstate ?r' = StateLeader \<longrightarrow> (rTerm ?r', rid ?r') \<in> elections ?c"
    using id by (simp add: note_leader_def Node_State_def Node_Term_def)
  have node': "node_ok P (net c) (elections ?c) ?r'"
    using moves_node_ok [OF assms(4) node(1) c(3,2) assms(5) lead E(1)] .
  have "one_vote i (net c \<union> set (msgs ?r'))"
    using input_one_vote [OF assms(1-3) assms(4,5)] .
  moreover have "durable_ok hsOf s' Idle h"
    using dur fr by (simp add: durable_ok_def same_frame_def srvStor_def Let_def)
  ultimately have "proc_ok hsOf P (net c) (elections ?c) i \<lparr>up = Some (s', Idle), hist = h\<rparr>"
    using p assms(3) node' id by (auto simp: proc_ok_def)
  moreover have "\<forall>j \<in> P. proc_ok hsOf P (net c) (elections ?c) j (procs c j)"
    using assms(1) by (auto simp: cinv_def intro!: proc_ok_mono [OF _ E(1) order_refl])
  moreover have "\<forall>(t, a) \<in> elections ?c. a \<in> P \<and> won P (net c) t a"
    using assms(1,2) moves_leader [OF assms(4) node(1) c(3) assms(5)] id
    by (auto simp: cinv_def note_leader_def set_proc_def Node_State_def Node_Term_def)
  ultimately show ?thesis
    using c E(2) by (auto simp: cinv_def note_leader_def set_proc_def)
qed

lemma ok_tick:
  assumes "ok P c" and "i \<in> P" and "procs c i = \<lparr>up = Some (s, Idle), hist = h\<rparr>"
    and "Tick ops (srvNode s) = Some n"
  shows "ok P (note_leader i (s\<lparr>srvNode := n\<rparr>) (set_proc i \<lparr>up = Some (s\<lparr>srvNode := n\<rparr>, Idle), hist = h\<rparr> c))"
proof (rule ok_input [OF assms(1-3), where m = message0])
  have "elec_ok (nr (srvNode s))"
    using assms(1-3) by (fastforce simp: cinv_def proc_ok_def node_ok_def)
  with assms(4) show "moves message0 (nr (srvNode s)) (nr (srvNode (s\<lparr>srvNode := n\<rparr>)))"
    by (auto simp: Tick_def elim!: bind_SomeE intro: tick_moves)
qed (simp add: input_ok_def message0_def)

lemma ok_step:
  assumes "ok P c" and "i \<in> P" and "procs c i = \<lparr>up = Some (s, Idle), hist = h\<rparr>"
    and "Node_Step ops m (srvNode s) = Some (e, srvNode s')"
    and "m \<in> net c \<and> mTo m = i \<or> mType m \<in> {MsgPropose, MsgReadIndex}"
  shows "ok P (note_leader i s' (set_proc i \<lparr>up = Some (s', Idle), hist = h\<rparr> c))"
proof (rule ok_input [OF assms(1-3), where m = m])
  let ?r = "nr (srvNode s)"
  have r: "elec_ok ?r" "rid ?r = i" and c: "NoNode \<notin> P" "net_ok P (net c)"
    using assms(1-3) by (fastforce simp: cinv_def proc_ok_def node_ok_def)+
  have id: "rid ?r \<noteq> NoNode" using r(2) c(1) assms(2) by metis
  have safe: "safe_msg m"
    using assms(5) net_ok_safe [OF c(2,1)] by (auto simp: safe_msg_def)
  have "Step ops m ?r = Some (e, nr (srvNode s'))"
    using assms(4) by (auto simp: Node_Step_def elim!: bind_SomeE dest: arg_cong [where f = nr])
  then show "moves m ?r (nr (srvNode s'))" using safe r(1) id by (rule Step_moves)
  show "input_ok (net c) ?r m" using assms(5) r(2) by (auto simp: input_ok_def)
qed

text \<open>The effects of \<open>drain\<close>, in order.\<close>

text \<open>So does the synced state, whichever of the two it replaced.\<close>

lemma synced_stands:
  assumes "ok P c" and "i \<in> P" and "procs c i = \<lparr>up = Some (s, pc), hist = h\<rparr>"
    and "holds hsOf (rTerm (nr (srvNode s))) (rVote (nr (srvNode s))) st'"
    and "\<forall>st \<in> set h. holds hsOf (hsTerm (prevHardSt (nr (srvNode s)))) (hsVote (prevHardSt (nr (srvNode s)))) st \<or>
           holds hsOf (rTerm (nr (srvNode s))) (rVote (nr (srvNode s))) st"
    and "(i, u, x) \<in> announced (net c)"
  shows "stands_by (hsTerm (hsOf st')) (hsVote (hsOf st')) u x"
proof (cases "holds hsOf (rTerm (nr (srvNode s))) (rVote (nr (srvNode s))) (hd h)")
  case True
  with proc_up(4) [OF assms(1-3)] proc_up(5) [OF assms(1-3) _ assms(6), of "hd h"] assms(4)
  show ?thesis by (simp add: holds_def)
next
  case False
  have "stands_by (hsTerm (prevHardSt (nr (srvNode s)))) (hsVote (prevHardSt (nr (srvNode s)))) u x"
    using False bspec [OF assms(5), of "hd h"] proc_up(4) [OF assms(1-3)] proc_up(5) [OF assms(1-3) _ assms(6), of "hd h"]
    by (auto simp: holds_def)
  with prev_stands [OF assms(1-3) assms(6)] assms(4) show ?thesis by (simp add: holds_def)
qed

lemma setStor_self: "setStor (srvStor s) s = s"
  by (simp add: setStor_def srvStor_def)

lemma persistSnapshot_stor:
  assumes "persistSnapshot ops rd s = Some (Inr s')"
  shows "\<exists>st. s' = setStor st s \<and> hsOf st = hsOf (srvStor s)"
proof (cases "rdSnapshot rd")
  case None
  with assms have "s' = setStor (srvStor s) s" by (simp add: persistSnapshot_def setStor_self)
  then show ?thesis by blast
next
  case (Some snap)
  obtain e st where st: "opApplySnapshot ops (srvStor s) snap = (e, st)" by fastforce
  with assms Some have "s' = setStor st s"
    by (auto simp: persistSnapshot_def Let_def split: option.split_asm if_split_asm)
  with hs_snapshot [OF st] show ?thesis by blast
qed

lemma persistEntries_stor:
  assumes "persistEntries ops rd s = Some (Inr s')"
  shows "\<exists>st. s' = setStor st s \<and> hsOf st = hsOf (srvStor s)"
proof (cases "0 < length (rdEntries rd)")
  case False
  with assms have "s' = setStor (srvStor s) s" by (simp add: persistEntries_def setStor_self)
  then show ?thesis by blast
next
  case True
  with assms obtain e st where st: "opAppendEntries ops (srvStor s) (rdEntries rd) = Some (e, st)" "s' = setStor st s"
    by (auto simp: persistEntries_def elim!: bind_SomeE split: option.split_asm)
  with hs_append [OF st(1)] show ?thesis by blast
qed

lemma persistHardState_stor:
  assumes "persistHardState ops rd s = Some (Inr s')" and "batch_ok (srvNode s) rd"
    and "holds hsOf (hsTerm (prevHardSt (nr (srvNode s)))) (hsVote (prevHardSt (nr (srvNode s)))) (srvStor s)"
  shows "\<exists>st. s' = setStor st s \<and> holds hsOf (rTerm (nr (srvNode s))) (rVote (nr (srvNode s))) st"
proof (cases "rdHardState rd")
  case None
  with assms have "s' = setStor (srvStor s) s" by (simp add: persistHardState_def setStor_self)
  moreover have "hardState (nr (srvNode s)) = prevHardSt (nr (srvNode s))"
    using None assms(2) by (simp add: batch_ok_def split: if_split_asm)
  ultimately show ?thesis using assms(3) hardState_eqD by metis
next
  case (Some hs)
  obtain e st where st: "opSetHardState ops (srvStor s) hs = (e, st)" by fastforce
  with assms(1) Some have "s' = setStor st s" "e = None"
    by (auto simp: persistHardState_def Let_def split: option.split_asm)
  moreover have "hs = hardState (nr (srvNode s))"
    using Some assms(2) by (simp add: batch_ok_def split: if_split_asm)
  ultimately show ?thesis using hs_set st by (auto simp: holds_def)
qed

lemma ok_ready:
  assumes "ok P c" and "i \<in> P" and "procs c i = \<lparr>up = Some (s, Idle), hist = h\<rparr>"
    and "Node_Ready ops (srvNode s) = Some (rd, n)"
  shows "ok P (set_proc i \<lparr>up = Some ((checkLeadership s)\<lparr>srvNode := n\<rparr>, PersistSnap rd), hist = h\<rparr> c)"
  using assms(1) proc_up [OF assms(1-3)] Node_Ready_batch [OF assms(4)]
  by (intro ok_set_proc) (auto simp: proc_ok_def durable_ok_def Let_def srvStor_def)

lemma ok_snap:
  assumes "ok P c" and "i \<in> P" and "procs c i = \<lparr>up = Some (s, PersistSnap rd), hist = h\<rparr>"
    and "persistSnapshot ops rd s = Some (Inr s')"
  shows "ok P (set_proc i \<lparr>up = Some (s', PersistEnts rd), hist = h @ [srvStor s']\<rparr> c)"
proof -
  obtain st where st: "s' = setStor st s" "hsOf st = hsOf (srvStor s)"
    using persistSnapshot_stor [OF assms(4)] by blast
  have "durable_ok hsOf s' (PersistEnts rd) (h @ [st])"
    using st proc_up(3) [OF assms(1-3)] by (auto simp: durable_ok_def Let_def holds_def)
  moreover have "\<And>u x. (i, u, x) \<in> announced (net c) \<Longrightarrow> stands_by (hsTerm (hsOf st)) (hsVote (hsOf st)) u x"
    using proc_up(3) [OF assms(1-3)] st(2)
    by (intro holds_old_stands [OF assms(1-3)]) (auto simp: durable_ok_def Let_def holds_def)
  ultimately show ?thesis
    using proc_up [OF assms(1-3)] st by (intro ok_set_proc [OF assms(1)]) (auto simp: proc_ok_def)
qed

lemma ok_ents:
  assumes "ok P c" and "i \<in> P" and "procs c i = \<lparr>up = Some (s, PersistEnts rd), hist = h\<rparr>"
    and "persistEntries ops rd s = Some (Inr s')"
  shows "ok P (set_proc i \<lparr>up = Some (s', PersistHS rd), hist = h @ [srvStor s']\<rparr> c)"
proof -
  obtain st where st: "s' = setStor st s" "hsOf st = hsOf (srvStor s)"
    using persistEntries_stor [OF assms(4)] by blast
  have "durable_ok hsOf s' (PersistHS rd) (h @ [st])"
    using st proc_up(3) [OF assms(1-3)] by (auto simp: durable_ok_def Let_def holds_def)
  moreover have "\<And>u x. (i, u, x) \<in> announced (net c) \<Longrightarrow> stands_by (hsTerm (hsOf st)) (hsVote (hsOf st)) u x"
    using proc_up(3) [OF assms(1-3)] st(2)
    by (intro holds_old_stands [OF assms(1-3)]) (auto simp: durable_ok_def Let_def holds_def)
  ultimately show ?thesis
    using proc_up [OF assms(1-3)] st by (intro ok_set_proc [OF assms(1)]) (auto simp: proc_ok_def)
qed

lemma ok_hard:
  assumes "ok P c" and "i \<in> P" and "procs c i = \<lparr>up = Some (s, PersistHS rd), hist = h\<rparr>"
    and "persistHardState ops rd s = Some (Inr s')"
  shows "ok P (set_proc i \<lparr>up = Some (s', Syncing rd), hist = h @ [srvStor s']\<rparr> c)"
proof -
  have d: "batch_ok (srvNode s) rd"
      "\<forall>st \<in> set h. holds hsOf (hsTerm (prevHardSt (nr (srvNode s)))) (hsVote (prevHardSt (nr (srvNode s)))) st"
      "holds hsOf (hsTerm (prevHardSt (nr (srvNode s)))) (hsVote (prevHardSt (nr (srvNode s)))) (srvStor s)"
    using proc_up(3) [OF assms(1-3)] by (simp_all add: durable_ok_def Let_def)
  obtain st where st: "s' = setStor st s" "holds hsOf (rTerm (nr (srvNode s))) (rVote (nr (srvNode s))) st"
    using persistHardState_stor [OF assms(4) d(1,3)] by blast
  have "durable_ok hsOf s' (Syncing rd) (h @ [st])"
    using st d by (auto simp: durable_ok_def Let_def)
  moreover have "\<And>u x. (i, u, x) \<in> announced (net c) \<Longrightarrow> stands_by (hsTerm (hsOf st)) (hsVote (hsOf st)) u x"
    using synced_stands [OF assms(1-3) st(2)] d(2) by blast
  ultimately show ?thesis
    using proc_up [OF assms(1-3)] st by (intro ok_set_proc [OF assms(1)]) (auto simp: proc_ok_def)
qed

lemma ok_sync:
  assumes "ok P c" and "i \<in> P" and "procs c i = \<lparr>up = Some (s, Syncing rd), hist = h\<rparr>"
    and "syncReady sync rd s = Some (Inr s')"
  shows "ok P (set_proc i \<lparr>up = Some (s', Sending rd), hist = (if rdMustSync rd then [srvStor s'] else h)\<rparr> c)"
proof -
  let ?r = "nr (srvNode s)"
  have d: "batch_ok (srvNode s) rd" "holds hsOf (rTerm ?r) (rVote ?r) (srvStor s)"
      "\<forall>st \<in> set h. holds hsOf (hsTerm (prevHardSt ?r)) (hsVote (prevHardSt ?r)) st \<or> holds hsOf (rTerm ?r) (rVote ?r) st"
    using proc_up(3) [OF assms(1-3)] by (simp_all add: durable_ok_def Let_def)
  show ?thesis
  proof (cases "rdMustSync rd")
    case True
    obtain e st where st: "sync (srvStor s) = (e, st)" by fastforce
    with assms(4) True have s': "s' = setStor st s" by (auto simp: syncReady_def Let_def split: option.split_asm)
    have hold: "holds hsOf (rTerm ?r) (rVote ?r) st" using d(2) hs_sync [OF st] by (simp add: holds_def)
    have "stands_by (hsTerm (hsOf st)) (hsVote (hsOf st)) u x" if "(i, u, x) \<in> announced (net c)" for u x
    proof -
      have "stands_by (hsTerm (hsOf (srvStor s))) (hsVote (hsOf (srvStor s))) u x"
        using synced_stands [OF assms(1-3) d(2,3) that] .
      then show ?thesis using hs_sync [OF st] by simp
    qed
    with True s' d hold show ?thesis
      using proc_up [OF assms(1-3)]
      by (intro ok_set_proc [OF assms(1)]) (auto simp: proc_ok_def durable_ok_def Let_def)
  next
    case False
    with assms(4) have s': "s' = s" by (simp add: syncReady_def)
    have "hsTerm (prevHardSt ?r) = rTerm ?r" "hsVote (prevHardSt ?r) = rVote ?r"
      using False d(1) by (auto simp: batch_ok_def)
    with d have "durable_ok hsOf s (Sending rd) h" by (auto simp: durable_ok_def Let_def)
    with False s' show ?thesis
      using proc_up [OF assms(1-3)] by (intro ok_set_proc [OF assms(1)]) (auto simp: proc_ok_def)
  qed
qed

lemma ok_send:
  assumes "ok P c" and "i \<in> P" and "procs c i = \<lparr>up = Some (s, Sending rd), hist = h\<rparr>"
  shows "ok P (set_proc i \<lparr>up = Some (sendReady rd s, Applying rd), hist = h\<rparr> (c\<lparr>net := net c \<union> set (rdMessages rd)\<rparr>))"
proof -
  let ?r = "nr (srvNode s)" and ?N = "net c \<union> set (rdMessages rd)"
  have c: "finite P" "NoNode \<notin> P" "net_ok P (net c)" using assms(1) by (auto simp: cinv_def)
  have d: "batch_ok (srvNode s) rd" "holds hsOf (rTerm ?r) (rVote ?r) (srvStor s)"
      "\<forall>st \<in> set h. holds hsOf (rTerm ?r) (rVote ?r) st"
    using proc_up(3) [OF assms(1-3)] by (simp_all add: durable_ok_def Let_def)
  have out: "mFrom m = i" "msg_ok (net c) m" "\<forall>(j, u, x) \<in> promises m. stands_by (rTerm ?r) (rVote ?r) u x"
    if "m \<in> set (rdMessages rd)" for m
    using that d(1) proc_up(1,2) [OF assms(1-3)] by (auto simp: batch_ok_def node_ok_def)
  have net: "net_ok P ?N"
    using c(3) out assms(2) msg_ok_mono [of "net c" _ ?N] unfolding net_ok_def by blast
  have new: "j = i" "stands_by (rTerm ?r) (rVote ?r) u x"
    if "(j, u, x) \<in> announced ?N" "(j, u, x) \<notin> announced (net c)" for j u x
  proof -
    from that have "\<exists>m \<in> set (rdMessages rd). (j, u, x) \<in> promises m"
      by (auto simp: announced_def)
    then obtain m where "m \<in> set (rdMessages rd)" "(j, u, x) \<in> promises m" by blast
    moreover have "j = i" using calculation out(1) by (auto simp: promises_def split: if_split_asm)
    ultimately show "j = i" "stands_by (rTerm ?r) (rVote ?r) u x" using out(3) by blast+
  qed
  have "stands_by (hsTerm (hsOf st)) (hsVote (hsOf st)) u x" if "st \<in> set h" "(i, u, x) \<in> announced ?N" for st u x
    using proc_up(5) [OF assms(1-3) that(1)] new(2) [OF that(2)] d(3) that(1) by (auto simp: holds_def)
  moreover have "node_ok P ?N (elections c) ?r"
    using node_ok_mono [OF proc_up(2) [OF assms(1-3)]] by blast
  moreover have "?N \<union> set (msgs ?r) = net c \<union> set (msgs ?r)" using d(1) by (auto simp: batch_ok_def)
  ultimately have "proc_ok hsOf P ?N (elections c) i \<lparr>up = Some (sendReady rd s, Applying rd), hist = h\<rparr>"
    using proc_up(1,4,6) [OF assms(1-3)] d by (auto simp: proc_ok_def durable_ok_def Let_def srvStor_def)
  moreover have "proc_ok hsOf P ?N (elections c) j (procs c j)" if "j \<in> P" "j \<noteq> i" for j
  proof (rule proc_ok_mono)
    show "proc_ok hsOf P (net c) (elections c) j (procs c j)" using assms(1) that(1) by (auto simp: cinv_def)
    show "(j, u, x) \<in> announced (net c)" if "(j, u, x) \<in> announced ?N" for u x
      using new(1) [OF that] \<open>j \<noteq> i\<close> by blast
  qed auto
  moreover have "\<forall>(t, a) \<in> elections c. a \<in> P \<and> won P ?N t a"
    using assms(1) won_mono [of P "net c" _ _ ?N] by (auto simp: cinv_def)
  ultimately show ?thesis using c net by (auto simp: cinv_def set_proc_def)
qed

lemma ok_apply:
  assumes "ok P c" and "i \<in> P" and "procs c i = \<lparr>up = Some (s, Applying rd), hist = h\<rparr>"
    and "applyReady rd s = Some (Inr s')"
  shows "ok P (set_proc i \<lparr>up = Some (s', Advancing rd), hist = h\<rparr> c)"
  using proc_up [OF assms(1-3)] applyReady_node [OF assms(4)]
  by (intro ok_set_proc [OF assms(1)]) (auto simp: proc_ok_def durable_ok_def Let_def srvStor_def)

lemma ok_advance:
  assumes "ok P c" and "i \<in> P" and "procs c i = \<lparr>up = Some (s, Advancing rd), hist = h\<rparr>"
    and "Advance (srvNode s) = Some n"
  shows "ok P (set_proc i \<lparr>up = Some (s\<lparr>srvNode := n\<rparr>, Idle), hist = h\<rparr> c)"
proof -
  have d: "batch_ok (srvNode s) rd" using proc_up(3) [OF assms(1-3)] by (simp add: durable_ok_def Let_def)
  note a = Advance_node [OF assms(4) d]
  have "node_ok P (net c) (elections c) (nr n)"
    using a proc_up(2) [OF assms(1-3)] by (auto simp: node_ok_def same_frame_def elec_ok_def ballots_ok_def)
  moreover have "durable_ok hsOf (s\<lparr>srvNode := n\<rparr>) Idle h"
    using a proc_up(3) [OF assms(1-3)] by (auto simp: durable_ok_def Let_def same_frame_def srvStor_def)
  moreover have "one_vote i (net c \<union> set (msgs (nr n)))"
    using one_vote_mono [OF proc_up(6) [OF assms(1-3)]] a(2) by simp
  ultimately show ?thesis
    using proc_up [OF assms(1-3)] a(1)
    by (intro ok_set_proc [OF assms(1)]) (auto simp: proc_ok_def same_frame_def)
qed

lemma ok_crash:
  assumes "ok P c" and "i \<in> P" and "reboot (hist (procs c i)) st"
  shows "ok P (set_proc i \<lparr>up = None, hist = [st]\<rparr> c)"
proof (rule ok_set_proc [OF assms(1)])
  have p: "proc_ok hsOf P (net c) (elections c) i (procs c i)" using assms(1,2) by (auto simp: cinv_def)
  then have "one_vote i (net c)" by (auto simp: proc_ok_def intro: one_vote_mono)
  moreover obtain st' where "st' \<in> set (hist (procs c i))" "hsOf st = hsOf st'" using hs_reboot [OF assms(3)] by blast
  ultimately show "proc_ok hsOf P (net c) (elections c) i \<lparr>up = None, hist = [st]\<rparr>"
    using p by (fastforce simp: proc_ok_def)
qed

lemma ok_restart:
  assumes "ok P c" and "i \<in> P" and "procs c i = \<lparr>up = None, hist = [st]\<rparr>"
    and "cfgID rc = i" and "set (cfgPeers rc) = P" and "server_New ops rc st = Some (Inr s)"
  shows "ok P (set_proc i \<lparr>up = Some (s, Idle), hist = [st]\<rparr> c)"
proof -
  let ?r = "nr (srvNode s)"
  have v: "validate rc = None" and n: "newRaft ops rc st = Some (Inr ?r)"
    using server_New_node [OF assms(6)] by auto
  obtain hs where hs: "opHardState ops st = Inr hs" "rTerm ?r = hsTerm hs" "rVote ?r = hsVote hs"
      "hsTerm (prevHardSt ?r) = hsTerm hs" "hsVote (prevHardSt ?r) = hsVote hs" "rid ?r = cfgID rc"
      "peers ?r = sort (cfgPeers rc)" "rstate ?r = StateFollower" "msgs ?r = []" "votes ?r = []"
      "lStorage (raftLog ?r) = st"
    using newRaft_fresh [OF n] by blast
  have "node_ok P (net c) (elections c) ?r"
    using hs v assms(2,4,5) by (simp add: node_ok_def elec_ok_def ballots_ok_def validate_None)
  moreover have "durable_ok hsOf s Idle [st]"
    using hs hs_read [OF hs(1)] by (simp add: durable_ok_def holds_def srvStor_def)
  ultimately show ?thesis
    using assms(1-4) hs(6,9) by (intro ok_set_proc [OF assms(1)]) (auto simp: proc_ok_def cinv_def)
qed

lemma ok_cstep: "cstep ops sync reboot P c c' \<Longrightarrow> ok P c \<Longrightarrow> ok P c'"
proof (induction rule: cstep.induct)
  case (c_request i c s h req s')
  obtain m e where "Node_Step ops m (srvNode s) = Some (e, srvNode s')" "mType m \<in> {MsgPropose, MsgReadIndex}"
    using handleRequest_step [OF c_request(3)] by metis
  with c_request show ?case by (intro ok_step) auto
next
  case (c_recv i c s h m e n s')
  then show ?case by (intro ok_step [where m = m]) auto
next
  case (c_sync i c s rd h s')
  then show ?case by (intro ok_sync) auto
qed (auto intro: ok_tick ok_ready ok_snap ok_ents ok_hard ok_sync ok_send ok_apply ok_advance ok_crash ok_restart)

lemma ok_reachable: "(cstep ops sync reboot P)\<^sup>*\<^sup>* c c' \<Longrightarrow> ok P c \<Longrightarrow> ok P c'"
  by (induction rule: rtranclp_induct) (auto intro: ok_cstep)

lemma ok_init:
  "finite P \<Longrightarrow> NoNode \<notin> P \<Longrightarrow> ok P (cinit st)"
  by (simp add: cinv_def cinit_def net_ok_def proc_ok_def announced_def one_vote_def)

text \<open>Two announced votes of one server in one term are for the same candidate.\<close>

lemma announced_unique:
  assumes "ok P c" and "j \<in> P" and "(j, t, a) \<in> announced (net c)" and "(j, t, b) \<in> announced (net c)"
  shows "a = b"
proof -
  have "one_vote j (net c \<union> outbox (procs c j))" using assms(1,2) by (auto simp: cinv_def proc_ok_def)
  with assms(3,4) show ?thesis unfolding one_vote_def announced_Un by blast
qed

text \<open>A term has at most one election.\<close>

lemma elections_unique:
  assumes "ok P c" and "(t, a) \<in> elections c" and "(t, b) \<in> elections c"
  shows "a = b"
proof -
  have ab: "a \<in> P" "b \<in> P" "won P (net c) t a" "won P (net c) t b"
    using assms by (auto simp: cinv_def)
  show ?thesis
  proof (cases "P = {a} \<or> P = {b}")
    case True
    with ab show ?thesis by auto
  next
    case False
    with ab obtain Q Q' where Q: "Q \<in> majorities P" "\<forall>j \<in> Q. (j, t, a) \<in> announced (net c)"
        "Q' \<in> majorities P" "\<forall>j \<in> Q'. (j, t, b) \<in> announced (net c)"
      unfolding won_def by blast
    show ?thesis
    proof (rule maj.unique_winner [OF Q(1,3), where voted = "\<lambda>j x. j \<in> P \<and> (j, t, x) \<in> announced (net c)"])
      show "j \<in> P \<and> (j, t, a) \<in> announced (net c)" if "j \<in> Q" for j
        using that Q(1,2) by (auto simp: majorities_def)
      show "j \<in> P \<and> (j, t, b) \<in> announced (net c)" if "j \<in> Q'" for j
        using that Q(3,4) by (auto simp: majorities_def)
    qed (use announced_unique [OF assms(1)] in blast)
  qed
qed

lemma leader_elected:
  assumes "ok P c" and "i \<in> P" and "up (procs c i) = Some (s, pc)" and "Node_State (srvNode s) = StateLeader"
  shows "(Node_Term (srvNode s), i) \<in> elections c"
  using assms by (force simp: cinv_def proc_ok_def node_ok_def Node_State_def Node_Term_def)

end

section \<open>Election safety over the in-memory storage\<close>

text \<open>Writes to the in-memory storage need no sync.\<close>

definition noSync :: "Storage \<Rightarrow> raft_error option \<times> Storage" where
  "noSync st = (None, st)"

text \<open>A crash of the in-memory storage keeps some state it had since the last sync.\<close>

definition memReboot :: "Storage list \<Rightarrow> Storage \<Rightarrow> bool" where
  "memReboot h st \<longleftrightarrow> st \<in> set h"

interpretation memv: vote_storage memOps noSync stHardState memReboot
  by unfold_locales
    (auto simp: memReboot_def mem_HardState_def mem_AppendEntries_def mem_ApplySnapshot_def mem_SetHardState_def noSync_def Let_def
      split: if_split_asm)

text \<open>
  C1. Election safety. In every state a cluster of servers can reach from fresh storages, by
  any interleaving of ticks, client requests, deliveries (with loss, duplication and
  reordering), drain effects, crashes that lose unsynced writes, and restarts, no term has
  had two leaders; in particular two servers that currently lead the same term are the same.
\<close>

theorem election_safety:
  assumes "finite P" and "NoNode \<notin> P" and "(cstep memOps noSync memReboot P)\<^sup>*\<^sup>* (cinit mem_New) c"
  shows "(\<forall>t a b. (t, a) \<in> elections c \<longrightarrow> (t, b) \<in> elections c \<longrightarrow> a = b) \<and>
    (\<forall>i \<in> P. \<forall>j \<in> P. \<forall>s s' pc pc'. up (procs c i) = Some (s, pc) \<longrightarrow> up (procs c j) = Some (s', pc') \<longrightarrow>
      Node_State (srvNode s) = StateLeader \<longrightarrow> Node_State (srvNode s') = StateLeader \<longrightarrow>
      Node_Term (srvNode s) = Node_Term (srvNode s') \<longrightarrow> i = j)"
proof -
  have ok: "cinv stHardState P c"
    using memv.ok_reachable [OF assms(3) memv.ok_init [OF assms(1,2)]] .
  have unique: "\<forall>t a b. (t, a) \<in> elections c \<longrightarrow> (t, b) \<in> elections c \<longrightarrow> a = b"
    using memv.elections_unique [OF ok] by blast
  with memv.leader_elected [OF ok] show ?thesis by metis
qed

text \<open>A run of a single server that elects itself: it starts, and its election timer runs out.\<close>

definition solo_config :: Config where
  "solo_config = \<lparr>cfgID = 1, cfgPeers = [1], cfgElectionTicks = 2, cfgHeartbeatTicks = 1,
     cfgMaxEntriesPerAppend = 0, cfgPreVote = True, cfgRand = Some (\<lambda>_. 0)\<rparr>"

definition solo_start :: "(new_error + Storage Server) option" where
  "solo_start = server_New memOps solo_config mem_New"

definition solo_ticks :: "Storage Server \<Rightarrow> Storage Node option" where
  "solo_ticks s = Option.bind (Tick memOps (srvNode s)) (Tick memOps)"

lemma solo_run:
  obtains s n n' where "server_New memOps solo_config mem_New = Some (Inr s)"
    and "Tick memOps (srvNode s) = Some n" and "Tick memOps n = Some n'"
    and "Node_State n' = StateLeader" and "Node_Term n' = 1"
proof -
  have "(case solo_start of Some (Inr s) \<Rightarrow> map_option (\<lambda>n. (Node_State n, Node_Term n)) (solo_ticks s) | _ \<Rightarrow> None)
      = Some (StateLeader, 1)"
    by code_simp
  then show ?thesis
    using that by (auto simp: solo_start_def solo_ticks_def elim!: bind_SomeE split: option.split_asm sum.split_asm)
qed

text \<open>The run, for any storage.\<close>

lemma solo_elects:
  assumes "server_New ops solo_config st = Some (Inr s)"
    and "Tick ops (srvNode s) = Some n" and "Tick ops n = Some n'" and "Node_State n' = StateLeader" and "Node_Term n' = 1"
  shows "\<exists>c. (cstep ops sync reboot {1})\<^sup>*\<^sup>* (cinit st) c \<and> (1, 1) \<in> elections c"
proof -
  define c0 where "c0 = cinit st"
  define c1 where "c1 = set_proc 1 \<lparr>up = Some (s, Idle), hist = [st]\<rparr> c0"
  define s1 where "s1 = s\<lparr>srvNode := n\<rparr>"
  define c2 where "c2 = note_leader 1 s1 (set_proc 1 \<lparr>up = Some (s1, Idle), hist = [st]\<rparr> c1)"
  define s2 where "s2 = s1\<lparr>srvNode := n'\<rparr>"
  define c3 where "c3 = note_leader 1 s2 (set_proc 1 \<lparr>up = Some (s2, Idle), hist = [st]\<rparr> c2)"
  have "cstep ops sync reboot {1} c0 c1"
    unfolding c1_def by (rule c_restart [OF _ _ _ _ assms(1)]) (auto simp: c0_def cinit_def solo_config_def)
  moreover have "cstep ops sync reboot {1} c1 c2"
    unfolding c2_def s1_def by (rule c_tick [OF _ _ assms(2)]) (auto simp: c1_def set_proc_def)
  moreover have "cstep ops sync reboot {1} c2 c3"
    unfolding c3_def s2_def
    by (rule c_tick [where s = s1]) (auto simp: c2_def set_proc_def note_leader_def s1_def assms(3))
  ultimately have "(cstep ops sync reboot {1})\<^sup>*\<^sup>* (cinit st) c3"
    unfolding c0_def [symmetric] by (meson rtranclp.rtrancl_into_rtrancl rtranclp.rtrancl_refl)
  moreover have "(1, 1) \<in> elections c3"
    using assms(4,5) by (simp add: c3_def note_leader_def s2_def)
  ultimately show ?thesis by blast
qed

theorem election_safety_witness:
  "\<exists>c. (cstep memOps noSync memReboot {1})\<^sup>*\<^sup>* (cinit mem_New) c \<and> (1, 1) \<in> elections c \<and>
     (\<forall>a. (1, a) \<in> elections c \<longrightarrow> a = 1)"
proof -
  obtain s n n' where run: "server_New memOps solo_config mem_New = Some (Inr s)"
      "Tick memOps (srvNode s) = Some n" "Tick memOps n = Some n'" "Node_State n' = StateLeader" "Node_Term n' = 1"
    by (rule solo_run)
  obtain c where reach: "(cstep memOps noSync memReboot {1})\<^sup>*\<^sup>* (cinit mem_New) c" and el: "(1, 1) \<in> elections c"
    using solo_elects [OF run] by blast
  then have "\<forall>a. (1, a) \<in> elections c \<longrightarrow> a = 1"
    using election_safety [OF _ _ reach] by simp
  with reach el show ?thesis by blast
qed

end
