(* ===== verification/Disk_Framing.thy ===== *)
theory Disk_Framing
  imports Raft_Types
begin

text \<open>
  Record framing of the write-ahead log, \<^verbatim>\<open>storage/disk/framing.go\<close>, and the snapshot
  payload format of \<^verbatim>\<open>storage/disk/snapshot.go\<close>.

  \<open>crc32_Checksum\<close> is \<open>hash/crc32\<close>'s checksum with the Castagnoli table, written bit by bit
  (reflected, polynomial \<open>0x82F63B78\<close>, initial value and final complement all ones). The
  lemmas show that a frame reads back as its payload wherever it lies in a buffer, that a
  frame cut short is torn, that every corruption confined to four consecutive payload bytes
  is caught by the checksum, and that each record's decoder inverts its encoder.
\<close>

unbundle bit_operations_syntax

section \<open>CRC-32C\<close>

definition castagnoli :: "32 word" where
  "castagnoli = 0x82F63B78"

definition crc_bit :: "32 word \<Rightarrow> 32 word" where
  "crc_bit c = (if bit c 0 then drop_bit 1 c XOR castagnoli else drop_bit 1 c)"

definition crc_byte :: "32 word \<Rightarrow> byte \<Rightarrow> 32 word" where
  "crc_byte c b = (crc_bit ^^ 8) (c XOR ucast b)"

definition crc32_Checksum :: "bytes \<Rightarrow> nat" where
  "crc32_Checksum p = unat (NOT (foldl crc_byte (NOT 0) p))"

section \<open>Records\<close>

datatype disk_error =
    errTornFrame
  | IOError string
  | BadSegmentName string

abbreviation frameHeaderSize :: nat where "frameHeaderSize \<equiv> 8"

definition sanityMaxPayload :: nat where
  "sanityMaxPayload = 64 * 2 ^ 20"

abbreviation recEntry :: byte where "recEntry \<equiv> 1"
abbreviation recHardState :: byte where "recHardState \<equiv> 2"
abbreviation recTruncateSuffix :: byte where "recTruncateSuffix \<equiv> 3"

text \<open>The slice \<open>b[i:j]\<close>.\<close>

definition slice :: "bytes \<Rightarrow> nat \<Rightarrow> nat \<Rightarrow> bytes" where
  "slice b i j = take (j - i) (drop i b)"

definition encodeEntry :: "Entry \<Rightarrow> bytes" where
  "encodeEntry e =
     [recEntry] @ be_bytes 8 (eTerm e) @ be_bytes 8 (eIndex e) @ [eType e] @
     be_bytes 4 (length (eData e)) @ eData e"

definition decodeEntry :: "bytes \<Rightarrow> disk_error + Entry" where
  "decodeEntry body =
     (if length body < 8 + 8 + 1 + 4 then Inl errTornFrame
      else
        let dataLen = be_nat (slice body 17 21)
        in if 21 + dataLen \<noteq> length body then Inl errTornFrame
           else Inr \<lparr>eTerm = be_nat (slice body 0 8), eIndex = be_nat (slice body 8 16),
                     eType = body ! 16, eData = (if 0 < dataLen then drop 21 body else [])\<rparr>)"

definition encodeHardState :: "HardState \<Rightarrow> bytes" where
  "encodeHardState st =
     [recHardState] @ be_bytes 8 (hsTerm st) @ be_bytes 8 (hsVote st) @ be_bytes 8 (hsCommit st)"

definition decodeHardState :: "bytes \<Rightarrow> disk_error + HardState" where
  "decodeHardState body =
     (if length body \<noteq> 8 + 8 + 8 then Inl errTornFrame
      else Inr \<lparr>hsTerm = be_nat (slice body 0 8), hsVote = be_nat (slice body 8 16),
                hsCommit = be_nat (slice body 16 24)\<rparr>)"

definition encodeTruncateSuffix :: "SnapshotMetadata \<Rightarrow> bytes" where
  "encodeTruncateSuffix meta =
     [recTruncateSuffix] @ be_bytes 8 (smIndex meta) @ be_bytes 8 (smTerm meta)"

definition decodeTruncateSuffix :: "bytes \<Rightarrow> disk_error + SnapshotMetadata" where
  "decodeTruncateSuffix body =
     (if length body \<noteq> 8 + 8 then Inl errTornFrame
      else Inr \<lparr>smIndex = be_nat (slice body 0 8), smTerm = be_nat (slice body 8 16)\<rparr>)"

section \<open>Frames\<close>

definition appendFrame :: "bytes \<Rightarrow> bytes \<Rightarrow> bytes" where
  "appendFrame dst payload =
     dst @ be_bytes 4 (length payload) @ be_bytes 4 (crc32_Checksum payload) @ payload"

definition readFrame :: "bytes \<Rightarrow> nat \<Rightarrow> disk_error + bytes \<times> nat" where
  "readFrame buf off =
     (if length buf < off + frameHeaderSize then Inl errTornFrame
      else
        let payloadLen = be_nat (slice buf off (off + 4));
            wantCRC = be_nat (slice buf (off + 4) (off + 8))
        in if payloadLen = 0 \<or> sanityMaxPayload < payloadLen then Inl errTornFrame
           else
             let start = off + frameHeaderSize;
                 end' = start + payloadLen
             in if length buf < end' \<or> end' < start then Inl errTornFrame
                else
                  let p = slice buf start end'
                  in if crc32_Checksum p \<noteq> wantCRC then Inl errTornFrame
                     else Inr (p, end' - off))"

section \<open>Snapshot payloads\<close>

abbreviation snapshotFlagTruncateSuffix :: byte where "snapshotFlagTruncateSuffix \<equiv> 1"

record storedSnapshot =
  ssSnapshot :: Snapshot
  ssTruncateSuffix :: bool

definition snapPayload :: "Snapshot \<Rightarrow> bool \<Rightarrow> bytes" where
  "snapPayload snap truncateSuffix =
     be_bytes 8 (snIndex snap) @ be_bytes 8 (snTerm snap) @ be_bytes 4 (length (snData snap)) @
     snData snap @ [if truncateSuffix then snapshotFlagTruncateSuffix else 0]"

definition parseSnapPayload :: "bytes \<Rightarrow> disk_error + storedSnapshot" where
  "parseSnapPayload payload =
     (if length payload < 20 then Inl errTornFrame
      else
        let dataLen = be_nat (slice payload 16 20);
            dataEnd = 20 + dataLen
        in if length payload \<noteq> dataEnd \<and> length payload \<noteq> dataEnd + 1 then Inl errTornFrame
           else
             let snap = \<lparr>snMetadata = \<lparr>smIndex = be_nat (slice payload 0 8), smTerm = be_nat (slice payload 8 16)\<rparr>,
                         snData = (if 0 < dataLen then slice payload 20 dataEnd else [])\<rparr>
             in if length payload = dataEnd + 1 then
                  (let flags = payload ! dataEnd
                   in if flags AND NOT snapshotFlagTruncateSuffix \<noteq> 0 then Inl errTornFrame
                      else Inr \<lparr>ssSnapshot = snap, ssTruncateSuffix = (flags AND snapshotFlagTruncateSuffix \<noteq> 0)\<rparr>)
                else Inr \<lparr>ssSnapshot = snap, ssTruncateSuffix = False\<rparr>)"

section \<open>The checksum catches short corruptions\<close>

lemma castagnoli_bit31: "bit castagnoli 31"
  by (simp add: castagnoli_def bit_numeral_word_iff)

lemma xor_cancel_right: "(a :: 'a::len word) XOR c = b XOR c \<longleftrightarrow> a = b"
  by (metis xor.assoc xor_self_eq xor.right_neutral)

lemma xor_cancel_left: "(c :: 'a::len word) XOR a = c XOR b \<longleftrightarrow> a = b"
  by (metis xor.commute xor_cancel_right)

lemma crc_bit_inj: "crc_bit c = crc_bit d \<Longrightarrow> c = d"
proof -
  assume eq: "crc_bit c = crc_bit d"
  have top: "bit (crc_bit x) 31 = bit x 0" for x
    using castagnoli_bit31 by (auto simp: crc_bit_def bit_simps dest: bit_imp_le_length)
  have b0: "bit c 0 = bit d 0" using eq top by metis
  with eq have "drop_bit 1 c = drop_bit 1 d"
    by (auto simp: crc_bit_def xor_cancel_right split: if_split_asm)
  then have bS: "bit c (Suc n) = bit d (Suc n)" for n
    by (metis bit_drop_bit_eq comp_apply plus_1_eq_Suc)
  show "c = d"
  proof (rule bit_eqI)
    fix n show "bit c n = bit d n" using b0 bS by (cases n) auto
  qed
qed

lemma crc_bit_xor: "crc_bit (c XOR d) = crc_bit c XOR crc_bit d"
  by (rule bit_eqI) (auto simp: crc_bit_def bit_simps)

lemma crc_bits_inj: "(crc_bit ^^ n) c = (crc_bit ^^ n) d \<Longrightarrow> c = d"
  by (induction n) (auto dest: crc_bit_inj)

lemma crc_bits_xor: "(crc_bit ^^ n) (c XOR d) = (crc_bit ^^ n) c XOR (crc_bit ^^ n) d"
  by (induction n) (auto simp: crc_bit_xor)

lemma crc_byte_inj: "crc_byte c b = crc_byte d b \<Longrightarrow> c = d"
  by (auto simp: crc_byte_def xor_cancel_right dest!: crc_bits_inj)

lemma foldl_crc_inj: "foldl crc_byte c p = foldl crc_byte d p \<Longrightarrow> c = d"
  by (induction p arbitrary: c d) (auto dest: crc_byte_inj)

text \<open>Low zero bits are shifted out unchanged, so a short burst reaches the state as it is.\<close>

lemma crc_bit_push: "bit (crc_bit (push_bit (Suc n) x)) k \<longleftrightarrow> k < 31 \<and> bit (push_bit n x) k"
  by (auto simp: crc_bit_def bit_simps simp del: push_bit_Suc)

primrec le_word :: "bytes \<Rightarrow> 32 word" where
  "le_word [] = 0"
| "le_word (b # bs) = ucast b XOR push_bit 8 (le_word bs)"

lemma bit_le_word: "bit (le_word bs) n \<longleftrightarrow> n < 32 \<and> n div 8 < length bs \<and> bit (bs ! (n div 8)) (n mod 8)"
proof (induction bs arbitrary: n)
  case (Cons b bs)
  show ?case
  proof (cases "n < 8")
    case True
    then show ?thesis by (auto simp: bit_simps)
  next
    case False
    then have "\<not> bit b n" using bit_imp_le_length [of b n] by auto
    with False show ?thesis
      by (auto simp: bit_simps Cons.IH le_div_geq le_mod_geq)
  qed
qed simp

lemma crc_bits_push: "n \<le> 32 \<Longrightarrow> (\<And>k. bit x k \<Longrightarrow> k + n < 32) \<Longrightarrow> (crc_bit ^^ n) (push_bit n x) = x"
proof (induction n)
  case (Suc n)
  have "crc_bit (push_bit (Suc n) x) = push_bit n x"
    by (rule bit_eqI) (use Suc.prems(2) in \<open>fastforce simp: crc_bit_push bit_push_bit_iff simp del: push_bit_Suc\<close>)
  moreover have "(crc_bit ^^ n) (push_bit n x) = x"
    using Suc.prems by (intro Suc.IH) (auto dest: Suc.prems(2))
  ultimately show ?case by (simp only: funpow_Suc_right comp_apply)
qed simp

lemma foldl_crc_burst:
  "length bs \<le> 4 \<Longrightarrow> foldl crc_byte c bs = (crc_bit ^^ (8 * length bs)) (c XOR le_word bs)"
proof (induction bs arbitrary: c)
  case (Cons b bs)
  have low: "(crc_bit ^^ 8) (push_bit 8 (le_word bs)) = le_word bs"
    using Cons.prems by (intro crc_bits_push) (auto simp: bit_le_word)
  have "foldl crc_byte c (b # bs) = (crc_bit ^^ (8 * length bs)) (crc_byte c b XOR le_word bs)"
    using Cons by simp
  also have "crc_byte c b XOR le_word bs = (crc_bit ^^ 8) (c XOR le_word (b # bs))"
    by (simp add: crc_byte_def crc_bits_xor low xor.assoc)
  finally show ?case by (simp add: funpow_add add.commute [of 8])
qed simp

lemma le_word_inj:
  assumes "length u = length v" and "length u \<le> 4" and "le_word u = le_word v"
  shows "u = v"
proof (rule nth_equalityI)
  fix i assume i: "i < length u"
  show "u ! i = v ! i"
  proof (rule bit_word_eqI)
    fix n assume "n < LENGTH(8)"
    then have "8 * i + n < 32" and "(8 * i + n) div 8 = i" and "(8 * i + n) mod 8 = n"
      using i assms(2) by auto
    then show "bit (u ! i) n = bit (v ! i) n"
      using bit_le_word [of u "8 * i + n"] bit_le_word [of v "8 * i + n"] i assms(1,3) by simp
  qed
qed (fact assms(1))

lemma crc32_burst:
  assumes "length u = length v" and "length u \<le> 4" and "u \<noteq> v"
  shows "crc32_Checksum (xs @ u @ ys) \<noteq> crc32_Checksum (xs @ v @ ys)"
proof
  assume "crc32_Checksum (xs @ u @ ys) = crc32_Checksum (xs @ v @ ys)"
  then have "foldl crc_byte (foldl crc_byte (NOT 0) xs) u = foldl crc_byte (foldl crc_byte (NOT 0) xs) v"
    unfolding crc32_Checksum_def foldl_append unsigned_word_eqI by (metis bit.compl_eq_compl_iff foldl_crc_inj word_unat_eq_iff)
  then have "foldl crc_byte (NOT 0) xs XOR le_word u = foldl crc_byte (NOT 0) xs XOR le_word v"
    using assms(1,2) crc_bits_inj by (simp add: foldl_crc_burst)
  then have "le_word u = le_word v" by (simp add: xor_cancel_left)
  with assms show False using le_word_inj by blast
qed

lemma crc32_less: "crc32_Checksum p < 4294967296"
  using unsigned_less [of "NOT (foldl crc_byte (NOT 0) p)", where ?'a = nat] by (simp add: crc32_Checksum_def)

section \<open>Reading frames back\<close>

text \<open>The payload sizes that recovery accepts.\<close>

definition fits :: "bytes \<Rightarrow> bool" where
  "fits p \<longleftrightarrow> 0 < length p \<and> length p \<le> sanityMaxPayload"

abbreviation frame :: "bytes \<Rightarrow> bytes" where
  "frame p \<equiv> appendFrame [] p"

lemma appendFrame_frame: "appendFrame dst p = dst @ frame p"
  by (simp add: appendFrame_def)

lemma length_frame [simp]: "length (frame p) = 8 + length p"
  by (simp add: appendFrame_def)

lemma slice_append_right [simp]: "slice (xs @ ys) (length xs + i) (length xs + j) = slice ys i j"
  by (simp add: slice_def)

lemma slice_length_left [simp]: "slice (xs @ ys) (length xs) (length xs + j) = slice ys 0 j"
  using slice_append_right [of xs ys 0 j] by simp

lemma readFrame_size: "readFrame buf off = Inr (p, n) \<Longrightarrow> 0 < n"
  by (auto simp: readFrame_def Let_def split: if_split_asm)

lemma readFrame_at:
  "readFrame (pre @ buf) (length pre) =
     (case readFrame buf 0 of Inl e \<Rightarrow> Inl e | Inr (p, n) \<Rightarrow> Inr (p, n))"
proof -
  have "slice (pre @ buf) (length pre + a) (length pre + a + b) = slice buf a (a + b)" for a b
    using slice_append_right [of pre buf a "a + b"] by (simp only: add.assoc)
  from this [of 4 4] this [of 8] show ?thesis
    by (simp add: readFrame_def Let_def)
qed

lemma readFrame_fits:
  assumes "fits p"
  shows "readFrame (frame p @ rest) 0 = Inr (p, 8 + length p)"
proof -
  have "length p mod 4294967296 = length p" "crc32_Checksum p mod 4294967296 = crc32_Checksum p"
    using assms crc32_less by (auto simp: fits_def sanityMaxPayload_def)
  with assms show ?thesis
    by (auto simp: readFrame_def appendFrame_def slice_def fits_def Let_def)
qed

lemma readFrame_short:
  assumes "k < length (frame p)" and "length p < 2 ^ 32"
  shows "readFrame (take k (frame p)) 0 = Inl errTornFrame"
proof (cases "k < 8")
  case True
  then show ?thesis by (simp add: readFrame_def)
next
  case False
  have "length p mod 4294967296 = length p" using assms(2) by simp
  moreover have "slice (take k (frame p)) 0 4 = be_bytes 4 (length p)"
    using False by (simp add: appendFrame_def slice_def min_def)
  ultimately show ?thesis using assms(1) by (auto simp: readFrame_def Let_def)
qed

text \<open>A cut that falls strictly inside the frame, wherever the frame lies.\<close>

lemma readFrame_cut:
  assumes "k < length (frame p)" and "length p < 2 ^ 32"
  shows "readFrame (pre @ take k (frame p)) (length pre) = Inl errTornFrame"
  by (simp add: readFrame_at readFrame_short [OF assms])

lemma readFrame_intact:
  "fits p \<Longrightarrow> readFrame (pre @ frame p @ rest) (length pre) = Inr (p, 8 + length p)"
  by (simp add: readFrame_at readFrame_fits)

lemma fits_less: "fits p \<Longrightarrow> length p < 2 ^ 32"
  by (simp add: fits_def sanityMaxPayload_def)

section \<open>Records round trip\<close>

definition entry_ok :: "Entry \<Rightarrow> bool" where
  "entry_ok e \<longleftrightarrow> eTerm e < 2 ^ 64 \<and> eIndex e < 2 ^ 64 \<and> length (eData e) + 22 \<le> sanityMaxPayload"

definition hard_ok :: "HardState \<Rightarrow> bool" where
  "hard_ok hs \<longleftrightarrow> hsTerm hs < 2 ^ 64 \<and> hsVote hs < 2 ^ 64 \<and> hsCommit hs < 2 ^ 64"

definition meta_ok :: "SnapshotMetadata \<Rightarrow> bool" where
  "meta_ok m \<longleftrightarrow> smIndex m < 2 ^ 64 \<and> smTerm m < 2 ^ 64"

definition snap_ok :: "Snapshot \<Rightarrow> bool" where
  "snap_ok s \<longleftrightarrow> meta_ok (snMetadata s) \<and> length (snData s) + 21 \<le> sanityMaxPayload"

lemma decode_encode_entry: "entry_ok e \<Longrightarrow> decodeEntry (tl (encodeEntry e)) = Inr e"
  by (cases e) (auto simp: entry_ok_def decodeEntry_def encodeEntry_def slice_def Let_def nth_append sanityMaxPayload_def)

lemma decode_encode_hard: "hard_ok hs \<Longrightarrow> decodeHardState (tl (encodeHardState hs)) = Inr hs"
  by (cases hs) (auto simp: hard_ok_def decodeHardState_def encodeHardState_def slice_def)

lemma decode_encode_trunc: "meta_ok m \<Longrightarrow> decodeTruncateSuffix (tl (encodeTruncateSuffix m)) = Inr m"
  by (cases m) (auto simp: meta_ok_def decodeTruncateSuffix_def encodeTruncateSuffix_def slice_def)

lemma parse_snapPayload:
  "snap_ok s \<Longrightarrow> parseSnapPayload (snapPayload s t) = Inr \<lparr>ssSnapshot = s, ssTruncateSuffix = t\<rparr>"
  by (cases s; cases "snMetadata s")
    (auto simp: snap_ok_def meta_ok_def parseSnapPayload_def snapPayload_def slice_def Let_def nth_append sanityMaxPayload_def)

lemma encode_fits [simp]:
  "entry_ok e \<Longrightarrow> fits (encodeEntry e)" "fits (encodeHardState hs)" "fits (encodeTruncateSuffix m)"
  "snap_ok s \<Longrightarrow> fits (snapPayload s t)"
  by (auto simp: fits_def entry_ok_def snap_ok_def encodeEntry_def encodeHardState_def
      encodeTruncateSuffix_def snapPayload_def sanityMaxPayload_def)

section \<open>Properties\<close>

text \<open>
  A frame reads back: a payload of 1 byte to 64 MiB appended to any buffer, whatever
  follows it, is returned by \<open>readFrame\<close> at the offset where it was appended, together with
  the number of bytes it occupies.
\<close>

lemma readFrame_appendFrame:
  assumes "0 < length p" and "length p \<le> sanityMaxPayload"
  shows "readFrame (appendFrame dst p @ rest) (length dst) = Inr (p, frameHeaderSize + length p)"
  using assms by (simp add: appendFrame_frame [of dst] readFrame_intact fits_def)

lemma readFrame_appendFrame_example:
  "readFrame (appendFrame [7] [1, 2, 3] @ [9]) 1 = Inr ([1, 2, 3], 11)"
  using readFrame_appendFrame [of "[1, 2, 3]" "[7]" "[9]"] by (simp add: sanityMaxPayload_def)

text \<open>
  C22. Torn and corrupt frames are refused. A frame cut short anywhere is torn, and so is an
  intact-length frame whose payload differs from the one that was written in a stretch of
  at most four consecutive bytes (any burst of up to 25 bits, in particular any single
  byte): the CRC cannot collide on those.
\<close>

theorem readFrame_refuses_damage:
  assumes "0 < length (xs @ u @ ys)" and "length (xs @ u @ ys) \<le> sanityMaxPayload"
  shows "(\<forall>k < length (appendFrame [] (xs @ u @ ys)).
      readFrame (dst @ take k (appendFrame [] (xs @ u @ ys))) (length dst) = Inl errTornFrame) \<and>
    (\<forall>v rest. length v = length u \<longrightarrow> length u \<le> 4 \<longrightarrow> v \<noteq> u \<longrightarrow>
      readFrame (dst @ take frameHeaderSize (appendFrame [] (xs @ u @ ys)) @ (xs @ v @ ys) @ rest) (length dst) =
        Inl errTornFrame)"
proof (intro conjI allI impI)
  let ?p = "xs @ u @ ys"
  have fits: "fits ?p" using assms by (simp add: fits_def)
  fix k assume "k < length (appendFrame [] ?p)"
  then show "readFrame (dst @ take k (appendFrame [] ?p)) (length dst) = Inl errTornFrame"
    using readFrame_cut fits_less [OF fits] by blast
next
  let ?p = "xs @ u @ ys"
  fix v rest
  assume v: "length v = length u" "length u \<le> 4" "v \<noteq> u"
  have "crc32_Checksum (xs @ v @ ys) \<noteq> crc32_Checksum ?p" using crc32_burst v by metis
  moreover have "length ?p mod 4294967296 = length ?p" "crc32_Checksum ?p mod 4294967296 = crc32_Checksum ?p"
    using assms crc32_less by (auto simp: sanityMaxPayload_def)
  ultimately have "readFrame (take frameHeaderSize (appendFrame [] ?p) @ (xs @ v @ ys) @ rest) 0 = Inl errTornFrame"
    using v(1) assms by (simp add: readFrame_def appendFrame_def slice_def Let_def)
  then show "readFrame (dst @ take frameHeaderSize (appendFrame [] ?p) @ (xs @ v @ ys) @ rest) (length dst) = Inl errTornFrame"
    by (simp add: readFrame_at)
qed

theorem readFrame_refuses_damage_witness:
  "readFrame (take 10 (appendFrame [] [1, 2, 3])) 0 = Inl errTornFrame \<and>
   readFrame (take 8 (appendFrame [] [1, 2, 3]) @ [1, 4, 3]) 0 = Inl errTornFrame"
proof -
  note damage = readFrame_refuses_damage [of "[1]" "[2]" "[3]" "[]"]
  have "readFrame (take 10 (appendFrame [] [1, 2, 3])) 0 = Inl errTornFrame"
    using damage by (simp add: sanityMaxPayload_def)
  moreover have "readFrame (take 8 (appendFrame [] [1, 2, 3]) @ [1, 4, 3]) 0 = Inl errTornFrame"
    using damage [THEN conjunct2, THEN spec [where x = "[4]"], THEN spec [where x = "[]"]]
    by (simp add: sanityMaxPayload_def)
  ultimately show ?thesis ..
qed

text \<open>
  C37. Writer and reader disagree on the size limit: \<open>appendFrame\<close> frames a payload of more
  than 64 MiB without complaint, and \<open>readFrame\<close> then takes the intact frame for a torn
  tail, so recovery drops it and everything after it.
\<close>

theorem oversize_frame_is_torn:
  assumes "sanityMaxPayload < length p" and "length p < 2 ^ 32"
  shows "readFrame (appendFrame dst p @ rest) (length dst) = Inl errTornFrame"
proof -
  have "length p mod 4294967296 = length p" using assms(2) by simp
  then have "readFrame (appendFrame [] p @ rest) 0 = Inl errTornFrame"
    using assms(1) by (simp add: readFrame_def appendFrame_def slice_def Let_def)
  then show ?thesis by (simp add: appendFrame_frame [of dst] readFrame_at)
qed

theorem oversize_frame_is_torn_witness:
  "readFrame (appendFrame [] (replicate 67108865 0)) 0 = Inl errTornFrame"
  using oversize_frame_is_torn [of "replicate 67108865 0" "[]" "[]"] by (simp add: sanityMaxPayload_def)

text \<open>
  C23. The records of the write-ahead log and the snapshot file round trip: each decoder
  returns what its encoder wrote, for every 64-bit term, index and vote and every payload
  within the size limit.
\<close>

theorem record_round_trips:
  assumes "entry_ok e" and "hard_ok hs" and "meta_ok m" and "snap_ok s"
  shows "decodeEntry (tl (encodeEntry e)) = Inr e \<and> decodeHardState (tl (encodeHardState hs)) = Inr hs \<and>
    decodeTruncateSuffix (tl (encodeTruncateSuffix m)) = Inr m \<and>
    parseSnapPayload (snapPayload s t) = Inr \<lparr>ssSnapshot = s, ssTruncateSuffix = t\<rparr>"
  using assms by (simp add: decode_encode_entry decode_encode_hard decode_encode_trunc parse_snapPayload)

theorem record_round_trips_witness:
  "decodeEntry (tl (encodeEntry \<lparr>eTerm = 2, eIndex = 5, eType = EntryNormal, eData = [1, 2]\<rparr>)) =
     Inr \<lparr>eTerm = 2, eIndex = 5, eType = EntryNormal, eData = [1, 2]\<rparr>"
  using record_round_trips [of "\<lparr>eTerm = 2, eIndex = 5, eType = EntryNormal, eData = [1, 2]\<rparr>" hardState0
      "\<lparr>smIndex = 1, smTerm = 1\<rparr>" snapshot0]
  by (simp add: entry_ok_def hard_ok_def meta_ok_def snap_ok_def hardState0_def snapshot0_def sanityMaxPayload_def)

end
