(* ===== verification/Disk_Storage.thy ===== *)
theory Disk_Storage
  imports Disk_Framing Mem_Storage "HOL-Library.AList" "HOL-Library.List_Lexorder" "HOL-Library.Char_ord"
begin

text \<open>
  The durable storage of \<^verbatim>\<open>storage/disk\<close>: \<^verbatim>\<open>disk.go\<close> (the mirror and the buffered
  appends), \<^verbatim>\<open>wal.go\<close> (segments, replay, recovery, sync) and \<^verbatim>\<open>snapshot.go\<close> (snapshot
  files), over a model of the directory it writes to.

  A file is its bytes and how many of them are durable. Every system call consumes one entry
  of \<open>fsFaults\<close>: \<open>None\<close> lets it succeed (and so does the empty list), \<open>Some k\<close> makes it fail,
  a failing write having written its first \<open>k\<close> bytes. A failure at the n-th call leaves on
  disk exactly what a process killed there leaves, so the theorems about arbitrary fault
  lists are also about crashes between any two calls. The test hooks are nil and left out.
\<close>

section \<open>Files\<close>

record dfile =
  fData :: bytes
  fSynced :: nat

record fs =
  fsFiles :: "(string \<times> dfile) list"
  fsFaults :: "nat option list"

type_synonym ('s, 'a) io = "'s \<Rightarrow> (disk_error + 'a) \<times> 's"

definition io_return :: "'a \<Rightarrow> ('s, 'a) io" where
  "io_return a s = (Inr a, s)"

definition io_fail :: "disk_error \<Rightarrow> ('s, 'a) io" where
  "io_fail e s = (Inl e, s)"

definition io_bind :: "('s, 'a) io \<Rightarrow> ('a \<Rightarrow> ('s, 'b) io) \<Rightarrow> ('s, 'b) io" where
  "io_bind m f s = (case m s of (Inl e, s') \<Rightarrow> (Inl e, s') | (Inr a, s') \<Rightarrow> f a s')"

definition io_then :: "('s, unit) io \<Rightarrow> ('s, 'b) io \<Rightarrow> ('s, 'b) io" where
  "io_then m m' = io_bind m (\<lambda>_. m')"

definition io_modify :: "('s \<Rightarrow> 's) \<Rightarrow> ('s, unit) io" where
  "io_modify f s = (Inr (), f s)"

text \<open>Run \<open>cleanup\<close> (whose own error is dropped) when \<open>m\<close> fails.\<close>

definition io_cleanup :: "('s, 'a) io \<Rightarrow> ('s, unit) io \<Rightarrow> ('s, 'a) io" where
  "io_cleanup m cleanup s = (case m s of (Inl e, s') \<Rightarrow> (Inl e, snd (cleanup s')) | r \<Rightarrow> r)"

section \<open>System calls\<close>

definition next_fault :: "'z fs_scheme \<Rightarrow> nat option \<times> 'z fs_scheme" where
  "next_fault s = (case fsFaults s of [] \<Rightarrow> (None, s) | f # fs \<Rightarrow> (f, s\<lparr>fsFaults := fs\<rparr>))"

definition syscall :: "string \<Rightarrow> ('z fs_scheme, 'a) io \<Rightarrow> ('z fs_scheme, 'a) io" where
  "syscall what act s =
     (case next_fault s of (None, s) \<Rightarrow> act s | (Some _, s) \<Rightarrow> (Inl (IOError what), s))"

definition set_file :: "string \<Rightarrow> dfile \<Rightarrow> 'z fs_scheme \<Rightarrow> 'z fs_scheme" where
  "set_file n f s = s\<lparr>fsFiles := AList.update n f (fsFiles s)\<rparr>"

text \<open>An operation on an existing file; the call fails when there is none.\<close>

definition with_file :: "string \<Rightarrow> string \<Rightarrow> (dfile \<Rightarrow> ('z fs_scheme, 'a) io) \<Rightarrow> ('z fs_scheme, 'a) io" where
  "with_file what n act s =
     (case map_of (fsFiles s) n of None \<Rightarrow> (Inl (IOError what), s) | Some f \<Rightarrow> act f s)"

definition os_MkdirAll :: "('z fs_scheme, unit) io" where
  "os_MkdirAll = syscall ''mkdir'' (io_return ())"

definition os_ReadDir :: "('z fs_scheme, string list) io" where
  "os_ReadDir = syscall ''readdir'' (\<lambda>s. (Inr (map fst (fsFiles s)), s))"

definition os_ReadFile :: "string \<Rightarrow> ('z fs_scheme, bytes) io" where
  "os_ReadFile n = syscall ''read'' (with_file ''read'' n (\<lambda>f. io_return (fData f)))"

definition os_OpenTrunc :: "string \<Rightarrow> ('z fs_scheme, unit) io" where
  "os_OpenTrunc n = syscall ''create'' (io_modify (set_file n \<lparr>fData = [], fSynced = 0\<rparr>))"

definition os_OpenCreate :: "string \<Rightarrow> ('z fs_scheme, unit) io" where
  "os_OpenCreate n = syscall ''create''
     (\<lambda>s. case map_of (fsFiles s) n of
            None \<Rightarrow> (Inr (), set_file n \<lparr>fData = [], fSynced = 0\<rparr> s)
          | Some _ \<Rightarrow> (Inr (), s))"

definition os_OpenExisting :: "string \<Rightarrow> ('z fs_scheme, unit) io" where
  "os_OpenExisting n = syscall ''open'' (with_file ''open'' n (\<lambda>f. io_return ()))"

definition f_Stat :: "string \<Rightarrow> ('z fs_scheme, nat) io" where
  "f_Stat n = syscall ''stat'' (with_file ''stat'' n (\<lambda>f. io_return (length (fData f))))"

definition f_Write :: "string \<Rightarrow> bytes \<Rightarrow> ('z fs_scheme, unit) io" where
  "f_Write n d s =
     (case next_fault s of
        (None, s) \<Rightarrow> with_file ''write'' n (\<lambda>f. io_modify (set_file n (f\<lparr>fData := fData f @ d\<rparr>))) s
      | (Some k, s) \<Rightarrow>
          (case map_of (fsFiles s) n of
             None \<Rightarrow> (Inl (IOError ''write''), s)
           | Some f \<Rightarrow> (Inl (IOError ''write''), set_file n (f\<lparr>fData := fData f @ take k d\<rparr>) s)))"

definition f_Sync :: "string \<Rightarrow> ('z fs_scheme, unit) io" where
  "f_Sync n = syscall ''fsync''
     (with_file ''fsync'' n (\<lambda>f. io_modify (set_file n (f\<lparr>fSynced := length (fData f)\<rparr>))))"

definition f_Truncate :: "string \<Rightarrow> nat \<Rightarrow> ('z fs_scheme, unit) io" where
  "f_Truncate n k = syscall ''truncate''
     (with_file ''truncate'' n (\<lambda>f. io_modify (set_file n \<lparr>fData = take k (fData f), fSynced = min (fSynced f) k\<rparr>)))"

definition f_Close :: "('z fs_scheme, unit) io" where
  "f_Close = syscall ''close'' (io_return ())"

definition os_Remove :: "string \<Rightarrow> ('z fs_scheme, unit) io" where
  "os_Remove n = syscall ''remove''
     (with_file ''remove'' n (\<lambda>_. io_modify (\<lambda>s. s\<lparr>fsFiles := AList.delete n (fsFiles s)\<rparr>)))"

definition os_Rename :: "string \<Rightarrow> string \<Rightarrow> ('z fs_scheme, unit) io" where
  "os_Rename a b = syscall ''rename''
     (with_file ''rename'' a (\<lambda>f. io_modify (\<lambda>s. set_file b f (s\<lparr>fsFiles := AList.delete a (fsFiles s)\<rparr>))))"

definition fsyncDir :: "('z fs_scheme, unit) io" where
  "fsyncDir = io_then (syscall ''open dir'' (io_return ())) (syscall ''fsync dir'' (io_return ()))"

text \<open>What a power failure leaves: of each file, the durable bytes and some of the others.\<close>

definition crash_file :: "dfile \<Rightarrow> dfile \<Rightarrow> bool" where
  "crash_file f f' \<longleftrightarrow> (\<exists>k. fSynced f \<le> k \<and> k \<le> length (fData f) \<and> f' = \<lparr>fData = take k (fData f), fSynced = k\<rparr>)"

definition crash :: "'z fs_scheme \<Rightarrow> 'z fs_scheme \<Rightarrow> bool" where
  "crash s s' \<longleftrightarrow> list_all2 (\<lambda>(n, f) (n', f'). n' = n \<and> crash_file f f') (fsFiles s) (fsFiles s')"

section \<open>State and file names\<close>

record DiskStorage = fs +
  dHardState :: HardState
  dSnapshot :: Snapshot
  dSnapshotTruncationPending :: bool
  dEntries :: "Entry list"
  dBuf :: bytes
  dSeg :: "string option"
  dSegSize :: nat
  dSegSeq :: nat
  dNoSync :: bool
  dMaxSegmentSize :: nat  \<comment> \<open>the package variable \<open>maxSegmentSize\<close>\<close>

definition maxSegmentSize :: nat where
  "maxSegmentSize = 16 * 2 ^ 20"

definition DisableSync :: "DiskStorage \<Rightarrow> DiskStorage" where
  "DisableSync s = s\<lparr>dNoSync := True\<rparr>"

definition disk_offset :: "DiskStorage \<Rightarrow> nat" where
  "disk_offset s = snIndex (dSnapshot s)"

text \<open>Zero-padded decimal numerals, \<open>%0kd\<close> for a number of at most \<open>k\<close> digits.\<close>

primrec dec_digits :: "nat \<Rightarrow> nat \<Rightarrow> string" where
  "dec_digits 0 n = []"
| "dec_digits (Suc k) n = dec_digits k (n div 10) @ [char_of (48 + n mod 10)]"

definition dec_value :: "string \<Rightarrow> nat" where
  "dec_value ds = foldl (\<lambda>a d. 10 * a + (of_char d - 48)) 0 ds"

definition is_digit :: "char \<Rightarrow> bool" where
  "is_digit c \<longleftrightarrow> 48 \<le> (of_char c :: nat) \<and> (of_char c :: nat) \<le> 57"

definition segmentName :: "nat \<Rightarrow> string" where
  "segmentName seq = ''wal-'' @ dec_digits 20 seq @ ''.seg''"

definition snapshotName :: "nat \<Rightarrow> string" where
  "snapshotName index = ''snap-'' @ dec_digits 20 index @ ''.snap''"

definition hasPrefix :: "string \<Rightarrow> string \<Rightarrow> bool" where
  "hasPrefix n p \<longleftrightarrow> take (length p) n = p"

definition hasSuffix :: "string \<Rightarrow> string \<Rightarrow> bool" where
  "hasSuffix n p \<longleftrightarrow> length p \<le> length n \<and> drop (length n - length p) n = p"

text \<open>\<open>Sscanf\<close> of \<open>wal-%020d.seg\<close>: blanks are skipped, at most 20 digits read, the value must fit 64 bits.\<close>

definition parseSegmentSeq :: "string \<Rightarrow> disk_error + nat" where
  "parseSegmentSeq name =
     (let rest = dropWhile (\<lambda>c. c = CHR '' '') (drop 4 name);
          ds = takeWhile is_digit (take 20 rest)
      in if \<not> hasPrefix name ''wal-'' \<or> ds = [] \<or> 2 ^ 64 \<le> dec_value ds \<or>
            \<not> hasPrefix (drop (length ds) rest) ''.seg''
         then Inl (BadSegmentName name) else Inr (dec_value ds))"

section \<open>The log interface\<close>

definition disk_AppendEntries :: "DiskStorage \<Rightarrow> Entry list \<Rightarrow> (raft_error option \<times> DiskStorage) option" where
  "disk_AppendEntries s entries =
     (if entries = [] then Some (None, s)
      else
        let off = disk_offset s;
            first = eIndex (hd entries);
            lst = eIndex (last entries)
        in if lst \<le> off then Some (None, s)
           else if first \<le> off \<and> length entries \<le> off + 1 - first then None
           else
             let entries = (if first \<le> off then drop (off + 1 - first) entries else entries);
                 first = eIndex (hd entries);
                 pos = usub64 first (off + 1)
             in if length (dEntries s) < pos then Some (Some ErrUnavailable, s)
                else Some (None, s\<lparr>dEntries := take pos (dEntries s) @ entries,
                                   dBuf := foldl (\<lambda>b e. appendFrame b (encodeEntry e)) (dBuf s) entries\<rparr>))"

definition disk_SetHardState :: "DiskStorage \<Rightarrow> HardState \<Rightarrow> raft_error option \<times> DiskStorage" where
  "disk_SetHardState s st = (None, s\<lparr>dHardState := st, dBuf := appendFrame (dBuf s) (encodeHardState st)\<rparr>)"

definition disk_HardState :: "DiskStorage \<Rightarrow> raft_error + HardState" where
  "disk_HardState s = Inr (dHardState s)"

definition disk_Entries :: "DiskStorage \<Rightarrow> nat \<Rightarrow> nat \<Rightarrow> raft_error + Entry list" where
  "disk_Entries s lo hi =
     (let off = disk_offset s;
          lst = off + length (dEntries s)
      in if lo \<le> off then Inl ErrCompacted
         else if lst + 1 < hi then Inl ErrUnavailable
         else if hi < lo then Inl ErrUnavailable
         else if lo = hi then Inr []
         else Inr (take (hi - lo) (drop (lo - off - 1) (dEntries s))))"

definition disk_Term :: "DiskStorage \<Rightarrow> nat \<Rightarrow> raft_error + nat" where
  "disk_Term s i =
     (let off = disk_offset s
      in if i = off then Inr (snTerm (dSnapshot s))
         else if i < off then Inl ErrCompacted
         else if off + length (dEntries s) < i then Inl ErrUnavailable
         else Inr (eTerm (dEntries s ! (i - off - 1))))"

definition disk_FirstIndex :: "DiskStorage \<Rightarrow> raft_error + nat" where
  "disk_FirstIndex s = Inr (disk_offset s + 1)"

definition disk_LastIndex :: "DiskStorage \<Rightarrow> raft_error + nat" where
  "disk_LastIndex s = Inr (disk_offset s + length (dEntries s))"

definition disk_Snapshot :: "DiskStorage \<Rightarrow> raft_error + Snapshot" where
  "disk_Snapshot s = Inr (dSnapshot s)"

section \<open>Segments\<close>

definition rotateSegment :: "nat \<Rightarrow> (DiskStorage, unit) io" where
  "rotateSegment seq s =
     (case (if dSeg s \<noteq> None
            then io_then f_Close (io_modify (\<lambda>s. s\<lparr>dSeg := None\<rparr>)) s else (Inr (), s)) of
        (Inl e, s) \<Rightarrow> (Inl e, s)
      | (Inr _, s) \<Rightarrow>
          io_then (os_OpenCreate (segmentName seq))
            (io_then (io_modify (\<lambda>s. s\<lparr>dSeg := Some (segmentName seq), dSegSize := 0, dSegSeq := seq\<rparr>))
               fsyncDir) s)"

definition syncBuffered :: "bool \<Rightarrow> (DiskStorage, unit) io" where
  "syncBuffered durable s =
     (if length (dBuf s) = 0 then (Inr (), s)
      else
        io_then (\<lambda>s. if dMaxSegmentSize s \<le> dSegSize s then rotateSegment (dSegSeq s + 1) s else (Inr (), s))
          (\<lambda>s. case dSeg s of
                 None \<Rightarrow> (Inl (IOError ''write''), s)
               | Some seg \<Rightarrow>
                   io_then (f_Write seg (dBuf s))
                     (io_then (if durable then f_Sync seg else io_return ())
                       (io_modify (\<lambda>s. s\<lparr>dSegSize := dSegSize s + length (dBuf s), dBuf := []\<rparr>))) s) s)"

definition Sync :: "(DiskStorage, unit) io" where
  "Sync s = syncBuffered (\<not> dNoSync s) s"

definition disk_Close :: "(DiskStorage, unit) io" where
  "disk_Close s =
     (if dSeg s = None then (Inr (), s)
      else case f_Close s of (r, s) \<Rightarrow> (r, s\<lparr>dSeg := None\<rparr>))"

section \<open>Snapshot files\<close>

definition writeSnapshotFile :: "Snapshot \<Rightarrow> bool \<Rightarrow> (DiskStorage, unit) io" where
  "writeSnapshotFile snap truncateSuffix =
     (let final = snapshotName (snIndex snap);
          tmp = final @ ''.tmp'';
          framed = appendFrame [] (snapPayload snap truncateSuffix)
      in io_then (os_OpenTrunc tmp)
         (io_then (io_cleanup (io_then (f_Write tmp framed) (f_Sync tmp))
                     (\<lambda>s. os_Remove tmp (snd (f_Close s))))
         (io_then (io_cleanup f_Close (os_Remove tmp))
         (io_then (io_cleanup (os_Rename tmp final) (os_Remove tmp))
            fsyncDir))))"

text \<open>The wrapped error an operation of the log interface returns.\<close>

fun storage_error :: "disk_error \<Rightarrow> raft_error" where
  "storage_error errTornFrame = ErrStorage ''disk: torn or corrupt frame''"
| "storage_error (IOError what) = ErrStorage (''disk: '' @ what)"
| "storage_error (BadSegmentName n) = ErrStorage (''disk: bad segment name '' @ n)"

definition disk_ApplySnapshot :: "DiskStorage \<Rightarrow> Snapshot \<Rightarrow> raft_error option \<times> DiskStorage" where
  "disk_ApplySnapshot s snap =
     (if snIndex snap \<le> disk_offset s then (Some ErrCompacted, s)
      else
        let off = disk_offset s;
            lst = off + length (dEntries s);
            retainSuffix = (snIndex snap < lst \<and> eTerm (dEntries s ! (snIndex snap - off - 1)) = snTerm snap);
            truncateSuffix = (snIndex snap < lst \<and> \<not> retainSuffix)
        in case writeSnapshotFile snap truncateSuffix s of
             (Inl e, s) \<Rightarrow> (Some (storage_error e), s)
           | (Inr _, s) \<Rightarrow>
               let s = s\<lparr>dEntries := (if retainSuffix then drop (snIndex snap - off) (dEntries s) else []),
                         dSnapshot := snap, dSnapshotTruncationPending := truncateSuffix\<rparr>
               in if truncateSuffix then
                    (case syncBuffered True (s\<lparr>dBuf := appendFrame (dBuf s) (encodeTruncateSuffix (snMetadata snap))\<rparr>) of
                       (Inl e, s) \<Rightarrow> (Some (storage_error e), s)
                     | (Inr _, s) \<Rightarrow> (None, s\<lparr>dSnapshotTruncationPending := False\<rparr>))
                  else (None, s))"

definition readSnapshotFile :: "string \<Rightarrow> (DiskStorage, storedSnapshot) io" where
  "readSnapshotFile path =
     io_bind (os_ReadFile path) (\<lambda>data s. (res_bind (readFrame data 0) (\<lambda>(payload, _). parseSnapPayload payload), s))"

fun loadSnapshotLoop :: "string list \<Rightarrow> DiskStorage \<Rightarrow> DiskStorage" where
  "loadSnapshotLoop [] s = s"
| "loadSnapshotLoop (n # ns) s =
     (case readSnapshotFile n s of
        (Inl _, s) \<Rightarrow> loadSnapshotLoop ns s
      | (Inr stored, s) \<Rightarrow>
          s\<lparr>dSnapshot := ssSnapshot stored, dSnapshotTruncationPending := ssTruncateSuffix stored\<rparr>)"

definition loadLatestSnapshot :: "(DiskStorage, unit) io" where
  "loadLatestSnapshot =
     io_bind os_ReadDir (\<lambda>ents.
       let names = sort (filter (\<lambda>n. hasPrefix n ''snap-'' \<and> hasSuffix n ''.snap'') ents)
       in io_modify (loadSnapshotLoop (rev names)))"

definition disk_Sync :: "DiskStorage \<Rightarrow> raft_error option \<times> DiskStorage" where
  "disk_Sync s = (case Sync s of (Inl e, s) \<Rightarrow> (Some (storage_error e), s) | (Inr _, s) \<Rightarrow> (None, s))"

definition diskOps :: "DiskStorage LogStorage" where
  "diskOps =
     \<lparr>opAppendEntries = disk_AppendEntries, opSetHardState = disk_SetHardState,
      opHardState = disk_HardState, opEntries = disk_Entries, opTerm = disk_Term,
      opFirstIndex = disk_FirstIndex, opLastIndex = disk_LastIndex,
      opApplySnapshot = disk_ApplySnapshot, opSnapshot = disk_Snapshot\<rparr>"

section \<open>Recovery\<close>

definition listSegments :: "(DiskStorage, string list) io" where
  "listSegments =
     io_bind os_ReadDir (\<lambda>ents.
       io_return (sort (filter (\<lambda>n. hasPrefix n ''wal-'' \<and> hasSuffix n ''.seg'') ents)))"

definition truncateSuffix :: "nat \<Rightarrow> DiskStorage \<Rightarrow> DiskStorage" where
  "truncateSuffix index s =
     (let off = disk_offset s
      in if index \<le> off then s\<lparr>dEntries := []\<rparr>
         else if index - off < length (dEntries s) then s\<lparr>dEntries := take (index - off) (dEntries s)\<rparr>
         else s)"

definition applyEntryRecord :: "Entry \<Rightarrow> (DiskStorage, unit) io" where
  "applyEntryRecord e s =
     (let off = disk_offset s
      in if eIndex e \<le> off then (Inr (), s)
         else if length (dEntries s) < eIndex e - (off + 1) then (Inl errTornFrame, s)
         else (Inr (), s\<lparr>dEntries := take (eIndex e - (off + 1)) (dEntries s) @ [e]\<rparr>))"

definition applyRecord :: "bytes \<Rightarrow> (DiskStorage, unit) io" where
  "applyRecord payload s =
     (if length payload = 0 then (Inl errTornFrame, s)
      else
        let body = tl payload
        in if hd payload = recEntry then
             (case decodeEntry body of Inl e \<Rightarrow> (Inl e, s) | Inr e \<Rightarrow> applyEntryRecord e s)
           else if hd payload = recHardState then
             (case decodeHardState body of Inl e \<Rightarrow> (Inl e, s) | Inr st \<Rightarrow> (Inr (), s\<lparr>dHardState := st\<rparr>))
           else if hd payload = recTruncateSuffix then
             (case decodeTruncateSuffix body of
                Inl e \<Rightarrow> (Inl e, s)
              | Inr meta \<Rightarrow>
                  let s = truncateSuffix (smIndex meta) s
                  in (Inr (), if dSnapshotTruncationPending s \<and> meta = snMetadata (dSnapshot s)
                              then s\<lparr>dSnapshotTruncationPending := False\<rparr> else s))
           else (Inl errTornFrame, s))"

text \<open>The loop of \<open>replaySegment\<close>: the offset it stopped at and whether the tail is torn.\<close>

function replayLoop :: "bytes \<Rightarrow> nat \<Rightarrow> DiskStorage \<Rightarrow> (nat \<times> bool) \<times> DiskStorage" where
  "replayLoop data off s =
     (if off < length data then
        (case readFrame data off of
           Inl _ \<Rightarrow> ((off, True), s)
         | Inr (payload, n) \<Rightarrow>
             (case applyRecord payload s of
                (Inl _, s) \<Rightarrow> ((off, True), s)
              | (Inr _, s) \<Rightarrow> replayLoop data (off + n) s))
      else ((off, False), s))"
  by pat_completeness auto
termination
  by (relation "measure (\<lambda>(data, off, s). length data - off)") (auto dest: readFrame_size)

declare replayLoop.simps [simp del]

definition truncateSegment :: "string \<Rightarrow> nat \<Rightarrow> (DiskStorage, unit) io" where
  "truncateSegment path sz =
     io_then (os_OpenExisting path) (io_then (f_Truncate path sz) (f_Sync path))"

definition replaySegment :: "string \<Rightarrow> (DiskStorage, bool) io" where
  "replaySegment name =
     io_bind (os_ReadFile name) (\<lambda>data s.
       case replayLoop data 0 s of
         ((off, torn), s) \<Rightarrow>
           (if torn then io_then (truncateSegment name off) (io_return True) s else (Inr False, s)))"

fun removeLoop :: "string list \<Rightarrow> (DiskStorage, unit) io" where
  "removeLoop [] = io_return ()"
| "removeLoop (n # ns) = io_then (os_Remove n) (removeLoop ns)"

definition removeSegments :: "string list \<Rightarrow> (DiskStorage, unit) io" where
  "removeSegments names = io_then (removeLoop names) (if 0 < length names then fsyncDir else io_return ())"

text \<open>The segment loop of \<open>Open\<close>, returning the segments that are left.\<close>

fun replayAll :: "string list \<Rightarrow> (DiskStorage, string list) io" where
  "replayAll [] = io_return []"
| "replayAll (n # ns) =
     io_bind (replaySegment n) (\<lambda>torn.
       if torn then io_then (removeSegments ns) (io_return [n])
       else io_bind (replayAll ns) (\<lambda>kept. io_return (n # kept)))"

definition openActiveSegment :: "string list \<Rightarrow> (DiskStorage, unit) io" where
  "openActiveSegment segs =
     (if length segs = 0 then rotateSegment 1
      else
        let name = last segs
        in case parseSegmentSeq name of
             Inl e \<Rightarrow> io_fail e
           | Inr seq \<Rightarrow>
               io_then (os_OpenExisting name)
                 (io_bind (io_cleanup (f_Stat name) f_Close) (\<lambda>sz.
                    io_modify (\<lambda>s. s\<lparr>dSeg := Some name, dSegSize := sz, dSegSeq := seq\<rparr>))))"

text \<open>\<open>&Storage{dir: dir}\<close>: everything zero but the directory (and the package variable).\<close>

definition fresh :: "DiskStorage \<Rightarrow> DiskStorage" where
  "fresh s = s\<lparr>dHardState := hardState0, dSnapshot := snapshot0, dSnapshotTruncationPending := False,
     dEntries := [], dBuf := [], dSeg := None, dSegSize := 0, dSegSeq := 0, dNoSync := False\<rparr>"

definition Open :: "(DiskStorage, unit) io" where
  "Open s =
     io_then os_MkdirAll (io_then (io_modify fresh) (io_then loadLatestSnapshot
       (io_bind listSegments (\<lambda>segs. io_bind (replayAll segs) (\<lambda>segs s.
          let repair = dSnapshotTruncationPending s;
              s = (if repair then s\<lparr>dEntries := []\<rparr> else s)
          in io_then (openActiveSegment segs)
               (if repair then
                  io_then (io_modify (\<lambda>s. s\<lparr>dBuf := appendFrame (dBuf s) (encodeTruncateSuffix (snMetadata (dSnapshot s)))\<rparr>))
                    (io_then (io_cleanup (syncBuffered True) disk_Close)
                       (io_modify (\<lambda>s. s\<lparr>dSnapshotTruncationPending := False\<rparr>)))
                else io_return ()) s))))) s"

end
