(* ===== verification/Disk_Recovery.thy ===== *)
theory Disk_Recovery
  imports Disk_Storage "HOL-Library.Sublist"
begin

text \<open>
  Correctness of the durable storage of \<^verbatim>\<open>Disk_Storage\<close>.

  A write-ahead log is a list of records. \<open>install\<close> is the effect of one record on the
  entries above a given offset, and \<open>tracks\<close> says that replaying the log at any offset at or
  above the snapshot gives back the mirrored entries. The directory invariant \<open>disk_inv\<close>
  ties the bytes of the segment and snapshot files to such a log, and every operation on the
  log keeps it. \<open>Open_ok\<close> says what \<open>Open\<close> makes of a directory whose last segment may end in
  a torn frame.
\<close>

section \<open>File names sort like their numbers\<close>

lemma length_dec_digits [simp]: "length (dec_digits k n) = k"
  by (induction k arbitrary: n) auto

lemma char_of_digit_less:
  "a < b \<Longrightarrow> b < 10 \<Longrightarrow> (char_of (48 + a :: nat) :: char) < char_of (48 + b)"
  by (simp add: less_char_def)

lemma append_less_same_length:
  "length xs = length ys \<Longrightarrow> (xs :: 'a::linorder list) < ys \<Longrightarrow> xs @ us < ys @ vs"
  by (induction xs ys rule: list_induct2) auto

lemma append_less_same_prefix: "(us :: 'a::linorder list) < vs \<Longrightarrow> xs @ us < xs @ vs"
  by (induction xs) auto

lemma dec_digits_mono: "a < b \<Longrightarrow> b < 10 ^ k \<Longrightarrow> dec_digits k a < dec_digits k b"
proof (induction k arbitrary: a b)
  case (Suc k)
  show ?case
  proof (cases "a div 10 = b div 10")
    case True
    then have "a mod 10 < b mod 10"
      using Suc.prems(1) by (metis mult_div_mod_eq nat_add_left_cancel_less)
    with True show ?thesis
      by (auto intro!: append_less_same_prefix simp: char_of_digit_less)
  next
    case False
    with Suc.prems have "dec_digits k (a div 10) < dec_digits k (b div 10)"
      by (intro Suc.IH) (auto simp: less_mult_imp_div_less order_le_neq_trans div_le_mono)
    then show ?thesis by (auto intro: append_less_same_length)
  qed
qed simp

lemma dec_digits_are_digits: "d \<in> set (dec_digits k n) \<Longrightarrow> is_digit d"
  by (induction k arbitrary: n) (auto simp: is_digit_def)

lemma dec_value_snoc: "dec_value (ds @ [d]) = 10 * dec_value ds + (of_char d - 48)"
  by (simp add: dec_value_def)

lemma dec_value_dec_digits: "n < 10 ^ k \<Longrightarrow> dec_value (dec_digits k n) = n"
proof (induction k arbitrary: n)
  case (Suc k)
  then have "dec_value (dec_digits k (n div 10)) = n div 10"
    by (simp add: less_mult_imp_div_less)
  then show ?case by (simp add: dec_value_snoc)
qed (simp add: dec_value_def)

lemma segmentName_mono: "a < b \<Longrightarrow> b < 2 ^ 64 \<Longrightarrow> segmentName a < segmentName b"
  unfolding segmentName_def
  by (intro append_less_same_prefix append_less_same_length dec_digits_mono) auto

lemma snapshotName_mono: "a < b \<Longrightarrow> b < 2 ^ 64 \<Longrightarrow> snapshotName a < snapshotName b"
  unfolding snapshotName_def
  by (intro append_less_same_prefix append_less_same_length dec_digits_mono) auto

lemma segmentName_inj: "a < 2 ^ 64 \<Longrightarrow> b < 2 ^ 64 \<Longrightarrow> segmentName a = segmentName b \<longleftrightarrow> a = b"
  using segmentName_mono [of a b] segmentName_mono [of b a] by (cases a b rule: linorder_cases) auto

lemma snapshotName_inj: "a < 2 ^ 64 \<Longrightarrow> b < 2 ^ 64 \<Longrightarrow> snapshotName a = snapshotName b \<longleftrightarrow> a = b"
  using snapshotName_mono [of a b] snapshotName_mono [of b a] by (cases a b rule: linorder_cases) auto

lemma parseSegmentSeq_segmentName: "n < 2 ^ 64 \<Longrightarrow> parseSegmentSeq (segmentName n) = Inr n"
proof -
  assume n: "n < 2 ^ 64"
  have d: "dropWhile (\<lambda>c. c = CHR '' '') (dec_digits 20 n @ ''.seg'') = dec_digits 20 n @ ''.seg''"
  proof -
    have "hd (dec_digits 20 n) \<in> set (dec_digits 20 n)" by (intro hd_in_set) (metis length_dec_digits list.size(3) zero_neq_numeral)
    then have "hd (dec_digits 20 n) \<noteq> CHR '' ''" by (auto dest!: dec_digits_are_digits simp: is_digit_def)
    then show ?thesis by (cases "dec_digits 20 n") auto
  qed
  define ds where "ds = dec_digits 20 n"
  have ds: "length ds = 20" "dec_value ds = n" "takeWhile is_digit ds = ds"
    using n dec_digits_are_digits [of _ 20 n] dec_value_dec_digits [of n 20]
    unfolding ds_def by (auto simp: takeWhile_eq_all_conv simp del: dec_digits.simps)
  then have "takeWhile is_digit (take 20 (ds @ ''.seg'')) = ds" by simp
  moreover have "drop 4 (segmentName n) = ds @ ''.seg''" "hasPrefix (segmentName n) ''wal-''"
    by (simp_all add: segmentName_def ds_def hasPrefix_def)
  moreover have "ds \<noteq> []" using ds(1) by auto
  ultimately show ?thesis
    using n d ds unfolding parseSegmentSeq_def Let_def ds_def [symmetric]
    by (simp add: hasPrefix_def del: takeWhile_eq_all_conv)
qed

section \<open>Replaying records\<close>

datatype wrec = WEntry Entry | WHard HardState | WTrunc SnapshotMetadata

fun wrec_bytes :: "wrec \<Rightarrow> bytes" where
  "wrec_bytes (WEntry e) = encodeEntry e"
| "wrec_bytes (WHard hs) = encodeHardState hs"
| "wrec_bytes (WTrunc m) = encodeTruncateSuffix m"

fun wrec_ok :: "wrec \<Rightarrow> bool" where
  "wrec_ok (WEntry e) = entry_ok e"
| "wrec_ok (WHard hs) = hard_ok hs"
| "wrec_ok (WTrunc m) = meta_ok m"

definition frames :: "wrec list \<Rightarrow> bytes" where
  "frames ws = concat (map (\<lambda>w. frame (wrec_bytes w)) ws)"

lemma frames_simps [simp]:
  "frames [] = []" "frames (w # ws) = frame (wrec_bytes w) @ frames ws" "frames (us @ ws) = frames us @ frames ws"
  by (simp_all add: frames_def)

lemma wrec_fits [simp]: "wrec_ok w \<Longrightarrow> fits (wrec_bytes w)"
  by (cases w) simp_all

text \<open>What a record does to the entries above offset \<open>k\<close>; \<open>None\<close> when it leaves a gap.\<close>

fun install :: "nat \<Rightarrow> wrec \<Rightarrow> Entry list \<Rightarrow> Entry list option" where
  "install k (WEntry e) es =
     (if eIndex e \<le> k then Some es
      else if length es < eIndex e - (k + 1) then None
      else Some (take (eIndex e - (k + 1)) es @ [e]))"
| "install k (WHard hs) es = Some es"
| "install k (WTrunc m) es = Some (take (smIndex m - k) es)"

fun hard_after :: "HardState \<Rightarrow> wrec list \<Rightarrow> HardState" where
  "hard_after h [] = h"
| "hard_after h (WHard hs # ws) = hard_after hs ws"
| "hard_after h (w # ws) = hard_after h ws"

lemma hard_after_append [simp]: "hard_after h (us @ ws) = hard_after (hard_after h us) ws"
  by (induction h us rule: hard_after.induct) auto

text \<open>Replaying \<open>W\<close> at any offset from \<open>off\<close> on succeeds, and gives the entries where there are some.\<close>

definition tracks :: "wrec list \<Rightarrow> nat \<Rightarrow> Entry list \<Rightarrow> bool" where
  "tracks W off es \<longleftrightarrow>
     (\<forall>k \<ge> off. \<exists>rs. fold_opt (install k) W [] = Some rs \<and> (k < off + length es \<longrightarrow> rs = drop (k - off) es))"

lemma tracks_Nil [simp]: "tracks [] off []"
  by (simp add: tracks_def)

lemma tracks_hard: "tracks W off es \<Longrightarrow> tracks (W @ [WHard hs]) off es"
  by (auto simp: tracks_def fold_opt_append)

lemma tracks_entry:
  assumes "tracks W off es" and "pos \<le> length es" and "eIndex e = off + 1 + pos"
  shows "tracks (W @ [WEntry e]) off (take pos es @ [e])"
  unfolding tracks_def
proof (intro allI impI)
  fix k assume k: "off \<le> k"
  then obtain rs where rs: "fold_opt (install k) W [] = Some rs" "k < off + length es \<longrightarrow> rs = drop (k - off) es"
    using assms(1) by (auto simp: tracks_def)
  show "\<exists>rs. fold_opt (install k) (W @ [WEntry e]) [] = Some rs \<and>
      (k < off + length (take pos es @ [e]) \<longrightarrow> rs = drop (k - off) (take pos es @ [e]))"
  proof (cases "k < off + length es")
    case True
    with rs assms(2,3) k show ?thesis by (auto simp: fold_opt_append drop_take add.commute)
  next
    case False
    with rs assms(2,3) k show ?thesis by (auto simp: fold_opt_append)
  qed
qed

lemma tracks_entries:
  "tracks W off es \<Longrightarrow> pos \<le> length es \<Longrightarrow> contig (off + 1 + pos) new \<Longrightarrow> new \<noteq> [] \<Longrightarrow>
     tracks (W @ map WEntry new) off (take pos es @ new)"
proof (induction new arbitrary: W es pos)
  case (Cons e new)
  have step: "tracks (W @ [WEntry e]) off (take pos es @ [e])"
    using Cons.prems by (intro tracks_entry) auto
  show ?case
  proof (cases "new = []")
    case True
    with step show ?thesis by simp
  next
    case False
    have "tracks ((W @ [WEntry e]) @ map WEntry new) off (take (Suc pos) (take pos es @ [e]) @ new)"
      using Cons.prems False by (intro Cons.IH [OF step]) auto
    with Cons.prems(2) show ?thesis by simp
  qed
qed simp

lemma tracks_retain:
  assumes "tracks W off es" and "off \<le> i" and "i < off + length es"
  shows "tracks W i (drop (i - off) es)"
  unfolding tracks_def
proof (intro allI impI)
  fix k assume "i \<le> k"
  with assms(2) have "off \<le> k" by simp
  then obtain rs where "fold_opt (install k) W [] = Some rs" "k < off + length es \<longrightarrow> rs = drop (k - off) es"
    using assms(1) by (auto simp: tracks_def)
  moreover have "k - i + (i - off) = k - off" using \<open>i \<le> k\<close> assms(2) by simp
  ultimately show "\<exists>rs. fold_opt (install k) W [] = Some rs \<and>
      (k < i + length (drop (i - off) es) \<longrightarrow> rs = drop (k - i) (drop (i - off) es))"
    using assms(2,3) by auto
qed

lemma tracks_jump: "tracks W off es \<Longrightarrow> off \<le> i \<Longrightarrow> tracks W i []"
  unfolding tracks_def by (metis add.right_neutral list.size(3) not_less order_trans)

lemma tracks_trunc: "tracks W off es \<Longrightarrow> off \<le> smIndex m \<Longrightarrow> tracks (W @ [WTrunc m]) (smIndex m) []"
  using tracks_jump [of W off es "smIndex m"] by (fastforce simp: tracks_def fold_opt_append)

lemma tracks_replay: "tracks W off es \<Longrightarrow> es \<noteq> [] \<Longrightarrow> fold_opt (install off) W [] = Some es"
  by (force simp: tracks_def)

lemma tracks_prefix: "tracks (V @ W) off es \<Longrightarrow> off \<le> k \<Longrightarrow> \<exists>rs. fold_opt (install k) V [] = Some rs"
  by (auto simp: tracks_def fold_opt_append bind_eq_Some_conv)

section \<open>Replaying a segment\<close>

text \<open>The state after replaying \<open>ws\<close>, with \<open>es\<close> the entries it leaves.\<close>

definition replayed :: "wrec list \<Rightarrow> Entry list \<Rightarrow> DiskStorage \<Rightarrow> DiskStorage" where
  "replayed ws es s = s\<lparr>dHardState := hard_after (dHardState s) ws, dEntries := es,
     dSnapshotTruncationPending := (dSnapshotTruncationPending s \<and> WTrunc (snMetadata (dSnapshot s)) \<notin> set ws)\<rparr>"

lemma replayed_simps [simp]:
  "disk_offset (replayed ws es s) = disk_offset s" "dEntries (replayed ws es s) = es"
  "dSnapshot (replayed ws es s) = dSnapshot s" "fsFiles (replayed ws es s) = fsFiles s"
  "fsFaults (replayed ws es s) = fsFaults s" "dBuf (replayed ws es s) = dBuf s"
  "dNoSync (replayed ws es s) = dNoSync s" "dMaxSegmentSize (replayed ws es s) = dMaxSegmentSize s"
  "dSeg (replayed ws es s) = dSeg s" "dHardState (replayed ws es s) = hard_after (dHardState s) ws"
  "dSnapshotTruncationPending (replayed ws es s) =
     (dSnapshotTruncationPending s \<and> WTrunc (snMetadata (dSnapshot s)) \<notin> set ws)"
  by (simp_all add: replayed_def disk_offset_def)

lemma replayed_replayed: "replayed ws es' (replayed us es s) = replayed (us @ ws) es' s"
  by (simp add: replayed_def)

lemma replayed_Nil: "replayed [] (dEntries s) s = s"
  by (simp add: replayed_def)

lemma applyRecord_wrec:
  assumes "wrec_ok w" and "install (disk_offset s) w (dEntries s) = Some es"
  shows "applyRecord (wrec_bytes w) s = (Inr (), replayed [w] es s)"
proof (cases w)
  case (WEntry e)
  have "wrec_bytes w \<noteq> []" "hd (wrec_bytes w) = recEntry" by (simp_all add: WEntry encodeEntry_def)
  with WEntry assms decode_encode_entry [of e] show ?thesis
    by (auto simp: applyRecord_def applyEntryRecord_def replayed_def Let_def split: if_split_asm)
next
  case (WHard hs)
  have "wrec_bytes w \<noteq> []" "hd (wrec_bytes w) = recHardState" by (simp_all add: WHard encodeHardState_def)
  with WHard assms decode_encode_hard [of hs] show ?thesis
    by (auto simp: applyRecord_def replayed_def Let_def)
next
  case (WTrunc m)
  have "wrec_bytes w \<noteq> []" "hd (wrec_bytes w) = recTruncateSuffix" by (simp_all add: WTrunc encodeTruncateSuffix_def)
  with WTrunc assms decode_encode_trunc [of m] show ?thesis
    by (auto simp: applyRecord_def replayed_def truncateSuffix_def disk_offset_def Let_def)
qed

lemma replayLoop_frames:
  "list_all wrec_ok ws \<Longrightarrow> fold_opt (install (disk_offset s)) ws (dEntries s) = Some es \<Longrightarrow>
     replayLoop (pre @ frames ws @ tail) (length pre) s =
     replayLoop (pre @ frames ws @ tail) (length (pre @ frames ws)) (replayed ws es s)"
proof (induction ws arbitrary: pre s)
  case Nil
  then show ?case using replayed_Nil [of s] by auto
next
  case (Cons w ws)
  from Cons.prems(2) obtain es' where es': "install (disk_offset s) w (dEntries s) = Some es'"
    "fold_opt (install (disk_offset s)) ws es' = Some es"
    by (auto simp: bind_eq_Some_conv)
  let ?fw = "frame (wrec_bytes w)"
  have "readFrame (pre @ ?fw @ frames ws @ tail) (length pre) = Inr (wrec_bytes w, 8 + length (wrec_bytes w))"
    using Cons.prems(1) by (intro readFrame_intact) auto
  then have "replayLoop (pre @ ?fw @ frames ws @ tail) (length pre) s =
      replayLoop (pre @ ?fw @ frames ws @ tail) (length pre + (8 + length (wrec_bytes w))) (replayed [w] es' s)"
    using Cons.prems(1) es'(1) applyRecord_wrec [of w s es'] by (subst replayLoop.simps) simp
  also have "\<dots> = replayLoop ((pre @ ?fw) @ frames ws @ tail) (length ((pre @ ?fw) @ frames ws)) (replayed ws es (replayed [w] es' s))"
    using Cons.prems(1) es'(2) Cons.IH [of "replayed [w] es' s" "pre @ ?fw"] by simp
  finally show ?case by (simp add: replayed_replayed add.assoc)
qed

text \<open>What is left of a write cut short: whole records, then nothing or a torn frame.\<close>

definition torn_tail :: "bytes \<Rightarrow> bool" where
  "torn_tail t \<longleftrightarrow> t = [] \<or> readFrame t 0 = Inl errTornFrame"

lemma take_frames:
  "list_all wrec_ok ws \<Longrightarrow> \<exists>us vs t. ws = us @ vs \<and> take k (frames ws) = frames us @ t \<and> torn_tail t"
proof (induction ws arbitrary: k)
  case Nil
  then show ?case by (simp add: torn_tail_def)
next
  case (Cons w ws)
  let ?fw = "frame (wrec_bytes w)"
  show ?case
  proof (cases "k < length ?fw")
    case True
    then have "torn_tail (take k ?fw)"
      using Cons.prems readFrame_short [of k "wrec_bytes w"] fits_less [of "wrec_bytes w"] by (auto simp: torn_tail_def)
    with True show ?thesis by (intro exI [of _ "[]"] exI [of _ "w # ws"] exI [of _ "take k ?fw"]) simp
  next
    case False
    from Cons obtain us vs t where us: "ws = us @ vs" "take (k - length ?fw) (frames ws) = frames us @ t" "torn_tail t"
      by (metis list.pred_inject(2))
    then have "w # ws = (w # us) @ vs \<and> take k (frames (w # ws)) = frames (w # us) @ t \<and> torn_tail t"
      using False by simp
    then show ?thesis by blast
  qed
qed

lemma replayLoop_segment:
  assumes "list_all wrec_ok ws" and "torn_tail t"
    and "fold_opt (install (disk_offset s)) ws (dEntries s) = Some es"
  shows "replayLoop (frames ws @ t) 0 s = ((length (frames ws), t \<noteq> []), replayed ws es s)"
proof -
  have "replayLoop (frames ws @ t) 0 s = replayLoop (frames ws @ t) (length (frames ws)) (replayed ws es s)"
    using replayLoop_frames [OF assms(1,3), of "[]"] by simp
  also have "\<dots> = ((length (frames ws), t \<noteq> []), replayed ws es s)"
    using assms(2) by (subst replayLoop.simps) (auto simp: torn_tail_def readFrame_at)
  finally show ?thesis .
qed

section \<open>Calls that succeed\<close>

text \<open>The directory as a map, and what each call does to it when no fault is due.\<close>

abbreviation dirmap :: "'z fs_scheme \<Rightarrow> string \<Rightarrow> dfile option" where
  "dirmap s \<equiv> map_of (fsFiles s)"

named_theorems calls \<open>system calls without faults\<close>

lemma set_file_simps [simp]:
  "fsFaults (set_file n f s) = fsFaults s" "dirmap (set_file n f s) = (dirmap s)(n \<mapsto> f)"
  "distinct (map fst (fsFiles s)) \<Longrightarrow> distinct (map fst (fsFiles (set_file n f s)))"
  by (simp_all add: set_file_def update_conv' distinct_update)

lemma set_file_fields [simp]:
  "dHardState (set_file n f s) = dHardState s" "dSnapshot (set_file n f s) = dSnapshot s"
  "dSnapshotTruncationPending (set_file n f s) = dSnapshotTruncationPending s"
  "dEntries (set_file n f s) = dEntries s" "dBuf (set_file n f s) = dBuf s" "dSeg (set_file n f s) = dSeg s"
  "dSegSize (set_file n f s) = dSegSize s" "dSegSeq (set_file n f s) = dSegSeq s"
  "dNoSync (set_file n f s) = dNoSync s" "dMaxSegmentSize (set_file n f s) = dMaxSegmentSize s"
  "disk_offset (set_file n f s) = disk_offset s"
  by (simp_all add: set_file_def disk_offset_def)

lemmas io_defs = io_bind_def io_then_def io_return_def io_modify_def io_fail_def io_cleanup_def

lemma io_then_ok: "m s = (Inr u, s') \<Longrightarrow> io_then m k s = k s'"
  by (simp add: io_then_def io_bind_def)

lemma syscall_ok [calls]: "fsFaults s = [] \<Longrightarrow> syscall what act s = act s"
  by (simp add: syscall_def next_fault_def)

lemma os_calls [calls]:
  "fsFaults s = [] \<Longrightarrow> os_MkdirAll s = (Inr (), s)"
  "fsFaults s = [] \<Longrightarrow> os_ReadDir s = (Inr (map fst (fsFiles s)), s)"
  "fsFaults s = [] \<Longrightarrow> dirmap s n = Some f \<Longrightarrow> os_ReadFile n s = (Inr (fData f), s)"
  "fsFaults s = [] \<Longrightarrow> os_OpenTrunc n s = (Inr (), set_file n \<lparr>fData = [], fSynced = 0\<rparr> s)"
  "fsFaults s = [] \<Longrightarrow> dirmap s n = None \<Longrightarrow> os_OpenCreate n s = (Inr (), set_file n \<lparr>fData = [], fSynced = 0\<rparr> s)"
  "fsFaults s = [] \<Longrightarrow> dirmap s n = Some f \<Longrightarrow> os_OpenExisting n s = (Inr (), s)"
  "fsFaults s = [] \<Longrightarrow> dirmap s n = Some f \<Longrightarrow> f_Stat n s = (Inr (length (fData f)), s)"
  "fsFaults s = [] \<Longrightarrow> dirmap s n = Some f \<Longrightarrow> f_Write n d s = (Inr (), set_file n (f\<lparr>fData := fData f @ d\<rparr>) s)"
  "fsFaults s = [] \<Longrightarrow> dirmap s n = Some f \<Longrightarrow> f_Sync n s = (Inr (), set_file n (f\<lparr>fSynced := length (fData f)\<rparr>) s)"
  "fsFaults s = [] \<Longrightarrow> dirmap s n = Some f \<Longrightarrow>
     f_Truncate n k s = (Inr (), set_file n \<lparr>fData = take k (fData f), fSynced = min (fSynced f) k\<rparr> s)"
  "fsFaults s = [] \<Longrightarrow> f_Close s = (Inr (), s)"
  "fsFaults s = [] \<Longrightarrow> fsyncDir s = (Inr (), s)"
  by (simp_all add: os_MkdirAll_def os_ReadDir_def os_ReadFile_def os_OpenTrunc_def os_OpenCreate_def
      os_OpenExisting_def f_Stat_def f_Write_def f_Sync_def f_Truncate_def f_Close_def fsyncDir_def
      syscall_ok with_file_def io_defs next_fault_def)

section \<open>The directory\<close>

abbreviation is_wal :: "string \<Rightarrow> bool" where
  "is_wal n \<equiv> hasPrefix n ''wal-'' \<and> hasSuffix n ''.seg''"

abbreviation is_snap :: "string \<Rightarrow> bool" where
  "is_snap n \<equiv> hasPrefix n ''snap-'' \<and> hasSuffix n ''.snap''"

lemma file_kinds [simp]:
  "is_wal (segmentName q)" "\<not> is_snap (segmentName q)"
  "is_snap (snapshotName i)" "\<not> is_wal (snapshotName i)"
  "\<not> is_wal (snapshotName i @ ''.tmp'')" "\<not> is_snap (snapshotName i @ ''.tmp'')"
  by (simp_all add: hasPrefix_def hasSuffix_def segmentName_def snapshotName_def del: dec_digits.simps)

definition has_data :: "(string \<Rightarrow> dfile option) \<Rightarrow> string \<Rightarrow> bytes \<Rightarrow> bool" where
  "has_data M n d \<longleftrightarrow> map_option fData (M n) = Some d"

text \<open>The segments with their records; the last one ends in \<open>t\<close>.\<close>

definition seg_data :: "(string \<Rightarrow> dfile option) \<Rightarrow> (nat \<times> wrec list) list \<Rightarrow> bytes \<Rightarrow> bool" where
  "seg_data M segs t \<longleftrightarrow>
     (\<forall>(q, ws) \<in> set (butlast segs). has_data M (segmentName q) (frames ws)) \<and>
     (segs \<noteq> [] \<longrightarrow> has_data M (segmentName (fst (last segs))) (frames (snd (last segs)) @ t))"

definition segs_ok :: "(nat \<times> wrec list) list \<Rightarrow> bool" where
  "segs_ok segs \<longleftrightarrow> sorted_wrt (<) (map fst segs) \<and> (\<forall>(q, ws) \<in> set segs. q < 2 ^ 64 \<and> list_all wrec_ok ws)"

abbreviation seg_names :: "(nat \<times> wrec list) list \<Rightarrow> string list" where
  "seg_names segs \<equiv> map (\<lambda>(q, ws). segmentName q) segs"

abbreviation wal :: "(nat \<times> wrec list) list \<Rightarrow> wrec list" where
  "wal segs \<equiv> concat (map snd segs)"

definition wal_files :: "(string \<Rightarrow> dfile option) \<Rightarrow> (nat \<times> wrec list) list \<Rightarrow> bytes \<Rightarrow> bool" where
  "wal_files M segs t \<longleftrightarrow> segs_ok segs \<and> {n \<in> dom M. is_wal n} = set (seg_names segs) \<and> seg_data M segs t"

definition snap_files :: "(string \<Rightarrow> dfile option) \<Rightarrow> Snapshot \<Rightarrow> bool \<Rightarrow> bool" where
  "snap_files M snap flag \<longleftrightarrow>
     (if snIndex snap = 0 then snap = snapshot0 \<and> \<not> flag \<and> {n \<in> dom M. is_snap n} = {}
      else snap_ok snap \<and> (\<forall>n \<in> dom M. is_snap n \<longrightarrow> (\<exists>i \<le> snIndex snap. n = snapshotName i)) \<and>
        has_data M (snapshotName (snIndex snap)) (frame (snapPayload snap flag)))"

definition synced :: "(string \<Rightarrow> dfile option) \<Rightarrow> bool" where
  "synced M \<longleftrightarrow> (\<forall>n f. M n = Some f \<longrightarrow> is_wal n \<or> is_snap n \<longrightarrow> fSynced f = length (fData f))"

lemma sort_seg_names:
  assumes "segs_ok segs" and "distinct ns" and "set (filter is_wal ns) = set (seg_names segs)"
  shows "sort (filter is_wal ns) = seg_names segs"
proof (rule sorted_distinct_set_unique)
  have "sorted_wrt (\<lambda>x y. segmentName (fst x) < segmentName (fst y)) segs"
  proof (rule sorted_wrt_mono_rel)
    show "sorted_wrt (\<lambda>x y. fst x < fst y) segs" using assms(1) by (simp add: segs_ok_def sorted_wrt_map)
    fix x y assume "y \<in> set segs" and "fst x < fst y"
    then show "segmentName (fst x) < segmentName (fst y)"
      using assms(1) by (intro segmentName_mono) (auto simp: segs_ok_def)
  qed
  then have "sorted_wrt (<) (seg_names segs)" by (simp add: sorted_wrt_map case_prod_beta)
  then show "sorted (seg_names segs)" "distinct (seg_names segs)"
    by (auto simp: strict_sorted_iff)
qed (use assms in auto)

lemma sort_greatest:
  assumes "x \<in> set xs" and "\<And>y. y \<in> set xs \<Longrightarrow> y \<le> x"
  shows "\<exists>ys. sort xs = ys @ [x]"
proof (cases "sort xs" rule: rev_cases)
  case Nil
  with assms(1) show ?thesis by (metis empty_iff list.set(1) set_sort)
next
  case (snoc ys l)
  have "sorted (ys @ [l])" using snoc sorted_sort by metis
  moreover have "set xs = set (ys @ [l])" using snoc set_sort by metis
  ultimately have "y \<le> l" if "y \<in> set xs" for y using that by (auto simp: sorted_append)
  moreover have "l \<in> set xs" using \<open>set xs = set (ys @ [l])\<close> by simp
  ultimately have "l = x" using assms by (meson antisym)
  with snoc show ?thesis by blast
qed

lemma listSegments_ok:
  assumes "fsFaults s = []" and "distinct (map fst (fsFiles s))" and "wal_files (dirmap s) segs t"
  shows "listSegments s = (Inr (seg_names segs), s)"
proof -
  have "set (filter is_wal (map fst (fsFiles s))) = set (seg_names segs)"
    using assms(3) by (simp add: wal_files_def dom_map_of_conv_image_fst)
  with assms show ?thesis
    by (simp add: listSegments_def io_defs calls sort_seg_names wal_files_def)
qed

lemma loadLatestSnapshot_ok:
  assumes "fsFaults s = []" and "distinct (map fst (fsFiles s))" and "snap_files (dirmap s) snap flag"
    and "dSnapshot s = snapshot0" and "\<not> dSnapshotTruncationPending s"
  shows "loadLatestSnapshot s = (Inr (), s\<lparr>dSnapshot := snap, dSnapshotTruncationPending := flag\<rparr>)"
proof -
  let ?ns = "sort (filter is_snap (map fst (fsFiles s)))"
  have set_ns: "set ?ns = {n \<in> dom (dirmap s). is_snap n}"
    by (auto simp: dom_map_of_conv_image_fst)
  have load: "loadLatestSnapshot s = (Inr (), loadSnapshotLoop (rev ?ns) s)"
    using assms(1) by (simp add: loadLatestSnapshot_def io_defs calls)
  show ?thesis
  proof (cases "snIndex snap = 0")
    case True
    then have "?ns = []" using assms(3) set_ns by (simp only: snap_files_def if_True set_empty)
    with True load assms(3-5) show ?thesis by (simp add: snap_files_def)
  next
    case False
    let ?n = "snapshotName (snIndex snap)"
    from False assms(3) obtain f where f: "dirmap s ?n = Some f" "fData f = frame (snapPayload snap flag)"
      and ok: "snap_ok snap" by (auto simp: snap_files_def has_data_def)
    have "?n \<in> set ?ns" unfolding set_ns using f by auto
    moreover have "n \<le> ?n" if "n \<in> set ?ns" for n
    proof -
      from that False assms(3) obtain i where "i \<le> snIndex snap" "n = snapshotName i"
        unfolding set_ns by (auto simp: snap_files_def)
      with ok show ?thesis using snapshotName_mono [of i "snIndex snap"]
        by (cases "i = snIndex snap") (auto simp: snap_ok_def meta_ok_def)
    qed
    ultimately obtain ys where "?ns = ys @ [?n]"
      unfolding set_sort using sort_greatest [of ?n "filter is_snap (map fst (fsFiles s))"] by blast
    then have "rev ?ns = ?n # rev ys" by simp
    moreover have "readSnapshotFile ?n s = (Inr \<lparr>ssSnapshot = snap, ssTruncateSuffix = flag\<rparr>, s)"
      using assms(1) f ok readFrame_fits [of "snapPayload snap flag" "[]"]
      by (simp add: readSnapshotFile_def io_defs calls parse_snapPayload)
    ultimately show ?thesis using load by simp
  qed
qed

section \<open>Recovery of a directory\<close>

text \<open>A replay that succeeds is tracked by what it produced.\<close>

lemma self_tracks: "fold_opt (install off) W [] = Some es \<Longrightarrow> tracks W off es"
proof (induction W arbitrary: es rule: rev_induct)
  case (snoc w W)
  from snoc.prems obtain es' where es': "fold_opt (install off) W [] = Some es'" "install off w es' = Some es"
    by (auto simp: fold_opt_append bind_eq_Some_conv)
  have IH: "tracks W off es'" using snoc.IH es'(1) .
  show ?case
  proof (cases w)
    case (WEntry e)
    show ?thesis
    proof (cases "eIndex e \<le> off")
      case True
      with IH es' WEntry show ?thesis by (fastforce simp: tracks_def fold_opt_append)
    next
      case False
      then have "eIndex e = off + 1 + (eIndex e - (off + 1))" by simp
      with False IH es'(2) WEntry show ?thesis using tracks_entry [OF IH, of "eIndex e - (off + 1)" e]
        by (auto split: if_split_asm)
    qed
  next
    case (WHard hs)
    with IH es' show ?thesis using tracks_hard by auto
  next
    case (WTrunc m)
    show ?thesis
      unfolding tracks_def
    proof (intro allI impI)
      fix k assume "off \<le> k"
      with IH obtain rs where "fold_opt (install k) W [] = Some rs" "k < off + length es' \<longrightarrow> rs = drop (k - off) es'"
        by (auto simp: tracks_def)
      with es'(2) WTrunc \<open>off \<le> k\<close> show "\<exists>rs. fold_opt (install k) (W @ [w]) [] = Some rs \<and>
          (k < off + length es \<longrightarrow> rs = drop (k - off) es)"
        by (auto simp: fold_opt_append drop_take)
    qed
  qed
qed simp

lemma install_contig: "contig (Suc k) es \<Longrightarrow> install k w es = Some es' \<Longrightarrow> contig (Suc k) es'"
  by (cases w) (auto simp: contig_take split: if_split_asm)

lemma replay_contig: "fold_opt (install k) W [] = Some es \<Longrightarrow> contig (Suc k) es"
  by (rule fold_opt_inv [where P = "contig (Suc k)"]) (auto intro: install_contig)

lemma set_file_twice [simp]: "set_file n f (set_file n g s) = set_file n f s"
  by (simp add: set_file_def)

lemma set_file_replayed: "replayed ws es (set_file n f s) = set_file n f (replayed ws es s)"
  by (simp add: replayed_def set_file_def)

lemma has_dataE:
  assumes "has_data M n d"
  obtains f where "M n = Some f" and "fData f = d"
  using assms by (auto simp: has_data_def)

lemma replaySegment_ok:
  assumes "fsFaults s = []" and "has_data (dirmap s) n (frames ws @ t)" and "list_all wrec_ok ws" and "torn_tail t"
    and "fold_opt (install (disk_offset s)) ws (dEntries s) = Some es"
  shows "replaySegment n s = (Inr (t \<noteq> []),
    (if t = [] then id else set_file n \<lparr>fData = frames ws, fSynced = length (frames ws)\<rparr>) (replayed ws es s))"
proof -
  from assms(2) obtain f where f: "dirmap s n = Some f" "fData f = frames ws @ t" by (rule has_dataE)
  have "replayLoop (frames ws @ t) 0 s = ((length (frames ws), t \<noteq> []), replayed ws es s)"
    using assms(3-5) by (rule replayLoop_segment)
  with assms(1) f show ?thesis
    by (simp add: replaySegment_def truncateSegment_def io_defs calls)
qed

text \<open>Replaying all segments, and cutting the torn tail of the last.\<close>

lemma replayAll_ok:
  "fsFaults s = [] \<Longrightarrow> segs \<noteq> [] \<Longrightarrow> \<forall>(q, ws) \<in> set segs. list_all wrec_ok ws \<Longrightarrow>
     seg_data (dirmap s) segs t \<Longrightarrow> torn_tail t \<Longrightarrow>
     fold_opt (install (disk_offset s)) (wal segs) (dEntries s) = Some es \<Longrightarrow>
     replayAll (seg_names segs) s = (Inr (seg_names segs),
       (if t = [] then id
        else set_file (segmentName (fst (last segs)))
               \<lparr>fData = frames (snd (last segs)), fSynced = length (frames (snd (last segs)))\<rparr>) (replayed (wal segs) es s))"
proof (induction segs arbitrary: s)
  case (Cons seg segs)
  obtain q ws where seg: "seg = (q, ws)" by force
  from Cons.prems(6) seg obtain es' where es': "fold_opt (install (disk_offset s)) ws (dEntries s) = Some es'"
    "fold_opt (install (disk_offset s)) (wal segs) es' = Some es"
    by (auto simp: fold_opt_append bind_eq_Some_conv)
  show ?case
  proof (cases "segs = []")
    case True
    with Cons.prems seg es' show ?thesis
      by (simp add: replaySegment_ok [where es = es'] seg_data_def io_defs removeSegments_def)
  next
    case False
    have "replaySegment (segmentName q) s = (Inr False, replayed ws es' s)"
      using Cons.prems seg es'(1) False replaySegment_ok [of s "segmentName q" ws "[]" es']
      by (simp add: seg_data_def torn_tail_def)
    moreover have "replayAll (seg_names segs) (replayed ws es' s) = (Inr (seg_names segs),
       (if t = [] then id
        else set_file (segmentName (fst (last segs)))
               \<lparr>fData = frames (snd (last segs)), fSynced = length (frames (snd (last segs)))\<rparr>)
         (replayed (wal segs) es (replayed ws es' s)))"
      using Cons.prems False es'(2) seg by (intro Cons.IH) (auto simp: seg_data_def)
    ultimately show ?thesis using False seg by (simp add: io_defs replayed_replayed)
  qed
qed simp

section \<open>Files behind the mirror\<close>

definition disk_files :: "DiskStorage \<Rightarrow> (nat \<times> wrec list) list \<Rightarrow> wrec list \<Rightarrow> bool" where
  "disk_files s segs Wb \<longleftrightarrow>
     fsFaults s = [] \<and> distinct (map fst (fsFiles s)) \<and> synced (dirmap s) \<and> segs \<noteq> [] \<and> wal_files (dirmap s) segs [] \<and>
     dSeg s = Some (segmentName (fst (last segs))) \<and> dSegSeq s = fst (last segs) \<and>
     dSegSize s = length (frames (snd (last segs))) \<and> dBuf s = frames Wb \<and> list_all wrec_ok Wb"

definition same_mirror :: "DiskStorage \<Rightarrow> DiskStorage \<Rightarrow> bool" where
  "same_mirror s s' \<longleftrightarrow>
     dHardState s' = dHardState s \<and> dSnapshot s' = dSnapshot s \<and> dEntries s' = dEntries s \<and>
     dSnapshotTruncationPending s' = dSnapshotTruncationPending s \<and> dNoSync s' = dNoSync s \<and>
     (\<forall>n. \<not> is_wal n \<longrightarrow> dirmap s' n = dirmap s n)"

lemma seg_data_other: "\<not> is_wal n \<Longrightarrow> seg_data (M(n := x)) segs t = seg_data M segs t"
  using file_kinds(1) by (auto simp: seg_data_def has_data_def case_prod_beta)

lemma wal_files_other: "\<not> is_wal n \<Longrightarrow> wal_files (M(n := x)) segs t = wal_files M segs t"
proof -
  assume n: "\<not> is_wal n"
  then have "{m \<in> dom (M(n := x)). is_wal m} = {m \<in> dom M. is_wal m}" by auto
  with seg_data_other [OF n] show ?thesis by (simp only: wal_files_def)
qed

lemma snap_files_cong:
  assumes "\<And>n. is_snap n \<Longrightarrow> M' n = M n"
  shows "snap_files M' snap flag = snap_files M snap flag"
proof -
  have "{n \<in> dom M'. is_snap n} = {n \<in> dom M. is_snap n}" using assms by auto
  moreover have "(\<forall>n \<in> dom M'. is_snap n \<longrightarrow> Q n) = (\<forall>n \<in> dom M. is_snap n \<longrightarrow> Q n)" for Q
    using assms by (metis domIff)
  moreover have "M' (snapshotName i) = M (snapshotName i)" for i by (rule assms) simp
  ultimately show ?thesis by (simp only: snap_files_def has_data_def)
qed

lemma snap_files_flag: "snap_files M snap True \<Longrightarrow> snap_ok snap"
  by (simp add: snap_files_def split: if_split_asm)

lemma snap_not_wal: "is_snap n \<Longrightarrow> \<not> is_wal n"
  by (cases n) (auto simp: hasPrefix_def)

lemma same_mirror_snap_files:
  "same_mirror s s' \<Longrightarrow> snap_files (dirmap s') snap flag = snap_files (dirmap s) snap flag"
  using snap_not_wal by (intro snap_files_cong) (auto simp: same_mirror_def)

lemma synced_upd: "synced M \<Longrightarrow> fSynced f = length (fData f) \<Longrightarrow> synced (M(n \<mapsto> f))"
  by (simp add: synced_def)

lemma wal_files_last:
  assumes "wal_files M (segs @ [(q, ws)]) t" and "list_all wrec_ok us" and "fData f = frames us @ t'"
  shows "wal_files (M(segmentName q \<mapsto> f)) (segs @ [(q, us)]) t'"
proof -
  have q: "q' \<noteq> q" "q' < 2 ^ 64" "q < 2 ^ 64" if "(q', ws') \<in> set segs" for q' ws'
    using assms(1) that by (fastforce simp: wal_files_def segs_ok_def sorted_wrt_append)+
  have "segmentName q \<in> dom M" using assms(1) by (auto simp: wal_files_def seg_data_def has_data_def)
  then have "{n \<in> dom (M(segmentName q \<mapsto> f)). is_wal n} = {n \<in> dom M. is_wal n}" by auto
  moreover have "seg_data (M(segmentName q \<mapsto> f)) (segs @ [(q, us)]) t'"
    using assms q segmentName_inj by (fastforce simp: wal_files_def seg_data_def has_data_def)
  ultimately show ?thesis using assms(1,2) by (simp add: wal_files_def segs_ok_def)
qed

lemma wal_files_new:
  assumes "wal_files M segs []" and "\<And>p. p \<in> set segs \<Longrightarrow> fst p < q" and "q < 2 ^ 64" and "fData f = []"
  shows "wal_files (M(segmentName q \<mapsto> f)) (segs @ [(q, [])]) [] \<and> segmentName q \<notin> dom M"
proof -
  have ne: "segmentName q' \<noteq> segmentName q" if "(q', ws') \<in> set segs" for q' ws'
    using assms(2) [OF that] assms(3) segmentName_mono [of q' q] by auto
  then have "segmentName q \<notin> set (seg_names segs)" by (fastforce simp: image_iff)
  then have "segmentName q \<notin> {n \<in> dom M. is_wal n}" using assms(1) by (simp only: wal_files_def) simp
  then have "segmentName q \<notin> dom M" using file_kinds(1) [of q] by simp
  moreover have "{n \<in> dom (M(segmentName q \<mapsto> f)). is_wal n} = insert (segmentName q) {n \<in> dom M. is_wal n}"
    using file_kinds(1) [of q] by auto
  moreover have "seg_data (M(segmentName q \<mapsto> f)) (segs @ [(q, [])]) []"
  proof -
    have "has_data M (segmentName q') (frames ws')" if "(q', ws') \<in> set segs" for q' ws'
      using assms(1) that by (cases segs rule: rev_cases) (auto simp: wal_files_def seg_data_def)
    with ne assms(4) show ?thesis by (auto simp: seg_data_def has_data_def)
  qed
  ultimately show ?thesis using assms(1-3) by (auto simp: wal_files_def segs_ok_def sorted_wrt_append)
qed

text \<open>\<open>rotateSegment\<close> and \<open>syncBuffered\<close>.\<close>

lemma disk_files_buffer:
  "disk_files s segs Wb \<Longrightarrow> wrec_ok w \<Longrightarrow> p = wrec_bytes w \<Longrightarrow>
     disk_files (s\<lparr>dBuf := appendFrame (dBuf s) p\<rparr>) segs (Wb @ [w])"
  using appendFrame_frame [of "dBuf s" p] by (simp add: disk_files_def)

lemma rotateSegment_ok:
  assumes "disk_files s segs Wb" and "fst (last segs) < q" and "q < 2 ^ 64"
  shows "\<exists>s'. rotateSegment q s = (Inr (), s') \<and> disk_files s' (segs @ [(q, [])]) Wb \<and> same_mirror s s' \<and>
    dMaxSegmentSize s' = dMaxSegmentSize s"
proof -
  have less: "fst p < q" if "p \<in> set segs" for p
    using assms that by (cases segs rule: rev_cases) (force simp: disk_files_def wal_files_def segs_ok_def sorted_wrt_append)+
  let ?f = "\<lparr>fData = [], fSynced = 0\<rparr>"
  have new: "wal_files ((dirmap s)(segmentName q \<mapsto> ?f)) (segs @ [(q, [])]) []" "dirmap s (segmentName q) = None"
    using wal_files_new [of "dirmap s" segs q ?f] assms less by (auto simp: disk_files_def)
  let ?s = "(set_file (segmentName q) ?f (s\<lparr>dSeg := None\<rparr>))\<lparr>dSeg := Some (segmentName q), dSegSize := 0, dSegSeq := q\<rparr>"
  have "rotateSegment q s = (Inr (), ?s)"
    using assms(1) new(2) by (simp add: rotateSegment_def disk_files_def io_defs calls)
  moreover have "disk_files ?s (segs @ [(q, [])]) Wb"
    using assms(1) new(1) distinct_update by (auto simp: disk_files_def synced_def set_file_def update_conv')
  moreover have "same_mirror s ?s \<and> dMaxSegmentSize ?s = dMaxSegmentSize s"
    using file_kinds(1) by (auto simp: same_mirror_def)
  ultimately show ?thesis by blast
qed

lemma same_mirror_trans: "same_mirror s t \<Longrightarrow> same_mirror t u \<Longrightarrow> same_mirror s u"
  by (simp add: same_mirror_def)

lemma flush_ok:
  assumes "disk_files s (segs @ [(q, ws)]) Wb"
  shows "\<exists>s'. io_then (f_Write (segmentName q) (dBuf s))
      (io_then (f_Sync (segmentName q))
         (io_modify (\<lambda>s. s\<lparr>dSegSize := dSegSize s + length (dBuf s), dBuf := []\<rparr>))) s = (Inr (), s') \<and>
    disk_files s' (segs @ [(q, ws @ Wb)]) [] \<and> same_mirror s s'"
proof -
  obtain k where f: "dirmap s (segmentName q) = Some \<lparr>fData = frames ws, fSynced = k\<rparr>"
    using assms by (auto simp: disk_files_def wal_files_def seg_data_def elim!: has_dataE)
      (metis (full_types) dfile.surjective old.unit.exhaust)
  let ?f = "\<lparr>fData = frames (ws @ Wb), fSynced = length (frames (ws @ Wb))\<rparr>"
  from assms f have run: "io_then (f_Write (segmentName q) (dBuf s))
      (io_then (f_Sync (segmentName q))
         (io_modify (\<lambda>s. s\<lparr>dSegSize := dSegSize s + length (dBuf s), dBuf := []\<rparr>))) s =
      (Inr (), (set_file (segmentName q) ?f s)\<lparr>dSegSize := dSegSize s + length (dBuf s), dBuf := []\<rparr>)"
    by (simp add: disk_files_def io_defs calls)
  have wal: "wal_files ((dirmap s)(segmentName q \<mapsto> ?f)) (segs @ [(q, ws @ Wb)]) []"
    using assms wal_files_last [of "dirmap s" segs q ws "[]" "ws @ Wb" ?f "[]"]
    by (auto simp: disk_files_def wal_files_def segs_ok_def)
  have "disk_files ((set_file (segmentName q) ?f s)\<lparr>dSegSize := dSegSize s + length (dBuf s), dBuf := []\<rparr>)
      (segs @ [(q, ws @ Wb)]) []"
    using assms wal by (auto simp: disk_files_def set_file_def update_conv' distinct_update synced_upd)
  moreover have "same_mirror s ((set_file (segmentName q) ?f s)\<lparr>dSegSize := dSegSize s + length (dBuf s), dBuf := []\<rparr>)"
    using file_kinds(1) by (auto simp: same_mirror_def)
  ultimately show ?thesis using run by blast
qed

lemma frames_eq_Nil [simp]: "frames ws = [] \<longleftrightarrow> ws = []"
  using length_frame by (cases ws) (auto simp del: length_frame, metis add_is_0 list.size(3) zero_neq_numeral)

lemma syncBuffered_ok:
  assumes "disk_files s segs Wb" and "fst (last segs) + 1 < 2 ^ 64"
  shows "\<exists>s' segs'. syncBuffered True s = (Inr (), s') \<and> disk_files s' segs' [] \<and> same_mirror s s' \<and>
    wal segs' = wal segs @ Wb \<and> fst (last segs') \<le> fst (last segs) + 1"
proof (cases "Wb = []")
  case True
  with assms show ?thesis
    by (intro exI [of _ s] exI [of _ segs]) (auto simp: syncBuffered_def disk_files_def same_mirror_def)
next
  case False
  then have buf: "dBuf s \<noteq> []" using assms(1) by (auto simp: disk_files_def)
  have "\<exists>s1 segs1 q1 ws1. (if dMaxSegmentSize s \<le> dSegSize s then rotateSegment (dSegSeq s + 1) s else (Inr (), s)) = (Inr (), s1) \<and>
      disk_files s1 (segs1 @ [(q1, ws1)]) Wb \<and> same_mirror s s1 \<and> wal (segs1 @ [(q1, ws1)]) = wal segs \<and>
      q1 \<le> fst (last segs) + 1"
  proof (cases "dMaxSegmentSize s \<le> dSegSize s")
    case True
    have "dSegSeq s = fst (last segs)" using assms(1) by (simp add: disk_files_def)
    with True rotateSegment_ok [OF assms(1) _ assms(2)] show ?thesis by fastforce
  next
    case False
    obtain segs1 q1 ws1 where "segs = segs1 @ [(q1, ws1)]"
      using assms(1) by (metis disk_files_def append_butlast_last_id prod.collapse)
    with False assms(1) show ?thesis
      by (intro exI [of _ s] exI [of _ segs1] exI [of _ q1] exI [of _ ws1]) (auto simp: same_mirror_def)
  qed
  then obtain s1 segs1 q1 ws1 where s1: "disk_files s1 (segs1 @ [(q1, ws1)]) Wb" "same_mirror s s1"
      "wal (segs1 @ [(q1, ws1)]) = wal segs" "q1 \<le> fst (last segs) + 1"
      "(if dMaxSegmentSize s \<le> dSegSize s then rotateSegment (dSegSeq s + 1) s else (Inr (), s)) = (Inr (), s1)"
    by metis
  from flush_ok [OF s1(1)] obtain s2 where s2: "io_then (f_Write (segmentName q1) (dBuf s1))
      (io_then (f_Sync (segmentName q1))
         (io_modify (\<lambda>s. s\<lparr>dSegSize := dSegSize s + length (dBuf s), dBuf := []\<rparr>))) s1 = (Inr (), s2)"
      "disk_files s2 (segs1 @ [(q1, ws1 @ Wb)]) []" "same_mirror s1 s2" by blast
  have rot: "io_then (\<lambda>s. if dMaxSegmentSize s \<le> dSegSize s then rotateSegment (dSegSeq s + 1) s else (Inr (), s)) k s = k s1"
    for k :: "(DiskStorage, unit) io" by (rule io_then_ok) (rule s1(5))
  have "dSeg s1 = Some (segmentName q1)" using s1(1) by (simp add: disk_files_def)
  then have "syncBuffered True s = (Inr (), s2)"
    unfolding syncBuffered_def rot using buf s2(1) by simp
  with s1(3,4) s2(2) same_mirror_trans [OF s1(2) s2(3)] show ?thesis
    by (intro exI [of _ s2] exI [of _ "segs1 @ [(q1, ws1 @ Wb)]"]) simp
qed

section \<open>Opening a directory\<close>

lemma openActiveSegment_ok:
  assumes "fsFaults s = []" and "distinct (map fst (fsFiles s))" and "synced (dirmap s)"
    and "wal_files (dirmap s) segs []" and "dSeg s = None" and "dBuf s = []"
  shows "\<exists>s' segs'. openActiveSegment (seg_names segs) s = (Inr (), s') \<and> disk_files s' segs' [] \<and>
    same_mirror s s' \<and> wal segs' = wal segs \<and> fst (last segs') = (if segs = [] then 1 else fst (last segs))"
proof (cases segs rule: rev_cases)
  case Nil
  let ?f = "\<lparr>fData = [], fSynced = 0\<rparr>"
  let ?s = "(set_file (segmentName 1) ?f s)\<lparr>dSeg := Some (segmentName 1), dSegSize := 0, dSegSeq := 1\<rparr>"
  have new: "wal_files ((dirmap s)(segmentName 1 \<mapsto> ?f)) [(1, [])] []" "dirmap s (segmentName 1) = None"
    using wal_files_new [of "dirmap s" "[]" 1 ?f] assms Nil by auto
  have "openActiveSegment (seg_names segs) s = (Inr (), ?s)"
    using assms Nil new(2) by (simp add: openActiveSegment_def rotateSegment_def io_defs calls)
  moreover have "disk_files ?s [(1, [])] []"
    using assms new(1) distinct_update by (auto simp: disk_files_def synced_def set_file_def update_conv')
  moreover have "same_mirror s ?s" using file_kinds(1) by (auto simp: same_mirror_def)
  ultimately show ?thesis using Nil by force
next
  case (snoc segs' seg)
  obtain q ws where seg: "seg = (q, ws)" by force
  have q: "q < 2 ^ 64" using assms(4) snoc seg by (auto simp: wal_files_def segs_ok_def)
  obtain f where f: "dirmap s (segmentName q) = Some f" "fData f = frames ws"
    using assms(4) snoc seg by (auto simp: wal_files_def seg_data_def elim: has_dataE)
  let ?s = "s\<lparr>dSeg := Some (segmentName q), dSegSize := length (frames ws), dSegSeq := q\<rparr>"
  have "openActiveSegment (seg_names segs) s = (Inr (), ?s)"
    using assms snoc seg f q by (simp add: openActiveSegment_def parseSegmentSeq_segmentName io_defs calls Let_def)
  moreover have "disk_files ?s segs []" using assms snoc seg by (auto simp: disk_files_def)
  moreover have "same_mirror s ?s" by (simp add: same_mirror_def)
  ultimately show ?thesis using snoc seg by fastforce
qed

text \<open>What recovery makes of a directory whose last segment may end in a torn frame.\<close>

definition recovered :: "wrec list \<Rightarrow> Snapshot \<Rightarrow> bool \<Rightarrow> Entry list \<Rightarrow> DiskStorage \<Rightarrow> bool" where
  "recovered W snap flag es s \<longleftrightarrow>
     dHardState s = hard_after hardState0 W \<and> dSnapshot s = snap \<and> \<not> dSnapshotTruncationPending s \<and> \<not> dNoSync s \<and>
     dEntries s = (if flag \<and> WTrunc (snMetadata snap) \<notin> set W then [] else es)"

lemma replayAll_dir:
  assumes "fsFaults s = []" and "distinct (map fst (fsFiles s))" and "synced (dirmap s)"
    and "wal_files (dirmap s) segs t" and "torn_tail t" and "segs = [] \<Longrightarrow> t = []"
    and "fold_opt (install (disk_offset s)) (wal segs) (dEntries s) = Some es"
  shows "\<exists>s'. replayAll (seg_names segs) s = (Inr (seg_names segs), s') \<and> fsFaults s' = [] \<and>
    distinct (map fst (fsFiles s')) \<and> synced (dirmap s') \<and> wal_files (dirmap s') segs [] \<and>
    same_mirror (replayed (wal segs) es s) s' \<and> dSeg s' = dSeg s \<and> dBuf s' = dBuf s"
proof (cases segs rule: rev_cases)
  case Nil
  with assms replayed_Nil [of s] show ?thesis by (auto simp: io_defs same_mirror_def)
next
  case (snoc segs' seg)
  obtain q ws where seg: "seg = (q, ws)" by force
  let ?f = "\<lparr>fData = frames ws, fSynced = length (frames ws)\<rparr>"
  let ?s = "(if t = [] then id else set_file (segmentName q) ?f) (replayed (wal segs) es s)"
  have "\<forall>(q, ws) \<in> set segs. list_all wrec_ok ws" "seg_data (dirmap s) segs t"
    using assms(4) by (auto simp: wal_files_def segs_ok_def)
  then have "replayAll (seg_names segs) s = (Inr (seg_names segs), ?s)"
    using assms snoc seg replayAll_ok [of s segs t es] by simp
  moreover have "wal_files (dirmap ?s) segs []"
  proof (cases "t = []")
    case False
    have "list_all wrec_ok ws" using assms(4) snoc seg by (auto simp: wal_files_def segs_ok_def)
    with False show ?thesis
      using wal_files_last [of "dirmap s" segs' q ws t ws ?f "[]"] assms(4) snoc seg by simp
  qed (use assms(4) in simp)
  moreover have "same_mirror (replayed (wal segs) es s) ?s" using file_kinds(1) by (simp add: same_mirror_def)
  ultimately show ?thesis using assms by (intro exI [of _ ?s]) (auto simp: synced_upd)
qed

lemma Open_ok:
  assumes "fsFaults s = []" and "distinct (map fst (fsFiles s))" and "synced (dirmap s)"
    and "wal_files (dirmap s) segs t" and "torn_tail t" and "segs = [] \<Longrightarrow> t = []"
    and "snap_files (dirmap s) snap flag" and "fold_opt (install (snIndex snap)) (wal segs) [] = Some es"
    and "segs \<noteq> [] \<Longrightarrow> fst (last segs) + 1 < 2 ^ 64"
  shows "\<exists>s' segs'. Open s = (Inr (), s') \<and> disk_files s' segs' [] \<and> snap_files (dirmap s') snap flag \<and>
    recovered (wal segs) snap flag es s' \<and>
    wal segs' = wal segs @ (if flag \<and> WTrunc (snMetadata snap) \<notin> set (wal segs) then [WTrunc (snMetadata snap)] else []) \<and>
    fst (last segs') \<le> (if segs = [] then 1 else fst (last segs)) + 1"
proof -
  let ?pend = "flag \<and> WTrunc (snMetadata snap) \<notin> set (wal segs)"
  define s1 where "s1 = (fresh s)\<lparr>dSnapshot := snap, dSnapshotTruncationPending := flag\<rparr>"
  have s1 [simp]: "fsFaults s1 = []" "fsFiles s1 = fsFiles s" "disk_offset s1 = snIndex snap" "dEntries s1 = []"
    "dSeg s1 = None" "dBuf s1 = []" "dSnapshot s1 = snap" "dHardState s1 = hardState0" "\<not> dNoSync s1"
    "dSnapshotTruncationPending s1 = flag"
    using assms(1) by (simp_all add: s1_def fresh_def disk_offset_def)
  have "loadLatestSnapshot (fresh s) = (Inr (), s1)"
    unfolding s1_def using assms(1,2,7) by (intro loadLatestSnapshot_ok) (auto simp: fresh_def)
  moreover have "listSegments s1 = (Inr (seg_names segs), s1)"
    using assms(2,4) by (intro listSegments_ok) auto
  moreover obtain s2 where s2: "replayAll (seg_names segs) s1 = (Inr (seg_names segs), s2)" "fsFaults s2 = []"
      "distinct (map fst (fsFiles s2))" "synced (dirmap s2)" "wal_files (dirmap s2) segs []"
      "same_mirror (replayed (wal segs) es s1) s2" "dSeg s2 = None" "dBuf s2 = []"
    using replayAll_dir [of s1 segs t es] assms(2-6,8) by auto
  moreover define s3 where "s3 = (if ?pend then s2\<lparr>dEntries := []\<rparr> else s2)"
  moreover have pend2: "dSnapshotTruncationPending s2 = ?pend" using s2(6) by (simp add: same_mirror_def)
  moreover have s3: "fsFaults s3 = []" "fsFiles s3 = fsFiles s2" "dSeg s3 = None" "dBuf s3 = []"
    using s2 by (simp_all add: s3_def)
  moreover obtain s4 segs' where s4: "openActiveSegment (seg_names segs) s3 = (Inr (), s4)" "disk_files s4 segs' []"
      "same_mirror s3 s4" "wal segs' = wal segs" "fst (last segs') = (if segs = [] then 1 else fst (last segs))"
    using openActiveSegment_ok [of s3 segs] s2(3-5) unfolding s3 by blast
  ultimately have run: "Open s = (if ?pend then
      io_then (io_modify (\<lambda>s. s\<lparr>dBuf := appendFrame (dBuf s) (encodeTruncateSuffix (snMetadata (dSnapshot s)))\<rparr>))
        (io_then (io_cleanup (syncBuffered True) disk_Close) (io_modify (\<lambda>s. s\<lparr>dSnapshotTruncationPending := False\<rparr>)))
      else io_return ()) s4"
    using assms(1) by (simp add: Open_def io_then_def io_bind_def io_modify_def os_calls(1) Let_def)
  have mirror3: "dHardState s3 = hard_after hardState0 (wal segs)" "dSnapshot s3 = snap" "\<not> dNoSync s3"
      "dSnapshotTruncationPending s3 = ?pend" "dEntries s3 = (if ?pend then [] else es)"
    using s2(6) pend2 by (auto simp: same_mirror_def s3_def)
  have snap3: "snap_files (dirmap s3) snap flag"
    using assms(7) s2(6) same_mirror_snap_files [of "replayed (wal segs) es s1" s2 snap flag] by (simp add: s3)
  show ?thesis
  proof (cases ?pend)
    case True
    let ?m = "WTrunc (snMetadata snap)"
    let ?s5 = "s4\<lparr>dBuf := appendFrame (dBuf s4) (encodeTruncateSuffix (snMetadata (dSnapshot s4)))\<rparr>"
    have "wrec_ok ?m" using True assms(7) snap_files_flag [of "dirmap s" snap] by (simp add: snap_ok_def)
    then have "disk_files ?s5 segs' [?m]"
      using disk_files_buffer [OF s4(2), of ?m "encodeTruncateSuffix (snMetadata (dSnapshot s4))"] s4(3) mirror3(2)
      by (simp add: same_mirror_def)
    moreover have "fst (last segs') + 1 < 2 ^ 64" using s4(5) assms(9) by auto
    ultimately obtain s6 segs6 where s6: "syncBuffered True ?s5 = (Inr (), s6)" "disk_files s6 segs6 []" "same_mirror ?s5 s6"
        "wal segs6 = wal segs' @ [?m]" "fst (last segs6) \<le> fst (last segs') + 1"
      using syncBuffered_ok by blast
    let ?s7 = "s6\<lparr>dSnapshotTruncationPending := False\<rparr>"
    have "Open s = (Inr (), ?s7)"
      using run True s6(1) by (simp add: io_defs)
    moreover have "same_mirror s3 s6" using s4(3) s6(3) by (simp add: same_mirror_def)
    ultimately show ?thesis
      using True s6 s4(4,5) mirror3 snap3 same_mirror_snap_files [of s3 s6 snap flag]
      by (intro exI [of _ ?s7] exI [of _ segs6]) (auto simp: disk_files_def recovered_def same_mirror_def)
  next
    case False
    from run have "Open s = (Inr (), s4)" by (simp only: if_not_P [OF False] io_return_def)
    then show ?thesis
      using False s4 mirror3 snap3 same_mirror_snap_files [of s3 s4 snap flag]
      by (intro exI [of _ s4] exI [of _ segs']) (auto simp: recovered_def same_mirror_def)
  qed
qed

section \<open>The storage invariant\<close>

text \<open>No truncation marker lies above \<open>k\<close>.\<close>

definition marks_le :: "wrec list \<Rightarrow> nat \<Rightarrow> bool" where
  "marks_le W k \<longleftrightarrow> (\<forall>m. WTrunc m \<in> set W \<longrightarrow> smIndex m \<le> k)"

definition disk_inv :: "DiskStorage \<Rightarrow> (nat \<times> wrec list) list \<Rightarrow> wrec list \<Rightarrow> bool \<Rightarrow> bool" where
  "disk_inv s segs Wb flag \<longleftrightarrow>
     disk_files s segs Wb \<and> snap_files (dirmap s) (dSnapshot s) flag \<and>
     (flag \<longrightarrow> WTrunc (snMetadata (dSnapshot s)) \<in> set (wal segs)) \<and>
     marks_le (wal segs @ Wb) (disk_offset s) \<and>
     dHardState s = hard_after hardState0 (wal segs @ Wb) \<and>
     tracks (wal segs @ Wb) (disk_offset s) (dEntries s) \<and> contig (disk_offset s + 1) (dEntries s) \<and>
     \<not> dSnapshotTruncationPending s \<and> \<not> dNoSync s"

lemma marks_le_simps [simp]:
  "marks_le [] k" "marks_le (V @ W) k \<longleftrightarrow> marks_le V k \<and> marks_le W k" "marks_le [WHard hs] k"
  "marks_le (map WEntry es) k" "marks_le [WTrunc m] k \<longleftrightarrow> smIndex m \<le> k"
  by (auto simp: marks_le_def)

lemma marks_le_mono: "marks_le W k \<Longrightarrow> k \<le> l \<Longrightarrow> marks_le W l"
  by (auto simp: marks_le_def)

text \<open>The mirror as the in-memory storage sees it; reads are those of the in-memory storage.\<close>

definition disk_view :: "DiskStorage \<Rightarrow> Storage" where
  "disk_view s = \<lparr>stHardState = dHardState s, stSnapshot = dSnapshot s, stEntries = dEntries s\<rparr>"

lemma disk_view_simps [simp]:
  "stHardState (disk_view s) = dHardState s" "stSnapshot (disk_view s) = dSnapshot s"
  "stEntries (disk_view s) = dEntries s" "mem_offset (disk_view s) = disk_offset s"
  by (simp_all add: disk_view_def mem_offset_def disk_offset_def)

lemma foldl_appendFrame: "foldl (\<lambda>b e. appendFrame b (encodeEntry e)) b es = b @ frames (map WEntry es)"
proof (induction es arbitrary: b)
  case (Cons e es)
  then show ?case using appendFrame_frame [of b "encodeEntry e"] by simp
qed simp

text \<open>An accepted append: the position and the entries that are written.\<close>

lemma disk_AppendEntries_mem:
  "disk_AppendEntries s es =
     (case mem_AppendEntries (disk_view s) es of
        None \<Rightarrow> None
      | Some (Some e, _) \<Rightarrow> Some (Some e, s)
      | Some (None, v) \<Rightarrow> Some (None, s\<lparr>dEntries := stEntries v, dBuf := dBuf s @
          (if es \<noteq> [] \<and> disk_offset s < eIndex (last es)
           then frames (map WEntry (if eIndex (hd es) \<le> disk_offset s
             then drop (disk_offset s + 1 - eIndex (hd es)) es else es)) else [])\<rparr>))"
  by (auto simp: disk_AppendEntries_def mem_AppendEntries_def foldl_appendFrame Let_def)

lemma disk_AppendEntries_cases:
  assumes "contig n es" and "disk_AppendEntries s es = Some (None, s')"
  obtains "s' = s"
  | new where "n \<le> disk_offset s + length (dEntries s) + 1" "new = drop (disk_offset s + 1 - n) es" "new \<noteq> []"
      "contig (disk_offset s + 1 + (n - (disk_offset s + 1))) new"
      "s' = s\<lparr>dEntries := take (n - (disk_offset s + 1)) (dEntries s) @ new, dBuf := dBuf s @ frames (map WEntry new)\<rparr>"
proof (cases "es = []")
  case True
  with assms that(1) show ?thesis by (simp add: disk_AppendEntries_def)
next
  case False
  note hd = contig_hd [OF assms(1) False] and last = contig_last [OF assms(1) False]
  let ?new = "drop (disk_offset s + 1 - n) es"
  have mem: "mem_AppendEntries (disk_view s) es =
    (if n + length es \<le> disk_offset s + 1 then Some (None, disk_view s)
     else if disk_offset s + length (dEntries s) + 1 < n then Some (Some ErrUnavailable, disk_view s)
     else Some (None, (disk_view s)\<lparr>stEntries := take (n - (disk_offset s + 1)) (dEntries s) @ ?new\<rparr>))"
    using mem_AppendEntries_contig [OF assms(1) False, of "disk_view s"] by simp
  show ?thesis
  proof (cases "n + length es \<le> disk_offset s + 1")
    case True
    with mem assms(2) last False that(1) show ?thesis by (auto simp: disk_AppendEntries_mem)
  next
    case not_old: False
    then have "contig (n + (disk_offset s + 1 - n)) ?new" using assms(1) by (intro contig_drop) auto
    moreover have "n + (disk_offset s + 1 - n) = disk_offset s + 1 + (n - (disk_offset s + 1))" by simp
    ultimately have "contig (disk_offset s + 1 + (n - (disk_offset s + 1))) ?new" by simp
    with mem assms(2) hd last False not_old show ?thesis
      by (intro that(2) [of ?new]) (auto simp: disk_AppendEntries_mem split: if_split_asm)
  qed
qed

lemma disk_inv_append:
  assumes "disk_inv s segs Wb flag" and "contig n es" and "list_all entry_ok es"
    and "disk_AppendEntries s es = Some (None, s')"
  shows "\<exists>us. disk_inv s' segs (Wb @ us) flag \<and> dHardState s' = dHardState s \<and> (\<forall>u \<in> set us. \<forall>h. u \<noteq> WHard h)"
  using assms(2,4)
proof (cases rule: disk_AppendEntries_cases)
  case 1
  with assms(1) show ?thesis by (intro exI [of _ "[]"]) simp
next
  case (2 new)
  let ?pos = "n - (disk_offset s + 1)"
  have new_ok: "list_all wrec_ok (map WEntry new)"
    using assms(3) 2(2) by (auto simp: list_all_iff dest: in_set_dropD)
  then have "disk_files s' segs (Wb @ map WEntry new)"
    using assms(1) 2(5) by (simp add: disk_inv_def disk_files_def)
  moreover have "tracks ((wal segs @ Wb) @ map WEntry new) (disk_offset s) (take ?pos (dEntries s) @ new)"
    using assms(1) 2 by (intro tracks_entries) (auto simp: disk_inv_def)
  moreover have "contig (disk_offset s + 1) (take ?pos (dEntries s) @ new)"
  proof -
    have "length (take ?pos (dEntries s)) = ?pos" using 2(1) by simp
    with assms(1) 2(4) show ?thesis unfolding contig_append by (simp add: disk_inv_def contig_take)
  qed
  moreover have "hard_after h (map WEntry new) = h" for h by (induction new) auto
  ultimately show ?thesis
    using assms(1) 2(5) by (intro exI [of _ "map WEntry new"]) (simp add: disk_inv_def disk_offset_def)
qed

lemma disk_inv_hard:
  assumes "disk_inv s segs Wb flag" and "hard_ok hs" and "disk_SetHardState s hs = (e, s')"
  shows "e = None \<and> disk_inv s' segs (Wb @ [WHard hs]) flag \<and> dHardState s' = hs"
proof -
  have s': "e = None" "s' = s\<lparr>dHardState := hs, dBuf := appendFrame (dBuf s) (encodeHardState hs)\<rparr>"
    using assms(3) by (simp_all add: disk_SetHardState_def)
  have "disk_files s' segs (Wb @ [WHard hs])"
    using assms(1,2) s'(2) appendFrame_frame [of "dBuf s" "encodeHardState hs"] by (simp add: disk_inv_def disk_files_def)
  moreover have "tracks (wal segs @ Wb @ [WHard hs]) (disk_offset s) (dEntries s)"
    using assms(1) tracks_hard [of "wal segs @ Wb"] by (simp add: disk_inv_def)
  ultimately show ?thesis using assms(1) s' by (simp add: disk_inv_def disk_offset_def)
qed

lemma disk_inv_sync:
  assumes "disk_inv s segs Wb flag" and "fst (last segs) + 1 < 2 ^ 64"
  shows "\<exists>s' segs'. Sync s = (Inr (), s') \<and> disk_inv s' segs' [] flag \<and> disk_view s' = disk_view s \<and>
    wal segs' = wal segs @ Wb \<and> fst (last segs') \<le> fst (last segs) + 1"
proof -
  from assms obtain s' segs' where s': "syncBuffered True s = (Inr (), s')" "disk_files s' segs' []" "same_mirror s s'"
      "wal segs' = wal segs @ Wb" "fst (last segs') \<le> fst (last segs) + 1"
    using syncBuffered_ok [of s segs Wb] by (auto simp: disk_inv_def)
  moreover from assms s' have "disk_inv s' segs' [] flag"
    using same_mirror_snap_files [OF s'(3)] by (auto simp: disk_inv_def same_mirror_def disk_offset_def)
  moreover have "Sync s = syncBuffered True s" using assms(1) by (simp add: Sync_def disk_inv_def)
  ultimately show ?thesis by (intro exI [of _ s'] exI [of _ segs']) (auto simp: same_mirror_def disk_view_def)
qed

end
