(* ===== verification/Disk_Crash.thy ===== *)
theory Disk_Crash
  imports Disk_Recovery
begin

text \<open>
  Failures and crashes of the durable storage: what \<open>Sync\<close> and \<open>ApplySnapshot\<close> leave on disk
  when any of their calls fails, what a power failure makes of it, and what \<open>Open\<close> then
  recovers.
\<close>

section \<open>Interrupted operations and crashes\<close>

text \<open>
  What an operation can leave on disk when a call fails half way: the records of \<open>W\<close>,
  durable, and some bytes of the buffered records \<open>Wb\<close> at the end of the last segment,
  whose number is at most \<open>Q\<close>.
\<close>

definition partial_wal :: "nat \<Rightarrow> (string \<Rightarrow> dfile option) \<Rightarrow> wrec list \<Rightarrow> wrec list \<Rightarrow> bool" where
  "partial_wal Q M W Wb \<longleftrightarrow>
     (\<exists>segs q ws k. W = wal segs @ ws \<and> q \<le> Q \<and> wal_files M (segs @ [(q, ws)]) (take k (frames Wb)) \<and>
        (\<forall>n f. M n = Some f \<longrightarrow> is_wal n \<longrightarrow>
           fSynced f = length (fData f) \<or> n = segmentName q \<and> length (frames ws) \<le> fSynced f))"

text \<open>Only the files in \<open>N\<close> (and the faults still due) differ.\<close>

definition only_files :: "string set \<Rightarrow> DiskStorage \<Rightarrow> DiskStorage \<Rightarrow> bool" where
  "only_files N s s' \<longleftrightarrow>
     (\<exists>F flt. s' = s\<lparr>fsFiles := F, fsFaults := flt\<rparr>) \<and>
     (distinct (map fst (fsFiles s)) \<longrightarrow> distinct (map fst (fsFiles s'))) \<and> (\<forall>n. n \<notin> N \<longrightarrow> dirmap s' n = dirmap s n)"

lemma only_files_refl [simp]: "only_files N s s"
  unfolding only_files_def by (auto intro!: exI [of _ "fsFiles s"] exI [of _ "fsFaults s"])

lemma only_files_trans: "only_files N s t \<Longrightarrow> only_files N t u \<Longrightarrow> only_files N s u"
  unfolding only_files_def by fastforce

lemma only_files_set [simp]: "n \<in> N \<Longrightarrow> only_files N s (set_file n f s)"
  unfolding only_files_def set_file_def
  by (auto simp: update_conv' distinct_update intro!: exI [of _ "AList.update n f (fsFiles s)"] exI [of _ "fsFaults s"])

lemma only_files_faults [simp]: "only_files N s (s\<lparr>fsFaults := flt\<rparr>)"
  unfolding only_files_def by (auto intro!: exI [of _ "fsFiles s"] exI [of _ "flt"])

lemma only_files_delete [simp]:
  "n \<in> N \<Longrightarrow> only_files N s (s\<lparr>fsFiles := AList.delete n (fsFiles s)\<rparr>)"
  unfolding only_files_def
  by (auto simp: delete_conv' distinct_delete intro!: exI [of _ "AList.delete n (fsFiles s)"] exI [of _ "fsFaults s"])

lemma next_fault_cases:
  obtains flt where "next_fault s = (None, s\<lparr>fsFaults := flt\<rparr>)"
  | k flt where "next_fault s = (Some k, s\<lparr>fsFaults := flt\<rparr>)"
proof (cases "fsFaults s")
  case Nil
  then have "next_fault s = (None, s\<lparr>fsFaults := []\<rparr>)" by (simp add: next_fault_def)
  with that(1) show ?thesis .
next
  case (Cons x flt)
  then have "next_fault s = (x, s\<lparr>fsFaults := flt\<rparr>)" by (simp add: next_fault_def)
  with that show ?thesis by (cases x) auto
qed

lemma syscallE:
  assumes "syscall what act s = (r, s')"
  obtains flt where "act (s\<lparr>fsFaults := flt\<rparr>) = (r, s')"
  | flt where "r = Inl (IOError what)" and "s' = s\<lparr>fsFaults := flt\<rparr>"
  using assms by (cases s rule: next_fault_cases) (auto simp: syscall_def)

lemma only_files_call:
  assumes "\<And>s r s'. act s = (r, s') \<Longrightarrow> only_files N s s'" and "syscall what act s = (r, s')"
  shows "only_files N s s'"
  using assms(2)
proof (cases rule: syscallE)
  case (1 flt)
  then have "only_files N (s\<lparr>fsFaults := flt\<rparr>) s'" by (rule assms(1))
  with only_files_faults only_files_trans show ?thesis by blast
qed simp

lemma only_files_with:
  assumes "\<And>f s r s'. act f s = (r, s') \<Longrightarrow> only_files N s s'" and "with_file what n act s = (r, s')"
  shows "only_files N s s'"
  using assms(2) by (auto simp: with_file_def split: option.split_asm dest: assms(1))

lemma only_files_calls:
  "os_OpenTrunc n s = (r, s') \<Longrightarrow> n \<in> N \<Longrightarrow> only_files N s s'"
  "os_OpenCreate n s = (r, s') \<Longrightarrow> n \<in> N \<Longrightarrow> only_files N s s'"
  "f_Sync n s = (r, s') \<Longrightarrow> n \<in> N \<Longrightarrow> only_files N s s'"
  "os_Remove n s = (r, s') \<Longrightarrow> n \<in> N \<Longrightarrow> only_files N s s'"
  "f_Close s = (r2, s') \<Longrightarrow> only_files N s s'"
  by (auto simp: os_OpenTrunc_def os_OpenCreate_def f_Sync_def os_Remove_def f_Close_def io_modify_def io_return_def
      elim!: only_files_call [rotated] only_files_with [rotated] split: option.split_asm)

lemma only_files_write: "f_Write n d s = (r, s') \<Longrightarrow> n \<in> N \<Longrightarrow> only_files N s s'"
proof (cases s rule: next_fault_cases)
  case (1 flt)
  moreover assume "f_Write n d s = (r, s')" and "n \<in> N"
  ultimately have "only_files N (s\<lparr>fsFaults := flt\<rparr>) s'"
    by (auto simp: f_Write_def io_modify_def elim!: only_files_with [rotated])
  then show ?thesis using only_files_faults only_files_trans by blast
next
  case (2 k flt)
  moreover assume "f_Write n d s = (r, s')" and "n \<in> N"
  ultimately have "only_files N (s\<lparr>fsFaults := flt\<rparr>) s'"
    by (auto simp: f_Write_def split: option.split_asm)
  then show ?thesis using only_files_faults only_files_trans by blast
qed

lemma only_files_mono: "only_files N s s' \<Longrightarrow> N \<subseteq> N' \<Longrightarrow> only_files N' s s'"
  by (auto simp: only_files_def)

lemma only_files_other: "only_files N s s' \<Longrightarrow> n \<notin> N \<Longrightarrow> dirmap s' n = dirmap s n"
  by (simp add: only_files_def)

lemma only_files_fsyncDir: "fsyncDir s = (r, s') \<Longrightarrow> only_files {} s s'"
  using only_files_trans only_files_faults
  by (auto simp: fsyncDir_def io_then_def io_bind_def io_return_def elim!: syscallE split: prod.split_asm sum.split_asm)

lemma only_files_then:
  assumes "\<And>r s'. m s = (r, s') \<Longrightarrow> only_files N s s'" and "\<And>s r s'. k s = (r, s') \<Longrightarrow> only_files N s s'"
    and "io_then m k s = (r, s')"
  shows "only_files N s s'"
  using assms(3) only_files_trans [OF assms(1) assms(2)]
  by (auto simp: io_then_def io_bind_def split: prod.split_asm sum.split_asm dest: assms(1))

lemma only_files_cleanup:
  assumes "\<And>r s'. m s = (r, s') \<Longrightarrow> only_files N s s'" and "\<And>s r s'. c s = (r, s') \<Longrightarrow> only_files N s s'"
    and "io_cleanup m c s = (r, s')"
  shows "only_files N s s'"
  using assms(3) only_files_trans [OF assms(1) assms(2)]
  by (auto simp: io_cleanup_def split: prod.split_asm sum.split_asm dest: assms(1)) (metis prod.collapse)

lemma call_results:
  "os_OpenTrunc n s = (Inr u, s') \<Longrightarrow> dirmap s' n = Some \<lparr>fData = [], fSynced = 0\<rparr>"
  "f_Sync n s = (Inr u, s') \<Longrightarrow> dirmap s n = Some f \<Longrightarrow> dirmap s' n = Some (f\<lparr>fSynced := length (fData f)\<rparr>)"
  "f_Write n d s = (Inr u, s') \<Longrightarrow> dirmap s n = Some f \<Longrightarrow> dirmap s' n = Some (f\<lparr>fData := fData f @ d\<rparr>)"
    apply (auto simp: os_OpenTrunc_def f_Sync_def io_modify_def with_file_def elim!: syscallE) [2]
  apply (cases s rule: next_fault_cases)
   apply (auto simp: f_Write_def with_file_def io_modify_def split: option.split_asm)
  done

lemma os_Rename_any:
  assumes "os_Rename a b s = (r, s')" and "a \<noteq> b" and "dirmap s a = Some f"
  shows "only_files {a, b} s s' \<and> (r \<noteq> Inr () \<and> only_files {} s s' \<or> dirmap s' b = Some f)"
  using assms(1)
proof (cases rule: syscallE [OF assms(1) [unfolded os_Rename_def]])
  case (1 flt)
  then have "s' = set_file b f (s\<lparr>fsFaults := flt, fsFiles := AList.delete a (fsFiles s)\<rparr>)"
    using assms(3) by (simp add: with_file_def io_modify_def)
  moreover have "only_files {a, b} s (set_file b f (s\<lparr>fsFaults := flt, fsFiles := AList.delete a (fsFiles s)\<rparr>))"
    unfolding only_files_def set_file_def
    by (auto simp: update_conv' delete_conv' distinct_update distinct_delete
        intro!: exI [of _ "AList.update b f (AList.delete a (fsFiles s))"] exI [of _ flt])
  ultimately show ?thesis by simp
qed auto

lemma writeSnapshotFile_any:
  fixes snap tr
  defines "final \<equiv> snapshotName (snIndex snap)"
  defines "framed \<equiv> appendFrame [] (snapPayload snap tr)"
  assumes "writeSnapshotFile snap tr s = (r, s')"
  shows "only_files {final @ ''.tmp'', final} s s' \<and>
    (r \<noteq> Inr () \<and> dirmap s' final = dirmap s final \<or> dirmap s' final = Some \<lparr>fData = framed, fSynced = length framed\<rparr>)"
proof -
  let ?tmp = "final @ ''.tmp''"
  let ?N = "{?tmp, final}"
  have tmp: "?tmp \<noteq> final" by simp
  obtain r1 s1 where 1: "os_OpenTrunc ?tmp s = (r1, s1)" by force
  obtain r2 s2 where 2: "io_cleanup (io_then (f_Write ?tmp framed) (f_Sync ?tmp)) (\<lambda>s. os_Remove ?tmp (snd (f_Close s))) s1 = (r2, s2)"
    by force
  obtain r3 s3 where 3: "io_cleanup f_Close (os_Remove ?tmp) s2 = (r3, s3)" by force
  obtain r4 s4 where 4: "io_cleanup (os_Rename ?tmp final) (os_Remove ?tmp) s3 = (r4, s4)" by force
  obtain r5 s5 where 5: "fsyncDir s4 = (r5, s5)" by force
  have res: "(r, s') = (case r1 of Inl e \<Rightarrow> (Inl e, s1) | Inr _ \<Rightarrow> case r2 of Inl e \<Rightarrow> (Inl e, s2) | Inr _ \<Rightarrow>
      case r3 of Inl e \<Rightarrow> (Inl e, s3) | Inr _ \<Rightarrow> case r4 of Inl e \<Rightarrow> (Inl e, s4) | Inr _ \<Rightarrow> (r5, s5))"
    using assms(3) 1 2 3 4 5 unfolding final_def framed_def
    by (auto simp: writeSnapshotFile_def io_then_def io_bind_def Let_def split: sum.split)
  have o1: "only_files {?tmp} s s1" using only_files_calls(1) [OF 1] by simp
  have w: "only_files {?tmp} s1 t" if "io_then (f_Write ?tmp framed) (f_Sync ?tmp) s1 = (u, t)" for u t
    by (rule only_files_then [OF _ _ that]) (auto intro: only_files_write only_files_calls(3))
  have c: "only_files {?tmp} a b" if "os_Remove ?tmp (snd (f_Close a)) = (u, b)" for u a b
  proof -
    have "only_files {?tmp} a (snd (f_Close a))" by (rule only_files_calls(5) [OF prod.collapse [symmetric]])
    with only_files_calls(4) [OF that] show ?thesis using only_files_trans by blast
  qed
  have o2: "only_files {?tmp} s1 s2" by (rule only_files_cleanup [OF w c 2])
  have o3: "only_files {?tmp} s2 s3"
    by (rule only_files_cleanup [OF _ _ 3]) (auto intro: only_files_calls)
  have d2: "dirmap s2 ?tmp = Some \<lparr>fData = framed, fSynced = length framed\<rparr>" if "r1 = Inr ()" "r2 = Inr ()"
    using 1 2 that call_results(1) [of ?tmp s "()" s1]
    by (auto simp: io_cleanup_def io_then_def io_bind_def split: prod.split_asm sum.split_asm dest!: call_results(2,3))
  have d3: "dirmap s3 ?tmp = dirmap s2 ?tmp" if "r3 = Inr ()"
    using 3 that only_files_calls(5) [of s2 _ s3 "{}"] by (auto simp: io_cleanup_def only_files_def split: prod.split_asm sum.split_asm)
  have o5: "only_files {} s4 s5" using only_files_fsyncDir [OF 5] .
  let ?F = "Some \<lparr>fData = framed, fSynced = length framed\<rparr>"
  have step4: "only_files ?N s3 s4 \<and> (r4 \<noteq> Inr () \<and> dirmap s4 final = dirmap s3 final \<or> dirmap s4 final = ?F)"
    if "dirmap s3 ?tmp = ?F"
  proof -
    obtain ra sa where a: "os_Rename ?tmp final s3 = (ra, sa)" by force
    note any = os_Rename_any [OF a tmp that]
    show ?thesis
    proof (cases ra)
      case (Inl e)
      with a 4 have 4: "r4 = Inl e" "s4 = snd (os_Remove ?tmp sa)" by (auto simp: io_cleanup_def)
      have "only_files {?tmp} sa s4" unfolding 4 by (rule only_files_calls(4) [OF prod.collapse [symmetric]]) simp
      then have s4: "only_files ?N sa s4" "dirmap s4 final = dirmap sa final"
        using only_files_mono [of "{?tmp}" sa s4 ?N] only_files_other [of "{?tmp}" sa s4 final] tmp by simp_all
      then have "only_files ?N s3 s4" using any only_files_trans by blast
      moreover have "dirmap s4 final = dirmap s3 final \<or> dirmap s4 final = ?F"
        using any only_files_other [of "{}" s3 sa final] s4(2) by auto
      ultimately show ?thesis using 4(1) by simp
    next
      case (Inr u)
      with a 4 any show ?thesis by (auto simp: io_cleanup_def)
    qed
  qed
  have keep: "dirmap s1 final = dirmap s final" "dirmap s2 final = dirmap s1 final" "dirmap s3 final = dirmap s2 final"
    using only_files_other [OF o1, of final] only_files_other [OF o2, of final] only_files_other [OF o3, of final] tmp by simp_all
  have sub: "{?tmp} \<subseteq> ?N" "{} \<subseteq> ?N" by auto
  have c1: "only_files ?N s s1" using only_files_mono [OF o1 sub(1)] .
  have c2: "only_files ?N s s2" using only_files_trans [OF c1 only_files_mono [OF o2 sub(1)]] .
  have c3: "only_files ?N s s3" using only_files_trans [OF c2 only_files_mono [OF o3 sub(1)]] .
  have c5: "only_files ?N s4 s5" "dirmap s5 final = dirmap s4 final"
    using only_files_mono [OF o5 sub(2)] only_files_other [OF o5] by simp_all
  consider "s' = s1" "r \<noteq> Inr ()" | "s' = s2" "r \<noteq> Inr ()" | "s' = s3" "r \<noteq> Inr ()"
    | "dirmap s3 ?tmp = ?F" "s' = s4" "r = r4" "r4 \<noteq> Inr ()" | "dirmap s3 ?tmp = ?F" "s' = s5" "r4 = Inr ()"
    using res d2 d3 by (cases r1; cases r2; cases r3; cases r4) auto
  then show ?thesis
  proof cases
    case 4
    with step4 [OF 4(1)] keep only_files_trans [OF c3] show ?thesis by auto
  next
    case 5
    with step4 [OF 5(1)] c5 only_files_trans [OF only_files_trans [OF c3] c5(1)] show ?thesis by auto
  qed (use c1 c2 c3 keep in auto)
qed

lemma partial_wal_cong:
  assumes "\<And>n. is_wal n \<Longrightarrow> M' n = M n"
  shows "partial_wal Q M' W Wb = partial_wal Q M W Wb"
proof -
  have "{n \<in> dom M'. is_wal n} = {n \<in> dom M. is_wal n}" using assms by auto
  moreover have "has_data M' (segmentName q) d = has_data M (segmentName q) d" for q d
    unfolding has_data_def using assms by simp
  ultimately have "wal_files M' segs t = wal_files M segs t" for segs t
    by (simp only: wal_files_def seg_data_def)
  then show ?thesis unfolding partial_wal_def using assms by (metis (no_types, lifting))
qed

lemma partial_wal_files:
  assumes "wal_files M (segs @ [(q, ws)]) []" and "q \<le> Q" and "synced M" and "W = wal segs @ ws"
  shows "partial_wal Q M W Wb"
  unfolding partial_wal_def using assms
  by (intro exI [of _ segs] exI [of _ q] exI [of _ ws] exI [of _ 0]) (auto simp: synced_def)

lemma f_Write_any:
  assumes "f_Write n d s = (r, s')" and "dirmap s n = Some f"
  obtains k where "dirmap s' = (dirmap s)(n \<mapsto> f\<lparr>fData := fData f @ take k d\<rparr>)"
proof (cases s rule: next_fault_cases)
  case (1 flt)
  with assms that [of "length d"] show ?thesis by (auto simp: f_Write_def with_file_def io_modify_def)
next
  case (2 k flt)
  with assms that [of k] show ?thesis by (auto simp: f_Write_def)
qed

lemma f_Sync_any:
  assumes "f_Sync n s = (r, s')" and "dirmap s n = Some f"
  obtains "dirmap s' = dirmap s" | "dirmap s' = (dirmap s)(n \<mapsto> f\<lparr>fSynced := length (fData f)\<rparr>)"
  using assms by (auto simp: f_Sync_def with_file_def io_modify_def elim!: syscallE)

lemma rotateSegment_any:
  assumes "rotateSegment q s = (r, s')" and "dirmap s (segmentName q) = None"
  shows "dBuf s' = dBuf s \<and> (distinct (map fst (fsFiles s)) \<longrightarrow> distinct (map fst (fsFiles s'))) \<and>
    (dirmap s' = dirmap s \<and> r \<noteq> Inr () \<or>
     dirmap s' = (dirmap s)(segmentName q \<mapsto> \<lparr>fData = [], fSynced = 0\<rparr>) \<and> (r = Inr () \<longrightarrow> dSeg s' = Some (segmentName q)))"
  using assms
  by (auto simp: rotateSegment_def io_then_def io_bind_def io_modify_def io_return_def f_Close_def os_OpenCreate_def fsyncDir_def
      elim!: syscallE split: if_split_asm prod.split_asm sum.split_asm option.split_asm)

text \<open>Writing and syncing the buffer to the last segment, whatever fails.\<close>

lemma flush_any:
  fixes s :: DiskStorage
  assumes "wal_files (dirmap s) (segs @ [(q, ws)]) []" and "q \<le> Q" and "synced (dirmap s)"
    and "dBuf s = frames Wb" and "distinct (map fst (fsFiles s))"
    and "io_then (f_Write (segmentName q) (dBuf s))
      (io_then (if durable then f_Sync (segmentName q) else io_return ())
         (io_modify (\<lambda>s. s\<lparr>dSegSize := dSegSize s + length (dBuf s), dBuf := []\<rparr>))) s = (r, s')"
  shows "partial_wal Q (dirmap s') (wal segs @ ws) Wb \<and> distinct (map fst (fsFiles s')) \<and>
    (\<forall>n. \<not> is_wal n \<longrightarrow> dirmap s' n = dirmap s n)"
proof -
  let ?n = "segmentName q"
  obtain f where f: "dirmap s ?n = Some f" "fData f = frames ws" "fSynced f = length (fData f)"
    using assms(1,3) file_kinds(1) [of q] by (auto simp: wal_files_def seg_data_def synced_def elim!: has_dataE)
  have ws: "list_all wrec_ok ws" using assms(1) by (auto simp: wal_files_def segs_ok_def)
  obtain r1 s1 where 1: "f_Write ?n (dBuf s) s = (r1, s1)" by force
  obtain k where k: "dirmap s1 = (dirmap s)(?n \<mapsto> f\<lparr>fData := fData f @ take k (dBuf s)\<rparr>)"
    using f_Write_any [OF 1 f(1)] .
  have d1: "distinct (map fst (fsFiles s1))"
    using only_files_write [OF 1, of "{?n}"] assms(5) by (simp add: only_files_def)
  have part: "partial_wal Q ((dirmap s)(?n \<mapsto> g)) (wal segs @ ws) Wb"
    if "fData g = frames ws @ take k (frames Wb)" "length (frames ws) \<le> fSynced g" for g
    unfolding partial_wal_def
    using wal_files_last [OF assms(1) ws that(1)] assms(2,3) that(2)
    by (intro exI [of _ segs] exI [of _ q] exI [of _ ws] exI [of _ k]) (auto simp: synced_def)
  have p1: "partial_wal Q (dirmap s1) (wal segs @ ws) Wb"
    unfolding k using f assms(4) by (intro part) auto
  have other1: "\<forall>n. \<not> is_wal n \<longrightarrow> dirmap s1 n = dirmap s n" using k file_kinds(1) by auto
  show ?thesis
  proof (cases r1)
    case (Inl e)
    with assms(6) 1 have "s' = s1" by (simp add: io_then_def io_bind_def)
    with p1 d1 other1 show ?thesis by simp
  next
    case (Inr u)
    obtain r2 s2 where 2: "(if durable then f_Sync ?n else io_return ()) s1 = (r2, s2)" by force
    have files: "fsFiles s' = fsFiles s2"
      using assms(6) 1 2 Inr by (cases r2) (auto simp: io_then_def io_bind_def io_modify_def)
    show ?thesis
    proof (cases durable)
      case False
      with 2 files p1 d1 other1 show ?thesis by (simp add: io_return_def)
    next
      case True
      have d2: "distinct (map fst (fsFiles s2))"
        using only_files_calls(3) [of ?n s1 r2 s2 "{?n}"] 2 True d1 by (simp add: only_files_def)
      have n: "dirmap s1 ?n = Some (f\<lparr>fData := fData f @ take k (dBuf s)\<rparr>)" by (simp add: k)
      from 2 True have "f_Sync ?n s1 = (r2, s2)" by simp
      then show ?thesis
      proof (rule f_Sync_any [OF _ n])
        assume "dirmap s2 = dirmap s1"
        with files p1 d2 other1 show ?thesis by simp
      next
        assume m: "dirmap s2 = (dirmap s1)(?n \<mapsto> f\<lparr>fData := fData f @ take k (dBuf s)\<rparr>
            \<lparr>fSynced := length (fData (f\<lparr>fData := fData f @ take k (dBuf s)\<rparr>))\<rparr>)"
        then have "partial_wal Q (dirmap s2) (wal segs @ ws) Wb"
          unfolding m k fun_upd_upd using f assms(4) by (intro part) auto
        with m files d2 other1 file_kinds(1) show ?thesis by auto
      qed
    qed
  qed
qed

lemma syncBuffered_unfold:
  "dBuf s \<noteq> [] \<Longrightarrow> syncBuffered durable s =
     (case (if dMaxSegmentSize s \<le> dSegSize s then rotateSegment (dSegSeq s + 1) s else (Inr (), s)) of
        (Inl e, s) \<Rightarrow> (Inl e, s)
      | (Inr _, s) \<Rightarrow>
          (case dSeg s of
             None \<Rightarrow> (Inl (IOError ''write''), s)
           | Some seg \<Rightarrow>
               io_then (f_Write seg (dBuf s))
                 (io_then (if durable then f_Sync seg else io_return ())
                   (io_modify (\<lambda>s. s\<lparr>dSegSize := dSegSize s + length (dBuf s), dBuf := []\<rparr>))) s))"
  unfolding syncBuffered_def
    io_then_def [of "\<lambda>s. if dMaxSegmentSize s \<le> dSegSize s then rotateSegment (dSegSeq s + 1) s else (Inr (), s)"]
    io_bind_def by simp

lemma syncBuffered_any:
  assumes "disk_files (s\<lparr>fsFaults := []\<rparr>) segs Wb" and "fst (last segs) + 1 < 2 ^ 64"
    and "fst (last segs) + 1 \<le> Q" and "syncBuffered durable s = (r, s')"
  shows "partial_wal Q (dirmap s') (wal segs) Wb \<and> distinct (map fst (fsFiles s')) \<and>
    (\<forall>n. \<not> is_wal n \<longrightarrow> dirmap s' n = dirmap s n)"
proof -
  obtain segs0 q ws where segs: "segs = segs0 @ [(q, ws)]"
    using assms(1) by (metis disk_files_def append_butlast_last_id prod.collapse)
  have s: "distinct (map fst (fsFiles s))" "synced (dirmap s)" "wal_files (dirmap s) segs []"
      "dSeg s = Some (segmentName q)" "dSegSeq s = q" "dBuf s = frames Wb"
    using assms(1) segs by (auto simp: disk_files_def)
  have p0: "partial_wal Q (dirmap s) (wal segs) Wb"
    using s assms(2,3) by (intro partial_wal_files [of _ segs0 q ws]) (auto simp: segs)
  show ?thesis
  proof (cases "dBuf s = []")
    case True
    with assms(4) s(1) p0 show ?thesis by (simp add: syncBuffered_def)
  next
    case False
    show ?thesis
    proof (cases "dMaxSegmentSize s \<le> dSegSize s")
      case full: True
      let ?q = "Suc q" and ?e = "\<lparr>fData = [], fSynced = 0\<rparr>"
      obtain r1 s1 where 1: "rotateSegment ?q s = (r1, s1)" by force
      have "fst p < ?q" if "p \<in> set segs" for p
        using s(3) that segs by (fastforce simp: wal_files_def segs_ok_def sorted_wrt_append)
      then have new: "wal_files ((dirmap s)(segmentName ?q \<mapsto> ?e)) (segs @ [(?q, [])]) []" "dirmap s (segmentName ?q) = None"
        using wal_files_new [OF s(3), of ?q ?e] assms(2) segs by auto
      note any = rotateSegment_any [OF 1 new(2)]
      have sync1: "synced ((dirmap s)(segmentName ?q \<mapsto> ?e))" using s(2) by (simp add: synced_upd)
      have p1: "partial_wal Q ((dirmap s)(segmentName ?q \<mapsto> ?e)) (wal segs) Wb"
        using new(1) sync1 assms(2,3) segs by (intro partial_wal_files [of _ segs ?q "[]"]) auto
      have other: "\<forall>n. \<not> is_wal n \<longrightarrow> ((dirmap s)(segmentName ?q \<mapsto> ?e)) n = dirmap s n" using file_kinds(1) by auto
      show ?thesis
      proof (cases r1)
        case (Inl e)
        with assms(4) 1 full False s(5) have "s' = s1" by (simp add: syncBuffered_def io_then_def io_bind_def)
        with any p0 p1 s(1) other show ?thesis by auto
      next
        case (Inr u)
        with any have r: "dBuf s1 = dBuf s" "distinct (map fst (fsFiles s1))" "dSeg s1 = Some (segmentName ?q)"
            "dirmap s1 = (dirmap s)(segmentName ?q \<mapsto> ?e)" using s(1) by auto
        have "io_then (f_Write (segmentName ?q) (dBuf s1))
            (io_then (if durable then f_Sync (segmentName ?q) else io_return ())
               (io_modify (\<lambda>s. s\<lparr>dSegSize := dSegSize s + length (dBuf s), dBuf := []\<rparr>))) s1 = (r, s')"
          using assms(4) 1 Inr full False s(5) r(1,3) by (simp add: syncBuffered_unfold split del: if_split)
        from flush_any [OF _ _ _ _ _ this, of segs "[]" Q Wb] r new(1) sync1 s(6) assms(2,3) segs other
        show ?thesis by auto
      qed
    next
      case nofull: False
      have "io_then (f_Write (segmentName q) (dBuf s))
            (io_then (if durable then f_Sync (segmentName q) else io_return ())
               (io_modify (\<lambda>s. s\<lparr>dSegSize := dSegSize s + length (dBuf s), dBuf := []\<rparr>))) s = (r, s')"
        using assms(4) nofull False s(4) by (simp add: syncBuffered_unfold split del: if_split)
      from flush_any [OF _ _ _ _ _ this, of segs0 ws Q Wb] s assms(2,3) segs show ?thesis by auto
    qed
  qed
qed

section \<open>Power failure\<close>

lemma crash_files:
  assumes "crash s s'"
  shows "map fst (fsFiles s') = map fst (fsFiles s)" and "rel_option crash_file (dirmap s n) (dirmap s' n)"
proof -
  have *: "list_all2 (\<lambda>(n, f) (n', f'). n' = n \<and> crash_file f f') F F' \<Longrightarrow>
      map fst F' = map fst F \<and> rel_option crash_file (map_of F n) (map_of F' n)" for F F'
    by (induction rule: list_all2_induct) auto
  from * [OF assms [unfolded crash_def]]
  show "map fst (fsFiles s') = map fst (fsFiles s)" "rel_option crash_file (dirmap s n) (dirmap s' n)" by auto
qed

lemma crash_synced_file:
  "crash s s' \<Longrightarrow> dirmap s n = Some f \<Longrightarrow> fSynced f = length (fData f) \<Longrightarrow> dirmap s' n = Some f"
  using crash_files(2) [of s s' n] by (cases f) (auto simp: option_rel_Some1 crash_file_def)

lemma crash_None: "crash s s' \<Longrightarrow> dirmap s' n = None \<longleftrightarrow> dirmap s n = None"
  using crash_files(2) [of s s' n] by (auto simp: rel_option_iff split: option.split_asm)

lemma crash_all_synced:
  assumes "crash s s'" and "dirmap s' n = Some f'"
  shows "fSynced f' = length (fData f')"
  using crash_files(2) [OF assms(1), of n] assms(2) by (auto simp: option_rel_Some2 crash_file_def)

text \<open>After a power failure the segments hold \<open>W\<close>, whole records of \<open>Wb\<close> and a torn tail.\<close>

lemma crash_wal:
  assumes "partial_wal Q (dirmap s) W Wb" and "crash s s'" and "list_all wrec_ok Wb"
  shows "\<exists>segs us vs t. Wb = us @ vs \<and> wal segs = W @ us \<and> segs \<noteq> [] \<and> fst (last segs) \<le> Q \<and>
    wal_files (dirmap s') segs t \<and> torn_tail t"
proof -
  from assms(1) obtain segs q ws k where W: "W = wal segs @ ws" "q \<le> Q"
      and files: "wal_files (dirmap s) (segs @ [(q, ws)]) (take k (frames Wb))"
      and sync: "\<And>n f. dirmap s n = Some f \<Longrightarrow> is_wal n \<Longrightarrow>
        fSynced f = length (fData f) \<or> n = segmentName q \<and> length (frames ws) \<le> fSynced f"
    unfolding partial_wal_def by blast
  have q: "q' \<noteq> q" "q' < 2 ^ 64" "q < 2 ^ 64" if "(q', ws') \<in> set segs" for q' ws'
    using files that by (fastforce simp: wal_files_def segs_ok_def sorted_wrt_append)+
  obtain f where f: "dirmap s (segmentName q) = Some f" "fData f = frames ws @ take k (frames Wb)"
    using files by (auto simp: wal_files_def seg_data_def elim!: has_dataE)
  then have "length (frames ws) \<le> fSynced f" using sync [of "segmentName q" f] by auto
  then obtain j where f': "dirmap s' (segmentName q) = Some \<lparr>fData = take j (fData f), fSynced = j\<rparr>" "length (frames ws) \<le> j"
    using crash_files(2) [OF assms(2), of "segmentName q"] f(1) by (auto simp: option_rel_Some1 crash_file_def)
  have "take j (fData f) = frames ws @ take (min (j - length (frames ws)) k) (frames Wb)"
    using f(2) f'(2) by simp
  moreover obtain us vs t where us: "Wb = us @ vs" "take (min (j - length (frames ws)) k) (frames Wb) = frames us @ t" "torn_tail t"
    using take_frames [OF assms(3)] by blast
  ultimately have last: "has_data (dirmap s') (segmentName q) (frames (ws @ us) @ t)"
    using f'(1) by (simp add: has_data_def)
  have init: "has_data (dirmap s') (segmentName q') (frames ws')" if "(q', ws') \<in> set segs" for q' ws'
  proof -
    have "has_data (dirmap s) (segmentName q') (frames ws')"
      using files that by (auto simp: wal_files_def seg_data_def)
    then obtain g where g: "dirmap s (segmentName q') = Some g" "fData g = frames ws'" by (rule has_dataE)
    have "segmentName q' \<noteq> segmentName q" using q [OF that] segmentName_inj by blast
    with g sync [of "segmentName q'" g] crash_synced_file [OF assms(2), of "segmentName q'" g] show ?thesis
      by (auto simp: has_data_def)
  qed
  have "{n \<in> dom (dirmap s'). is_wal n} = {n \<in> dom (dirmap s). is_wal n}"
    using crash_None [OF assms(2)] by (auto simp: domIff)
  moreover have "list_all wrec_ok us" using assms(3) us(1) by simp
  ultimately have "wal_files (dirmap s') (segs @ [(q, ws @ us)]) t"
    using files init last by (auto simp: wal_files_def segs_ok_def seg_data_def)
  with W us show ?thesis by (intro exI [of _ "segs @ [(q, ws @ us)]"] exI [of _ us] exI [of _ vs] exI [of _ t]) simp
qed

definition snap_dir :: "(string \<Rightarrow> dfile option) \<Rightarrow> Snapshot \<Rightarrow> bool \<Rightarrow> bool" where
  "snap_dir M snap flag \<longleftrightarrow> snap_files M snap flag \<and>
     (\<forall>n f. M n = Some f \<longrightarrow> is_snap n \<longrightarrow> fSynced f = length (fData f))"

lemma crash_snap:
  assumes "snap_dir (dirmap s) snap flag" and "crash s s'"
  shows "snap_files (dirmap s') snap flag"
proof -
  have "dirmap s' n = dirmap s n" if "is_snap n" for n
    using assms(1) that crash_synced_file [OF assms(2), of n] crash_None [OF assms(2), of n]
    by (cases "dirmap s n") (auto simp: snap_dir_def)
  then have "snap_files (dirmap s') snap flag = snap_files (dirmap s) snap flag" by (rule snap_files_cong)
  with assms(1) show ?thesis by (simp add: snap_dir_def)
qed

text \<open>Reopening after the power failure.\<close>

lemma reopen:
  assumes "partial_wal Q (dirmap s) W Wb" and "list_all wrec_ok Wb" and "distinct (map fst (fsFiles s))"
    and "snap_dir (dirmap s) snap flag" and "crash s s'" and "fsFaults s' = []"
    and "tracks (W @ Wb) off es0" and "off \<le> snIndex snap" and "Q + 1 < 2 ^ 64" and "marks_le (W @ Wb) (snIndex snap)"
  shows "\<exists>us vs es s3 segs3. Wb = us @ vs \<and> Open s' = (Inr (), s3) \<and>
    fold_opt (install (snIndex snap)) (W @ us) [] = Some es \<and> recovered (W @ us) snap flag es s3 \<and>
    disk_inv s3 segs3 [] flag \<and> fst (last segs3) \<le> Q + 1"
proof -
  obtain segs us vs t where w: "Wb = us @ vs" "wal segs = W @ us" "segs \<noteq> []" "fst (last segs) \<le> Q"
      "wal_files (dirmap s') segs t" "torn_tail t"
    using crash_wal [OF assms(1,5,2)] by blast
  have sync: "synced (dirmap s')" using crash_all_synced [OF assms(5)] by (auto simp: synced_def)
  have dist: "distinct (map fst (fsFiles s'))" using assms(3) crash_files(1) [OF assms(5)] by simp
  have snapf: "snap_files (dirmap s') snap flag" using crash_snap [OF assms(4,5)] .
  obtain es where es: "fold_opt (install (snIndex snap)) (wal segs) [] = Some es"
    using tracks_prefix [of "W @ us" vs off es0 "snIndex snap"] assms(7,8) w(1,2) by auto
  obtain s3 segs3 where s3: "Open s' = (Inr (), s3)" "disk_files s3 segs3 []" "snap_files (dirmap s3) snap flag"
      "recovered (wal segs) snap flag es s3"
      "wal segs3 = wal segs @ (if flag \<and> WTrunc (snMetadata snap) \<notin> set (wal segs) then [WTrunc (snMetadata snap)] else [])"
      "fst (last segs3) \<le> (if segs = [] then 1 else fst (last segs)) + 1"
    using Open_ok [OF assms(6) dist sync w(5,6) _ snapf es] w(3,4) assms(9) by auto
  let ?pend = "flag \<and> WTrunc (snMetadata snap) \<notin> set (wal segs)"
  have off: "disk_offset s3 = snIndex snap" using s3(4) by (simp add: recovered_def disk_offset_def)
  have "tracks (wal segs3) (disk_offset s3) (dEntries s3)"
  proof (cases ?pend)
    case True
    then have "tracks (wal segs @ [WTrunc (snMetadata snap)]) (snIndex snap) []"
      using self_tracks [OF es] by (intro tracks_trunc) auto
    with True s3(4,5) off show ?thesis by (simp add: recovered_def)
  next
    case False
    with self_tracks [OF es] s3(4,5) off show ?thesis by (auto simp: recovered_def)
  qed
  moreover have "contig (disk_offset s3 + 1) (dEntries s3)"
    using replay_contig [OF es] s3(4) off by (simp add: recovered_def)
  moreover have "marks_le (wal segs3) (disk_offset s3)"
    using assms(10) w(1,2) s3(5) off by simp
  ultimately have "disk_inv s3 segs3 [] flag"
    using s3 by (auto simp: disk_inv_def recovered_def)
  with w s3 es show ?thesis
    by (intro exI [of _ us] exI [of _ vs] exI [of _ es] exI [of _ s3] exI [of _ segs3]) auto
qed

section \<open>Installing a snapshot\<close>

lemma disk_files_faults: "disk_files s segs Wb \<Longrightarrow> disk_files (s\<lparr>fsFaults := []\<rparr>) segs Wb"
  by (simp add: disk_files_def)

lemma disk_inv_dir:
  assumes "disk_inv s segs Wb flag" and "fst (last segs) \<le> Q"
  shows "partial_wal Q (dirmap s) (wal segs) Wb \<and> snap_dir (dirmap s) (dSnapshot s) flag \<and>
    distinct (map fst (fsFiles s)) \<and> list_all wrec_ok Wb"
proof -
  have files: "disk_files s segs Wb" using assms(1) by (simp add: disk_inv_def)
  obtain segs0 q ws where segs: "segs = segs0 @ [(q, ws)]"
    using files by (metis disk_files_def append_butlast_last_id prod.collapse)
  have "partial_wal Q (dirmap s) (wal segs) Wb"
    using files assms(2) segs by (intro partial_wal_files [of _ segs0 q ws]) (auto simp: disk_files_def)
  with assms(1) files show ?thesis by (auto simp: disk_inv_def disk_files_def snap_dir_def synced_def)
qed

text \<open>The directory after \<open>writeSnapshotFile\<close>: nothing but a temporary file, or the new snapshot.\<close>

lemma snap_files_names:
  assumes "snap_files M snap flag" and "n \<in> dom M" and "is_snap n"
  shows "\<exists>i \<le> snIndex snap. n = snapshotName i"
proof (cases "snIndex snap = 0")
  case True
  with assms(1) have "{n \<in> dom M. is_snap n} = {}" by (simp only: snap_files_def if_True)
  with assms(2,3) show ?thesis by blast
qed (use assms in \<open>simp add: snap_files_def\<close>)

lemma writeSnapshotFile_dir:
  assumes "writeSnapshotFile snap tr s = (r, s')" and "snap_dir (dirmap s) old flag" and "snIndex old < snIndex snap"
    and "snap_ok snap"
  shows "snap_dir (dirmap s') old flag \<and> r \<noteq> Inr () \<or> snap_dir (dirmap s') snap tr"
proof -
  let ?final = "snapshotName (snIndex snap)"
  note any = writeSnapshotFile_any [OF assms(1)]
  have other: "dirmap s' n = dirmap s n" if "is_snap n" "n \<noteq> ?final" for n
  proof (rule only_files_other [of "{?final @ ''.tmp'', ?final}"])
    have "n \<noteq> ?final @ ''.tmp''" using that(1) file_kinds(6) by blast
    with that(2) show "n \<notin> {?final @ ''.tmp'', ?final}" by simp
  qed (use any in blast)
  show ?thesis
  proof (cases "dirmap s' ?final = dirmap s ?final \<and> r \<noteq> Inr ()")
    case True
    then have same: "dirmap s' n = dirmap s n" if "is_snap n" for n using other that by (cases "n = ?final") auto
    then have "snap_files (dirmap s') old flag = snap_files (dirmap s) old flag" by (rule snap_files_cong)
    moreover have "\<forall>n f. dirmap s' n = Some f \<longrightarrow> is_snap n \<longrightarrow> fSynced f = length (fData f)"
      using same assms(2) unfolding snap_dir_def by (metis (no_types, lifting))
    ultimately show ?thesis using True assms(2) by (simp add: snap_dir_def)
  next
    case False
    let ?F = "\<lparr>fData = frame (snapPayload snap tr), fSynced = length (frame (snapPayload snap tr))\<rparr>"
    from False any have new: "dirmap s' ?final = Some ?F" by auto
    have old: "\<exists>i \<le> snIndex snap. n = snapshotName i" if n: "is_snap n" "n \<in> dom (dirmap s')" for n
    proof (cases "n = ?final")
      case False
      with n other have "n \<in> dom (dirmap s)" by auto
      then obtain i where "i \<le> snIndex old" "n = snapshotName i"
        using snap_files_names [OF _ _ n(1)] assms(2) unfolding snap_dir_def by blast
      with assms(3) show ?thesis by (intro exI [of _ i]) simp
    qed auto
    have "fSynced f = length (fData f)" if "dirmap s' n = Some f" "is_snap n" for n f
      using that new other assms(2) by (cases "n = ?final") (auto simp: snap_dir_def)
    with old new assms(3,4) show ?thesis by (auto simp: snap_dir_def snap_files_def has_data_def)
  qed
qed

lemma writeSnapshotFile_wal:
  assumes "writeSnapshotFile snap tr s = (r, s')"
  shows "is_wal n \<Longrightarrow> dirmap s' n = dirmap s n"
    and "distinct (map fst (fsFiles s)) \<Longrightarrow> distinct (map fst (fsFiles s'))"
    and "\<exists>F flt. s' = s\<lparr>fsFiles := F, fsFaults := flt\<rparr>"
proof -
  let ?final = "snapshotName (snIndex snap)"
  have only: "only_files {?final @ ''.tmp'', ?final} s s'" using writeSnapshotFile_any [OF assms] by blast
  then show "distinct (map fst (fsFiles s)) \<Longrightarrow> distinct (map fst (fsFiles s'))"
    "\<exists>F flt. s' = s\<lparr>fsFiles := F, fsFaults := flt\<rparr>" by (auto simp: only_files_def)
  assume "is_wal n"
  then have "n \<notin> {?final @ ''.tmp'', ?final}" using file_kinds(4,5) by blast
  then show "dirmap s' n = dirmap s n" by (rule only_files_other [OF only])
qed

text \<open>
  \<open>ApplySnapshot\<close> with any faults: the directory holds the old snapshot or the new one, and
  the log of before with at most some of the buffered records and the truncation marker.
\<close>

definition diverges :: "DiskStorage \<Rightarrow> Snapshot \<Rightarrow> bool" where
  "diverges s snap \<longleftrightarrow> snIndex snap < disk_offset s + length (dEntries s) \<and>
     eTerm (dEntries s ! (snIndex snap - disk_offset s - 1)) \<noteq> snTerm snap"

lemma ApplySnapshot_any:
  assumes "disk_inv s segs Wb flag" and "snap_ok snap" and "fst (last segs) + 1 < 2 ^ 64"
    and "disk_ApplySnapshot (s\<lparr>fsFaults := flt\<rparr>) snap = (e, s')"
  shows "\<exists>snap' flag' Wb'. snap_dir (dirmap s') snap' flag' \<and> distinct (map fst (fsFiles s')) \<and>
    partial_wal (fst (last segs) + 1) (dirmap s') (wal segs) Wb' \<and>
    (snap' = dSnapshot s \<and> flag' = flag \<and> Wb' = Wb \<and> e \<noteq> None \<or>
     disk_offset s < snIndex snap \<and> snap' = snap \<and> flag' = diverges s snap \<and>
     (Wb' = Wb \<or> flag' \<and> Wb' = Wb @ [WTrunc (snMetadata snap)]))"
proof -
  let ?Q = "fst (last segs) + 1"
  note dir = disk_inv_dir [OF assms(1), of ?Q]
  show ?thesis
  proof (cases "snIndex snap \<le> disk_offset s")
    case True
    with assms(4) have "s' = s\<lparr>fsFaults := flt\<rparr>" "e \<noteq> None" by (auto simp: disk_ApplySnapshot_def disk_offset_def)
    with dir show ?thesis by auto
  next
    case False
    let ?retain = "snIndex snap < disk_offset s + length (dEntries s) \<and>
      eTerm (dEntries s ! (snIndex snap - disk_offset s - 1)) = snTerm snap"
    let ?tr = "snIndex snap < disk_offset s + length (dEntries s) \<and> \<not> ?retain"
    have tr: "?tr = diverges s snap" by (auto simp: diverges_def)
    obtain r s1 where 1: "writeSnapshotFile snap ?tr (s\<lparr>fsFaults := flt\<rparr>) = (r, s1)" by force
    note wal1 = writeSnapshotFile_wal [OF 1]
    have dir1: "snap_dir (dirmap s1) (dSnapshot s) flag \<and> r \<noteq> Inr () \<or> snap_dir (dirmap s1) snap ?tr"
      using writeSnapshotFile_dir [OF 1, of "dSnapshot s" flag] dir False assms(2) by (auto simp: disk_offset_def)
    have dist1: "distinct (map fst (fsFiles s1))" using wal1(2) dir by simp
    have part1: "partial_wal ?Q (dirmap s1) (wal segs) Wb"
      using partial_wal_cong [of "dirmap s1" "dirmap s" ?Q "wal segs" Wb] wal1(1) dir by simp
    show ?thesis
    proof (cases "r = Inr () \<and> ?tr")
      case True
      obtain F flt1 where s1: "s1 = s\<lparr>fsFiles := F, fsFaults := flt1\<rparr>" using wal1(3) by auto
      let ?s2 = "s1\<lparr>dEntries := [], dSnapshot := snap, dSnapshotTruncationPending := True,
        dBuf := appendFrame (dBuf s1) (encodeTruncateSuffix (snMetadata snap))\<rparr>"
      obtain r3 s3 where 3: "syncBuffered True ?s2 = (r3, s3)" by force
      have files3: "fsFiles s' = fsFiles s3"
        using assms(4) False True 1 3 by (cases r3) (auto simp: disk_ApplySnapshot_def disk_offset_def Let_def)
      have "disk_files (?s2\<lparr>fsFaults := []\<rparr>) segs (Wb @ [WTrunc (snMetadata snap)])"
      proof -
        have "synced (dirmap s1)"
          using wal1(1) assms(1) dir1 True by (auto simp: disk_inv_def disk_files_def synced_def snap_dir_def)
        moreover have "wal_files (dirmap s1) segs []"
        proof -
          have "{n \<in> dom (dirmap s1). is_wal n} = {n \<in> dom (dirmap s). is_wal n}" using wal1(1) by auto
          moreover have "has_data (dirmap s1) (segmentName q) d = has_data (dirmap s) (segmentName q) d" for q d
            using wal1(1) by (simp add: has_data_def)
          ultimately show ?thesis using assms(1) by (simp add: disk_inv_def disk_files_def wal_files_def seg_data_def)
        qed
        ultimately show ?thesis
          using assms(1,2) s1 dist1 appendFrame_frame [of "dBuf s" "encodeTruncateSuffix (snMetadata snap)"]
          by (simp add: disk_inv_def disk_files_def snap_ok_def)
      qed
      from syncBuffered_any [OF this assms(3) order_refl 3]
      have p3: "partial_wal ?Q (dirmap s3) (wal segs) (Wb @ [WTrunc (snMetadata snap)])" "distinct (map fst (fsFiles s3))"
          "\<And>n. \<not> is_wal n \<Longrightarrow> dirmap s3 n = dirmap s1 n" by auto
      have "snap_dir (dirmap s3) snap ?tr"
      proof -
        have "dirmap s3 n = dirmap s1 n" if "is_snap n" for n using p3(3) snap_not_wal [OF that] .
        with dir1 True snap_files_cong [of "dirmap s3" "dirmap s1" snap ?tr] show ?thesis by (auto simp: snap_dir_def)
      qed
      with p3 files3 True False tr show ?thesis
        by (intro exI [of _ snap] exI [of _ ?tr] exI [of _ "Wb @ [WTrunc (snMetadata snap)]"]) auto
    next
      case no: False
      have "fsFiles s' = fsFiles s1" "r \<noteq> Inr () \<Longrightarrow> e \<noteq> None"
        using assms(4) False no 1 by (cases r; auto simp: disk_ApplySnapshot_def disk_offset_def Let_def)+
      with dir1 dist1 part1 False tr show ?thesis by auto
    qed
  qed
qed

text \<open>Without faults \<open>ApplySnapshot\<close> succeeds and keeps the invariant.\<close>

lemma writeSnapshotFile_ok:
  assumes "fsFaults s = []"
  shows "\<exists>s'. writeSnapshotFile snap tr s = (Inr (), s') \<and> fsFaults s' = []"
proof -
  have ren: "fsFaults t = [] \<Longrightarrow> dirmap t a = Some f \<Longrightarrow>
      os_Rename a b t = (Inr (), set_file b f (t\<lparr>fsFiles := AList.delete a (fsFiles t)\<rparr>))" for t :: DiskStorage and a b f
    by (simp add: os_Rename_def syscall_ok with_file_def io_modify_def)
  show ?thesis using assms by (simp add: writeSnapshotFile_def io_defs Let_def calls ren)
qed

lemma disk_inv_snap:
  assumes "disk_inv s segs Wb flag" and "snap_ok snap" and "fst (last segs) + 1 < 2 ^ 64" and "disk_offset s < snIndex snap"
  shows "\<exists>s' segs' Wb' flag'. disk_ApplySnapshot s snap = (None, s') \<and> disk_inv s' segs' Wb' flag' \<and>
    fst (last segs') \<le> fst (last segs) + 1 \<and> dHardState s' = dHardState s \<and>
    (wal segs' = wal segs \<and> Wb' = Wb \<or> wal segs' = wal segs @ Wb @ [WTrunc (snMetadata snap)] \<and> Wb' = [])"
proof -
  let ?retain = "snIndex snap < disk_offset s + length (dEntries s) \<and>
    eTerm (dEntries s ! (snIndex snap - disk_offset s - 1)) = snTerm snap"
  let ?tr = "snIndex snap < disk_offset s + length (dEntries s) \<and> \<not> ?retain"
  let ?es = "if ?retain then drop (snIndex snap - disk_offset s) (dEntries s) else []"
  have nf: "fsFaults s = []" using assms(1) by (simp add: disk_inv_def disk_files_def)
  obtain s1 where 1: "writeSnapshotFile snap ?tr s = (Inr (), s1)" "fsFaults s1 = []"
    using writeSnapshotFile_ok [OF nf] by blast
  note wal1 = writeSnapshotFile_wal [OF 1(1)]
  obtain F where s1: "s1 = s\<lparr>fsFiles := F, fsFaults := []\<rparr>" using wal1(3) 1(2) by auto
  have dir1: "snap_dir (dirmap s1) snap ?tr"
    using writeSnapshotFile_dir [OF 1(1), of "dSnapshot s" flag] disk_inv_dir [OF assms(1) order_refl] assms(2,4)
    by (auto simp: disk_offset_def)
  have files1: "disk_files s1 segs Wb"
  proof -
    have "synced (dirmap s1)"
      using wal1(1) assms(1) dir1 by (auto simp: disk_inv_def disk_files_def synced_def snap_dir_def)
    moreover have "{n \<in> dom (dirmap s1). is_wal n} = {n \<in> dom (dirmap s). is_wal n}" using wal1(1) by auto
    moreover have "has_data (dirmap s1) (segmentName q) d = has_data (dirmap s) (segmentName q) d" for q d
      using wal1(1) by (simp add: has_data_def)
    ultimately show ?thesis
      using assms(1) wal1(2) 1(2) s1 by (simp add: disk_inv_def disk_files_def wal_files_def seg_data_def)
  qed
  let ?s2 = "s1\<lparr>dEntries := ?es, dSnapshot := snap, dSnapshotTruncationPending := ?tr\<rparr>"
  have files2: "disk_files ?s2 segs Wb" using files1 by (simp add: disk_files_def)
  have old: "tracks (wal segs @ Wb) (disk_offset s) (dEntries s)" "contig (disk_offset s + 1) (dEntries s)"
    using assms(1) by (simp_all add: disk_inv_def)
  show ?thesis
  proof (cases ?tr)
    case True
    let ?m = "WTrunc (snMetadata snap)"
    have "disk_files (?s2\<lparr>dBuf := appendFrame (dBuf ?s2) (encodeTruncateSuffix (snMetadata snap))\<rparr>) segs (Wb @ [?m])"
      using files2 assms(2) by (intro disk_files_buffer) (auto simp: snap_ok_def)
    then obtain s3 segs3 where s3: "syncBuffered True (?s2\<lparr>dBuf := appendFrame (dBuf ?s2) (encodeTruncateSuffix (snMetadata snap))\<rparr>) = (Inr (), s3)"
        "disk_files s3 segs3 []" "same_mirror (?s2\<lparr>dBuf := appendFrame (dBuf ?s2) (encodeTruncateSuffix (snMetadata snap))\<rparr>) s3"
        "wal segs3 = wal segs @ Wb @ [?m]" "fst (last segs3) \<le> fst (last segs) + 1"
      using syncBuffered_ok assms(3) by fastforce
    have "disk_ApplySnapshot s snap = (None, s3\<lparr>dSnapshotTruncationPending := False\<rparr>)"
      using assms(4) True 1(1) s1 s3(1) by (simp add: disk_ApplySnapshot_def Let_def)
    moreover have "disk_inv (s3\<lparr>dSnapshotTruncationPending := False\<rparr>) segs3 [] True"
    proof -
      have "snap_files (dirmap s3) snap True"
        using same_mirror_snap_files [OF s3(3), of snap True] dir1 True by (simp add: snap_dir_def)
      moreover have "tracks (wal segs @ Wb @ [?m]) (snIndex snap) []"
        using tracks_trunc [OF old(1), of "snMetadata snap"] assms(4) by simp
      moreover have "marks_le (wal segs3) (snIndex snap)"
        using s3(4) assms(1,4) marks_le_mono [of _ "disk_offset s" "snIndex snap"] by (simp add: disk_inv_def)
      ultimately show ?thesis
        using s3 True assms(1) s1 by (auto simp: disk_inv_def disk_files_def same_mirror_def disk_offset_def)
    qed
    moreover have "dHardState s3 = dHardState s" using s3(3) s1 by (simp add: same_mirror_def)
    ultimately show ?thesis using s3(4,5)
      by (intro exI [of _ "s3\<lparr>dSnapshotTruncationPending := False\<rparr>"] exI [of _ segs3] exI [of _ "[]"] exI [of _ True]) simp
  next
    case False
    have "disk_ApplySnapshot s snap = (None, ?s2)"
      using assms(4) False 1(1) s1 by (auto simp: disk_ApplySnapshot_def Let_def)
    moreover have "tracks (wal segs @ Wb) (snIndex snap) ?es \<and> contig (snIndex snap + 1) ?es"
    proof (cases ?retain)
      case True
      then have "contig (disk_offset s + 1 + (snIndex snap - disk_offset s)) (drop (snIndex snap - disk_offset s) (dEntries s))"
        by (intro contig_drop [OF old(2)]) auto
      with True assms(4) tracks_retain [OF old(1), of "snIndex snap"] show ?thesis by simp
    next
      case False
      with assms(4) tracks_jump [OF old(1), of "snIndex snap"] show ?thesis by auto
    qed
    moreover have "marks_le (wal segs @ Wb) (snIndex snap)"
      using assms(1,4) marks_le_mono [of _ "disk_offset s" "snIndex snap"] by (simp add: disk_inv_def)
    ultimately have "disk_inv ?s2 segs Wb False" "disk_ApplySnapshot s snap = (None, ?s2)"
      using files2 dir1 False assms(1) s1 by (auto simp: disk_inv_def snap_dir_def disk_offset_def)
    then show ?thesis using s1
      by (intro exI [of _ ?s2] exI [of _ segs] exI [of _ Wb] exI [of _ False]) simp
  qed
qed

end
