(* ===== verification/Disk_Durability.thy ===== *)
theory Disk_Durability
  imports Disk_Crash
begin

text \<open>
  What the durable storage promises, over whole histories of operations, interruptions,
  power failures and reopenings: the hard state that comes back is one the storage has had
  since the last sync, a synced log comes back as it was, installing a snapshot is atomic,
  and as long as no call fails the storage behaves as the in-memory one. The storage contract
  of \<^verbatim>\<open>Mem_Storage\<close> is interpreted here on the durable storage.
\<close>

section \<open>Histories\<close>

text \<open>
  How an operation in progress can be cut off: not started, or a \<open>Sync\<close> or an \<open>ApplySnapshot\<close>
  with a fault at some call.
\<close>

inductive interrupted :: "DiskStorage \<Rightarrow> DiskStorage \<Rightarrow> bool" where
  int_idle: "interrupted s s"
| int_sync: "Sync (s\<lparr>fsFaults := flt\<rparr>) = (r, s') \<Longrightarrow> interrupted s s'"
| int_snap: "snap_ok snap \<Longrightarrow> disk_ApplySnapshot (s\<lparr>fsFaults := flt\<rparr>) snap = (e, s') \<Longrightarrow> interrupted s s'"

text \<open>
  The states of a storage after \<open>n\<close> operations on a directory that was empty, with the hard
  states it has had since the last successful \<open>Sync\<close> or reopening (the current one last).
\<close>

inductive disk_reach :: "nat \<Rightarrow> DiskStorage \<Rightarrow> HardState list \<Rightarrow> bool" where
  dr_open: "fsFiles s = [] \<Longrightarrow> fsFaults s = [] \<Longrightarrow> Open s = (Inr (), s') \<Longrightarrow> disk_reach 0 s' [hardState0]"
| dr_append: "disk_reach n s hs \<Longrightarrow> contig k es \<Longrightarrow> list_all entry_ok es \<Longrightarrow>
    disk_AppendEntries s es = Some (None, s') \<Longrightarrow> disk_reach (n + 1) s' hs"
| dr_hard: "disk_reach n s hs \<Longrightarrow> hard_ok h \<Longrightarrow> disk_SetHardState s h = (None, s') \<Longrightarrow> disk_reach (n + 1) s' (hs @ [h])"
| dr_snap: "disk_reach n s hs \<Longrightarrow> snap_ok snap \<Longrightarrow> disk_ApplySnapshot s snap = (None, s') \<Longrightarrow> disk_reach (n + 1) s' hs"
| dr_sync: "disk_reach n s hs \<Longrightarrow> Sync s = (Inr (), s') \<Longrightarrow> disk_reach (n + 1) s' [last hs]"
| dr_crash: "disk_reach n s hs \<Longrightarrow> interrupted s s1 \<Longrightarrow> crash s1 s2 \<Longrightarrow> fsFaults s2 = [] \<Longrightarrow>
    Open s2 = (Inr (), s') \<Longrightarrow> disk_reach (n + 1) s' [dHardState s']"

definition covers :: "HardState list \<Rightarrow> wrec list \<Rightarrow> wrec list \<Rightarrow> bool" where
  "covers hs W Wb \<longleftrightarrow> hs \<noteq> [] \<and> last hs = hard_after hardState0 (W @ Wb) \<and>
     (\<forall>us vs. Wb = us @ vs \<longrightarrow> hard_after hardState0 (W @ us) \<in> set hs)"

lemma covers_last: "hs \<noteq> [] \<Longrightarrow> last hs = hard_after hardState0 W \<Longrightarrow> covers hs W []"
  by (simp add: covers_def) (metis last_in_set)

lemma covers_snoc: "covers hs W Wb \<Longrightarrow> covers (hs @ [h]) W (Wb @ [WHard h])"
  by (auto simp: covers_def append_eq_append_conv2 Cons_eq_append_conv append_eq_Cons_conv)

lemma hard_after_quiet: "\<forall>u \<in> set us. \<forall>h. u \<noteq> WHard h \<Longrightarrow> hard_after h us = h"
proof (induction us arbitrary: h)
  case (Cons u us)
  then show ?case by (cases u) auto
qed simp

lemma covers_quiet:
  assumes "covers hs W Wb" and "\<forall>u \<in> set new. \<forall>h. u \<noteq> WHard h"
  shows "covers hs W (Wb @ new)"
  unfolding covers_def
proof (intro conjI allI impI)
  show "hs \<noteq> []" "last hs = hard_after hardState0 (W @ Wb @ new)"
    using assms by (auto simp: covers_def hard_after_quiet)
  fix us vs assume "Wb @ new = us @ vs"
  then consider xs where "Wb = us @ xs" | xs ys where "us = Wb @ xs" "new = xs @ ys"
    by (auto simp: append_eq_append_conv2)
  then show "hard_after hardState0 (W @ us) \<in> set hs"
  proof cases
    case (2 xs ys)
    with assms(2) have "hard_after h xs = h" for h by (intro hard_after_quiet) auto
    with 2(1) assms(1) show ?thesis by (auto simp: covers_def)
  qed (use assms(1) in \<open>auto simp: covers_def\<close>)
qed

text \<open>What an interrupted operation leaves, and what reopening it after a power failure gives.\<close>

lemma interrupted_dir:
  assumes "disk_inv s segs Wb flag" and "fst (last segs) + 1 < 2 ^ 64" and "interrupted s s1"
  shows "\<exists>snap flag' Wb'. snap_dir (dirmap s1) snap flag' \<and> distinct (map fst (fsFiles s1)) \<and>
    partial_wal (fst (last segs) + 1) (dirmap s1) (wal segs) Wb' \<and> disk_offset s \<le> snIndex snap \<and>
    (snap = dSnapshot s \<and> flag' = flag \<and> Wb' = Wb \<or>
     snap_ok snap \<and> (Wb' = Wb \<or> flag' \<and> Wb' = Wb @ [WTrunc (snMetadata snap)]))"
  using assms(3)
proof cases
  case int_idle
  then show ?thesis using disk_inv_dir [OF assms(1), of "fst (last segs) + 1"] by (auto simp: disk_offset_def)
next
  case (int_sync flt r)
  have "disk_files (s\<lparr>fsFaults := flt, fsFaults := []\<rparr>) segs Wb"
    using assms(1) disk_files_faults [of s] by (simp add: disk_inv_def)
  moreover have "syncBuffered True (s\<lparr>fsFaults := flt\<rparr>) = (r, s1)"
    using int_sync assms(1) by (simp add: Sync_def disk_inv_def)
  ultimately have any: "partial_wal (fst (last segs) + 1) (dirmap s1) (wal segs) Wb" "distinct (map fst (fsFiles s1))"
      "\<And>n. \<not> is_wal n \<Longrightarrow> dirmap s1 n = dirmap s n"
    using syncBuffered_any [of "s\<lparr>fsFaults := flt\<rparr>" segs Wb "fst (last segs) + 1"] assms(2) by auto
  have "dirmap s1 n = dirmap s n" if "is_snap n" for n using any(3) snap_not_wal [OF that] .
  then have "snap_dir (dirmap s1) (dSnapshot s) flag"
    using disk_inv_dir [OF assms(1) order_refl] snap_files_cong [of "dirmap s1" "dirmap s" "dSnapshot s" flag]
    by (auto simp: snap_dir_def)
  with any show ?thesis by (intro exI [of _ "dSnapshot s"] exI [of _ flag] exI [of _ Wb]) (simp add: disk_offset_def)
next
  case (int_snap snap flt e)
  from ApplySnapshot_any [OF assms(1) int_snap(1) assms(2) int_snap(2)]
  obtain snap' flag' Wb' where "snap_dir (dirmap s1) snap' flag'" "distinct (map fst (fsFiles s1))"
      "partial_wal (fst (last segs) + 1) (dirmap s1) (wal segs) Wb'"
      "snap' = dSnapshot s \<and> flag' = flag \<and> Wb' = Wb \<or>
       disk_offset s < snIndex snap \<and> snap' = snap \<and> (Wb' = Wb \<or> flag' \<and> Wb' = Wb @ [WTrunc (snMetadata snap)])"
    by metis
  with int_snap(1) show ?thesis
    by (intro exI [of _ snap'] exI [of _ flag'] exI [of _ Wb']) (auto simp: disk_offset_def)
qed

lemma crash_reopen:
  assumes "disk_inv s segs Wb flag" and "fst (last segs) + 2 < 2 ^ 64" and "interrupted s s1"
    and "crash s1 s2" and "fsFaults s2 = []" and "covers hs (wal segs) Wb"
  shows "\<exists>s' segs' flag'. Open s2 = (Inr (), s') \<and> disk_inv s' segs' [] flag' \<and> fst (last segs') \<le> fst (last segs) + 2 \<and>
    dHardState s' \<in> set hs \<and> disk_offset s \<le> disk_offset s'"
proof -
  obtain snap flag' Wb' where d: "snap_dir (dirmap s1) snap flag'" "distinct (map fst (fsFiles s1))"
      "partial_wal (fst (last segs) + 1) (dirmap s1) (wal segs) Wb'" "disk_offset s \<le> snIndex snap"
      "snap = dSnapshot s \<and> flag' = flag \<and> Wb' = Wb \<or>
       snap_ok snap \<and> (Wb' = Wb \<or> flag' \<and> Wb' = Wb @ [WTrunc (snMetadata snap)])"
    using interrupted_dir [OF assms(1) _ assms(3)] assms(2) by auto
  have ok: "list_all wrec_ok Wb'" and cov: "covers hs (wal segs) Wb'"
    using d(5) assms(1,6) covers_quiet [OF assms(6), of "[WTrunc (snMetadata snap)]"]
    by (auto simp: disk_inv_def disk_files_def snap_ok_def)
  have tr: "tracks (wal segs @ Wb) (disk_offset s) (dEntries s)" using assms(1) by (simp add: disk_inv_def)
  then have "\<exists>off es0. tracks (wal segs @ Wb') off es0 \<and> off \<le> snIndex snap"
    using d(4,5) tracks_trunc [OF tr, of "snMetadata snap"] by auto
  then obtain off es0 where t: "tracks (wal segs @ Wb') off es0" "off \<le> snIndex snap" by blast
  have Q: "fst (last segs) + 1 + 1 < 2 ^ 64" using assms(2) by simp
  have marks: "marks_le (wal segs @ Wb') (snIndex snap)"
    using assms(1) d(4,5) marks_le_mono [of _ "disk_offset s" "snIndex snap"] by (auto simp: disk_inv_def)
  obtain us vs es s' segs' where r: "Wb' = us @ vs" "Open s2 = (Inr (), s')" "recovered (wal segs @ us) snap flag' es s'"
      "disk_inv s' segs' [] flag'" "fst (last segs') \<le> fst (last segs) + 1 + 1"
    using reopen [OF d(3) ok d(2,1) assms(4,5) t Q marks] by blast
  moreover have "dHardState s' \<in> set hs" using r(1,3) cov by (auto simp: recovered_def covers_def)
  moreover have "disk_offset s \<le> disk_offset s'" using r(3) d(4) by (simp add: recovered_def disk_offset_def)
  moreover have "fst (last segs') \<le> fst (last segs) + 2" using r(5) by simp
  ultimately show ?thesis by blast
qed

section \<open>Every history keeps the invariant\<close>

lemma empty_dir_files: "fsFiles s = [] \<Longrightarrow> wal_files (dirmap s) [] [] \<and> snap_files (dirmap s) snapshot0 False \<and> synced (dirmap s)"
  by (simp add: wal_files_def segs_ok_def seg_data_def snap_files_def snapshot0_def synced_def)

lemma Open_empty:
  assumes "fsFiles s = []" and "fsFaults s = []"
  shows "\<exists>s' segs. Open s = (Inr (), s') \<and> disk_inv s' segs [] False \<and> wal segs = [] \<and> fst (last segs) \<le> 2 \<and>
    dHardState s' = hardState0"
proof -
  note d = empty_dir_files [OF assms(1)]
  obtain s' segs where s': "Open s = (Inr (), s')" "disk_files s' segs []" "snap_files (dirmap s') snapshot0 False"
      "recovered [] snapshot0 False [] s'" "wal segs = []" "fst (last segs) \<le> 2"
    using Open_ok [of s "[]" "[]" snapshot0 False "[]"] assms d by (auto simp: torn_tail_def)
  then have "disk_inv s' segs [] False"
    unfolding disk_inv_def s'(5) by (simp add: recovered_def snapshot0_def)
  with s' show ?thesis by (auto simp: recovered_def)
qed

lemma reach_inv:
  "disk_reach n s hs \<Longrightarrow> 2 * n + 6 < 2 ^ 64 \<Longrightarrow>
     \<exists>segs Wb flag. disk_inv s segs Wb flag \<and> fst (last segs) \<le> 2 * n + 2 \<and> covers hs (wal segs) Wb"
proof (induction rule: disk_reach.induct)
  case (dr_open s s')
  then obtain segs where segs: "disk_inv s' segs [] False" "wal segs = []" "fst (last segs) \<le> 2"
    using Open_empty [of s] by auto
  have "covers [hardState0] (wal segs) []" unfolding segs(2) by (simp add: covers_def)
  with segs show ?case by (intro exI [of _ segs] exI [of _ "[]"] exI [of _ False]) simp
next
  case (dr_append n s hs k es s')
  then obtain segs Wb flag where inv: "disk_inv s segs Wb flag" "fst (last segs) \<le> 2 * n + 2" "covers hs (wal segs) Wb" by auto
  obtain us where us: "disk_inv s' segs (Wb @ us) flag" "\<forall>u \<in> set us. \<forall>h. u \<noteq> WHard h"
    using disk_inv_append [OF inv(1) dr_append.hyps(2-4)] by blast
  with inv covers_quiet [OF inv(3) us(2)] show ?case by (intro exI [of _ segs] exI [of _ "Wb @ us"] exI [of _ flag]) simp
next
  case (dr_hard n s hs h s')
  then obtain segs Wb flag where inv: "disk_inv s segs Wb flag" "fst (last segs) \<le> 2 * n + 2" "covers hs (wal segs) Wb" by auto
  from disk_inv_hard [OF inv(1) dr_hard.hyps(2,3)] inv(2) covers_snoc [OF inv(3)] show ?case
    by (intro exI [of _ segs] exI [of _ "Wb @ [WHard h]"] exI [of _ flag]) simp
next
  case (dr_snap n s hs snap s')
  then obtain segs Wb flag where inv: "disk_inv s segs Wb flag" "fst (last segs) \<le> 2 * n + 2" "covers hs (wal segs) Wb" by auto
  have idx: "disk_offset s < snIndex snap" using dr_snap.hyps(3) by (auto simp: disk_ApplySnapshot_def split: if_split_asm)
  have "fst (last segs) + 1 < 2 ^ 64" using inv(2) dr_snap.prems by simp
  from disk_inv_snap [OF inv(1) dr_snap.hyps(2) this idx] dr_snap.hyps(3)
  obtain segs' Wb' flag' where new: "disk_inv s' segs' Wb' flag'" "fst (last segs') \<le> fst (last segs) + 1"
      "wal segs' = wal segs \<and> Wb' = Wb \<or> wal segs' = wal segs @ Wb @ [WTrunc (snMetadata snap)] \<and> Wb' = []" by auto
  from inv(3) new(3) have "covers hs (wal segs') Wb'"
    by (auto simp: covers_def intro!: covers_last [unfolded covers_def])
  with new(1,2) inv(2) show ?case by (intro exI [of _ segs'] exI [of _ Wb'] exI [of _ flag']) simp
next
  case (dr_sync n s hs s')
  then obtain segs Wb flag where inv: "disk_inv s segs Wb flag" "fst (last segs) \<le> 2 * n + 2" "covers hs (wal segs) Wb" by auto
  have "fst (last segs) + 1 < 2 ^ 64" using inv(2) dr_sync.prems by simp
  from disk_inv_sync [OF inv(1) this] dr_sync.hyps(2)
  obtain segs' where new: "disk_inv s' segs' [] flag" "wal segs' = wal segs @ Wb" "fst (last segs') \<le> fst (last segs) + 1" by auto
  have "covers [last hs] (wal segs') []" using inv(3) unfolding new(2) by (simp add: covers_def)
  with new(1,3) inv(2) show ?case by (intro exI [of _ segs'] exI [of _ "[]"] exI [of _ flag]) simp
next
  case (dr_crash n s hs s1 s2 s')
  then obtain segs Wb flag where inv: "disk_inv s segs Wb flag" "fst (last segs) \<le> 2 * n + 2" "covers hs (wal segs) Wb" by auto
  have "fst (last segs) + 2 < 2 ^ 64" using inv(2) dr_crash.prems by simp
  from crash_reopen [OF inv(1) this dr_crash.hyps(2-4) inv(3)] dr_crash.hyps(5)
  obtain segs' flag' where new: "disk_inv s' segs' [] flag'" "fst (last segs') \<le> fst (last segs) + 2" by auto
  have "covers [dHardState s'] (wal segs') []" using new(1) by (simp add: covers_def disk_inv_def)
  with new inv(2) show ?case by (intro exI [of _ segs'] exI [of _ "[]"] exI [of _ flag']) simp
qed

section \<open>The storage contract\<close>

text \<open>
  While no call fails and a segment is open, the durable storage is the in-memory storage
  seen through \<open>disk_view\<close>.
\<close>

definition disk_ready :: "DiskStorage \<Rightarrow> bool" where
  "disk_ready s \<longleftrightarrow> storage_wf (disk_view s) \<and> fsFaults s = [] \<and>
     (\<exists>n f. dSeg s = Some n \<and> is_wal n \<and> dirmap s n = Some f)"

lemma rotateSegment_ready:
  assumes "disk_ready s"
  shows "\<exists>s'. rotateSegment q s = (Inr (), s') \<and> disk_ready s' \<and> disk_view s' = disk_view s"
proof (cases "dirmap s (segmentName q)")
  case None
  with assms show ?thesis
    by (auto simp: disk_ready_def rotateSegment_def io_defs calls disk_view_def)
next
  case (Some f)
  then have "fsFaults t = [] \<Longrightarrow> fsFiles t = fsFiles s \<Longrightarrow> os_OpenCreate (segmentName q) t = (Inr (), t)" for t :: DiskStorage
    by (simp add: os_OpenCreate_def syscall_ok)
  with assms Some show ?thesis
    by (auto simp: disk_ready_def rotateSegment_def io_defs calls disk_view_def)
qed

lemma syncBuffered_ready:
  assumes "disk_ready s"
  shows "\<exists>s'. syncBuffered durable s = (Inr (), s') \<and> disk_ready s' \<and> disk_view s' = disk_view s"
proof (cases "dBuf s = []")
  case True
  with assms show ?thesis by (simp add: syncBuffered_def)
next
  case False
  obtain s1 where s1: "(if dMaxSegmentSize s \<le> dSegSize s then rotateSegment (dSegSeq s + 1) s else (Inr (), s)) = (Inr (), s1)"
      "disk_ready s1" "disk_view s1 = disk_view s"
    using rotateSegment_ready [OF assms, of "dSegSeq s + 1"] assms by (cases "dMaxSegmentSize s \<le> dSegSize s") auto
  obtain n f where n: "dSeg s1 = Some n" "is_wal n" "dirmap s1 n = Some f" "fsFaults s1 = []"
    using s1(2) by (auto simp: disk_ready_def)
  then show ?thesis
    using s1 unfolding syncBuffered_unfold [OF False] s1(1)
    by (auto simp: io_defs calls disk_ready_def disk_view_def storage_wf_def mem_offset_def)
qed

lemma writeSnapshotFile_ready:
  assumes "disk_ready s"
  shows "\<exists>s'. writeSnapshotFile snap tr s = (Inr (), s') \<and> disk_ready s' \<and> disk_view s' = disk_view s \<and> dEntries s' = dEntries s"
proof -
  obtain s' where s': "writeSnapshotFile snap tr s = (Inr (), s')" "fsFaults s' = []"
    using writeSnapshotFile_ok [of s snap tr] assms by (auto simp: disk_ready_def)
  moreover obtain n f where "dSeg s = Some n" "is_wal n" "dirmap s n = Some f" using assms by (auto simp: disk_ready_def)
  ultimately show ?thesis
    using writeSnapshotFile_wal(1) [OF s'(1), of n] writeSnapshotFile_wal(3) [OF s'(1)] assms
    by (auto simp: disk_ready_def disk_view_def)
qed

lemma disk_ApplySnapshot_ready:
  assumes "disk_ready s"
  shows "\<exists>e s'. disk_ApplySnapshot s snap = (e, s') \<and> disk_ready s' \<and>
    mem_ApplySnapshot (disk_view s) snap = (e, disk_view s')"
proof (cases "snIndex snap \<le> disk_offset s")
  case True
  with assms show ?thesis by (simp add: disk_ApplySnapshot_def mem_ApplySnapshot_def)
next
  case False
  let ?retain = "snIndex snap < disk_offset s + length (dEntries s) \<and>
    eTerm (dEntries s ! (snIndex snap - disk_offset s - 1)) = snTerm snap"
  let ?tr = "snIndex snap < disk_offset s + length (dEntries s) \<and> \<not> ?retain"
  let ?es = "if ?retain then drop (snIndex snap - disk_offset s) (dEntries s) else []"
  obtain s1 where s1: "writeSnapshotFile snap ?tr s = (Inr (), s1)" "disk_ready s1" "disk_view s1 = disk_view s" "dEntries s1 = dEntries s"
    using writeSnapshotFile_ready [OF assms] by blast
  have mem: "mem_ApplySnapshot (disk_view s) snap = (None, (disk_view s)\<lparr>stEntries := ?es, stSnapshot := snap\<rparr>)"
    using False by (simp add: mem_ApplySnapshot_def Let_def)
  have wf: "storage_wf ((disk_view s)\<lparr>stEntries := ?es, stSnapshot := snap\<rparr>)"
    using mem_ApplySnapshot_wf [OF _ mem] assms by (simp add: disk_ready_def)
  let ?s2 = "s1\<lparr>dEntries := ?es, dSnapshot := snap, dSnapshotTruncationPending := ?tr\<rparr>"
  have view2: "disk_view ?s2 = (disk_view s)\<lparr>stEntries := ?es, stSnapshot := snap\<rparr>"
    using s1(3) by (simp add: disk_view_def)
  have ready2: "disk_ready ?s2" using s1(2) wf unfolding disk_ready_def view2 by simp
  show ?thesis
  proof (cases ?tr)
    case True
    let ?s3 = "?s2\<lparr>dBuf := appendFrame (dBuf ?s2) (encodeTruncateSuffix (snMetadata snap))\<rparr>"
    have "disk_ready ?s3" "disk_view ?s3 = disk_view ?s2" using ready2 by (simp_all add: disk_ready_def disk_view_def)
    then obtain s4 where s4: "syncBuffered True ?s3 = (Inr (), s4)" "disk_ready s4" "disk_view s4 = disk_view ?s2"
      using syncBuffered_ready by metis
    have "disk_ApplySnapshot s snap = (None, s4\<lparr>dSnapshotTruncationPending := False\<rparr>)"
      using False True s1(1,4) s4(1) by (simp add: disk_ApplySnapshot_def Let_def)
    moreover have "disk_ready (s4\<lparr>dSnapshotTruncationPending := False\<rparr>)"
        "disk_view (s4\<lparr>dSnapshotTruncationPending := False\<rparr>) = disk_view s4"
      using s4(2) by (simp_all add: disk_ready_def disk_view_def)
    ultimately show ?thesis using mem view2 s4(3) by simp
  next
    case no: False
    have "disk_ApplySnapshot s snap = (None, ?s2)"
      using False no s1(1,4) by (auto simp: disk_ApplySnapshot_def Let_def)
    with mem view2 ready2 show ?thesis by simp
  qed
qed

lemma disk_AppendEntries_ready:
  assumes "disk_ready s" and "contig n es"
  shows "\<exists>e s'. disk_AppendEntries s es = Some (e, s') \<and> disk_ready s' \<and>
    mem_AppendEntries (disk_view s) es = Some (e, disk_view s')"
proof -
  obtain e v where v: "mem_AppendEntries (disk_view s) es = Some (e, v)"
    using mem_AppendEntries_total [OF assms(2)] by blast
  then have "storage_wf v" using mem_AppendEntries_wf [OF _ assms(2)] assms(1) by (auto simp: disk_ready_def)
  moreover have "e \<noteq> None \<longrightarrow> v = disk_view s" "v = (disk_view s)\<lparr>stEntries := stEntries v\<rparr>"
    using v by (auto simp: mem_AppendEntries_def Let_def split: if_split_asm)
  ultimately show ?thesis
    using v assms(1) unfolding disk_AppendEntries_mem v
    by (cases e) (auto simp: disk_ready_def disk_view_def)
qed

lemma diskOps_simps [simp]:
  "opAppendEntries diskOps = disk_AppendEntries" "opSetHardState diskOps = disk_SetHardState"
  "opHardState diskOps = disk_HardState" "opEntries diskOps = disk_Entries" "opTerm diskOps = disk_Term"
  "opFirstIndex diskOps = disk_FirstIndex" "opLastIndex diskOps = disk_LastIndex"
  "opApplySnapshot diskOps = disk_ApplySnapshot" "opSnapshot diskOps = disk_Snapshot"
  by (simp_all add: diskOps_def)

lemma disk_reads:
  "disk_HardState s = mem_HardState (disk_view s)" "disk_Entries s lo hi = mem_Entries (disk_view s) lo hi"
  "disk_Term s i = mem_Term (disk_view s) i" "disk_FirstIndex s = mem_FirstIndex (disk_view s)"
  "disk_LastIndex s = mem_LastIndex (disk_view s)" "disk_Snapshot s = mem_Snapshot (disk_view s)"
  by (simp_all add: disk_HardState_def mem_HardState_def disk_Entries_def mem_Entries_def disk_Term_def mem_Term_def
      disk_FirstIndex_def mem_FirstIndex_def disk_LastIndex_def mem_LastIndex_def disk_Snapshot_def mem_Snapshot_def Let_def)

interpretation diskst: log_storage diskOps disk_view disk_ready
proof unfold_locales
  fix st :: DiskStorage and snap e st'
  assume "disk_ready st" and "opApplySnapshot diskOps st snap = (e, st')"
  with disk_ApplySnapshot_ready [of st snap]
  show "disk_ready st' \<and> mem_ApplySnapshot (disk_view st) snap = (e, disk_view st')" by auto
next
  fix st :: DiskStorage and n es
  assume "disk_ready st" and "contig n es"
  with disk_AppendEntries_ready [of st n es]
  show "\<exists>e st'. opAppendEntries diskOps st es = Some (e, st') \<and> disk_ready st' \<and>
      mem_AppendEntries (disk_view st) es = Some (e, disk_view st')" by auto
qed (auto simp: disk_ready_def disk_reads disk_SetHardState_def mem_SetHardState_def disk_view_def storage_wf_def mem_offset_def)

section \<open>A sample directory\<close>

text \<open>An empty directory, the storage opened on it, and the storage with one record synced.\<close>

definition empty_dir :: DiskStorage where
  "empty_dir = \<lparr>fsFiles = [], fsFaults = [], dHardState = hardState0, dSnapshot = snapshot0,
     dSnapshotTruncationPending = False, dEntries = [], dBuf = [], dSeg = None, dSegSize = 0, dSegSeq = 0,
     dNoSync = False, dMaxSegmentSize = maxSegmentSize\<rparr>"

definition sample_open :: DiskStorage where
  "sample_open = empty_dir\<lparr>fsFiles := [(segmentName 1, \<lparr>fData = [], fSynced = 0\<rparr>)], dSeg := Some (segmentName 1), dSegSeq := 1\<rparr>"

lemma Open_empty_dir: "Open empty_dir = (Inr (), sample_open)"
  by (simp add: Open_def empty_dir_def sample_open_def io_defs calls fresh_def loadLatestSnapshot_def listSegments_def
      openActiveSegment_def rotateSegment_def set_file_def Let_def)

lemma sample_open_reach: "disk_reach 0 sample_open [hardState0]"
  by (rule dr_open [OF _ _ Open_empty_dir]) (simp_all add: empty_dir_def)

definition sample_vote :: HardState where
  "sample_vote = \<lparr>hsTerm = 1, hsVote = 2, hsCommit = 0\<rparr>"

definition sample_synced :: DiskStorage where
  "sample_synced = snd (Sync (snd (disk_SetHardState sample_open sample_vote)))"

lemma sample_synced_run:
  "Sync (snd (disk_SetHardState sample_open sample_vote)) = (Inr (), sample_synced)"
  "fsFiles sample_synced =
     [(segmentName 1, \<lparr>fData = frame (encodeHardState sample_vote), fSynced = length (frame (encodeHardState sample_vote))\<rparr>)]"
  "fsFaults sample_synced = []" "dHardState sample_synced = sample_vote" "dSnapshot sample_synced = snapshot0"
  using frames_eq_Nil [of "[WHard sample_vote]"]
  by (simp_all add: sample_synced_def sample_open_def empty_dir_def disk_SetHardState_def Sync_def syncBuffered_unfold
      io_defs calls set_file_def maxSegmentSize_def)

lemma sample_synced_reach: "disk_reach 2 sample_synced [sample_vote]"
proof -
  have "disk_reach (0 + 1) (snd (disk_SetHardState sample_open sample_vote)) ([hardState0] @ [sample_vote])"
    by (rule dr_hard [OF sample_open_reach]) (simp_all add: hard_ok_def sample_vote_def disk_SetHardState_def)
  from dr_sync [OF this sample_synced_run(1)] show ?thesis by (simp add: numeral_2_eq_2)
qed

lemma sample_synced_crash: "crash sample_synced sample_synced"
  by (simp add: crash_def sample_synced_run(2) crash_file_def)

section \<open>Properties\<close>







text \<open>
  C6. The durable storage refines the in-memory one. As long as no system call fails, every
  operation of the log interface returns what \<^verbatim>\<open>storage/mem\<close> returns on the mirrored state and
  leaves the mirror as \<^verbatim>\<open>storage/mem\<close> leaves its state.
\<close>

theorem disk_refines_mem:
  assumes "disk_ready s" and "contig n es"
  shows "disk_Entries s lo hi = mem_Entries (disk_view s) lo hi \<and> disk_Term s i = mem_Term (disk_view s) i \<and>
    disk_HardState s = mem_HardState (disk_view s) \<and> disk_Snapshot s = mem_Snapshot (disk_view s) \<and>
    disk_FirstIndex s = mem_FirstIndex (disk_view s) \<and> disk_LastIndex s = mem_LastIndex (disk_view s) \<and>
    map_option (apsnd disk_view) (disk_AppendEntries s es) = mem_AppendEntries (disk_view s) es \<and>
    apsnd disk_view (disk_SetHardState s hs) = mem_SetHardState (disk_view s) hs \<and>
    apsnd disk_view (disk_ApplySnapshot s snap) = mem_ApplySnapshot (disk_view s) snap \<and>
    apsnd disk_view (disk_Sync s) = (None, disk_view s)"
proof -
  obtain s' where "Sync s = (Inr (), s')" "disk_view s' = disk_view s"
    using syncBuffered_ready [OF assms(1)] unfolding Sync_def by blast
  then have "apsnd disk_view (disk_Sync s) = (None, disk_view s)" by (simp add: disk_Sync_def)
  moreover have "map_option (apsnd disk_view) (disk_AppendEntries s es) = mem_AppendEntries (disk_view s) es"
    using disk_AppendEntries_ready [OF assms] by auto
  moreover have "apsnd disk_view (disk_ApplySnapshot s snap) = mem_ApplySnapshot (disk_view s) snap"
    using disk_ApplySnapshot_ready [OF assms(1), of snap] by auto
  ultimately show ?thesis by (simp add: disk_reads disk_SetHardState_def mem_SetHardState_def disk_view_def)
qed

theorem disk_refines_mem_witness: "disk_Term sample_open 0 = mem_Term (disk_view sample_open) 0"
proof -
  have "disk_ready sample_open"
    using file_kinds(1) [of 1]
    by (simp add: disk_ready_def sample_open_def empty_dir_def storage_wf_def disk_view_def)
  from disk_refines_mem [OF this contig_Nil] show ?thesis by blast
qed

section \<open>A stale suffix comes back\<close>

text \<open>
  Three entries of term 1; entry 2 is replaced by one of term 2, which drops entry 3; then a
  snapshot at index 2 and term 2 arrives, exactly at the end of the log.
\<close>

definition plain_entry :: "nat \<Rightarrow> nat \<Rightarrow> Entry" where
  "plain_entry i t = \<lparr>eTerm = t, eIndex = i, eType = EntryNormal, eData = []\<rparr>"

definition stale_snapshot :: Snapshot where
  "stale_snapshot = \<lparr>snMetadata = \<lparr>smIndex = 2, smTerm = 2\<rparr>, snData = []\<rparr>"

definition stale_batch :: "DiskStorage option" where
  "stale_batch = do {
     (_, s) \<leftarrow> disk_AppendEntries sample_open [plain_entry 1 1, plain_entry 2 1, plain_entry 3 1];
     (_, s) \<leftarrow> disk_AppendEntries s [plain_entry 2 2];
     Some s }"

definition stale_run :: DiskStorage where
  "stale_run = snd (Sync (snd (disk_ApplySnapshot (the stale_batch) stale_snapshot)))"

definition stale_records :: "wrec list" where
  "stale_records = [WEntry (plain_entry 1 1), WEntry (plain_entry 2 1), WEntry (plain_entry 3 1), WEntry (plain_entry 2 2)]"

lemma stale_batch_eq:
  "stale_batch = Some (sample_open\<lparr>dEntries := [plain_entry 1 1, plain_entry 2 2], dBuf := frames stale_records\<rparr>)"
  by (simp add: stale_batch_def stale_records_def plain_entry_def disk_AppendEntries_def foldl_appendFrame sample_open_def
      empty_dir_def disk_offset_def snapshot0_def appendFrame_frame [of "frame _"] appendFrame_frame [of "_ @ _"])

lemma sample_names: "segmentName 1 \<noteq> snapshotName 2" "segmentName 1 \<noteq> snapshotName 2 @ ''.tmp''"
  by (simp_all add: segmentName_def snapshotName_def del: dec_digits.simps)

lemma stale_install:
  "disk_ApplySnapshot (the stale_batch) stale_snapshot =
     (None, (the stale_batch)\<lparr>dEntries := [], dSnapshot := stale_snapshot, dSnapshotTruncationPending := False,
       fsFiles := [(segmentName 1, \<lparr>fData = [], fSynced = 0\<rparr>),
         (snapshotName 2, \<lparr>fData = frame (snapPayload stale_snapshot False),
            fSynced = length (frame (snapPayload stale_snapshot False))\<rparr>)]\<rparr>)"
  using sample_names
  by (simp add: stale_batch_eq stale_snapshot_def sample_open_def empty_dir_def disk_ApplySnapshot_def disk_offset_def
      snapshot0_def writeSnapshotFile_def io_defs calls os_Rename_def with_file_def set_file_def Let_def)

lemma stale_run_files:
  "Sync (snd (disk_ApplySnapshot (the stale_batch) stale_snapshot)) = (Inr (), stale_run)"
  "fsFiles stale_run =
     [(segmentName 1, \<lparr>fData = frames stale_records, fSynced = length (frames stale_records)\<rparr>),
      (snapshotName 2, \<lparr>fData = frame (snapPayload stale_snapshot False),
         fSynced = length (frame (snapPayload stale_snapshot False))\<rparr>)]"
  "fsFaults stale_run = []" "dEntries stale_run = []"
  unfolding stale_run_def stale_install snd_conv
  using sample_names frames_eq_Nil [of stale_records]
  by (simp_all add: stale_batch_eq sample_open_def empty_dir_def Sync_def syncBuffered_unfold
      stale_records_def [THEN arg_cong [of _ _ "\<lambda>x. x = []"]] maxSegmentSize_def io_defs calls set_file_def)

lemma stale_run_reach: "disk_reach 4 stale_run [hardState0]"
proof -
  let ?es = "[plain_entry 1 1, plain_entry 2 1, plain_entry 3 1]"
  obtain s1 where s1: "disk_AppendEntries sample_open ?es = Some (None, s1)" "disk_AppendEntries s1 [plain_entry 2 2] = Some (None, the stale_batch)"
    by (simp add: stale_batch_eq stale_records_def plain_entry_def disk_AppendEntries_def foldl_appendFrame sample_open_def
      empty_dir_def disk_offset_def snapshot0_def)
  have ok: "entry_ok (plain_entry i t)" if "i < 2 ^ 64" "t < 2 ^ 64" for i t
    using that by (simp add: entry_ok_def plain_entry_def sanityMaxPayload_def)
  have "disk_reach (0 + 1) s1 [hardState0]"
    by (rule dr_append [OF sample_open_reach _ _ s1(1), of 1]) (simp_all add: ok, simp add: plain_entry_def)
  then have "disk_reach (0 + 1 + 1) (the stale_batch) [hardState0]"
    by (rule dr_append [OF _ _ _ s1(2), of _ _ 2]) (simp_all add: ok, simp add: plain_entry_def)
  then have "disk_reach (0 + 1 + 1 + 1) (snd (disk_ApplySnapshot (the stale_batch) stale_snapshot)) [hardState0]"
    by (rule dr_snap [where snap = stale_snapshot])
      (simp_all add: stale_install, simp add: snap_ok_def meta_ok_def stale_snapshot_def sanityMaxPayload_def)
  from dr_sync [OF this stale_run_files(1)] show ?thesis by (simp add: eval_nat_numeral)
qed

text \<open>
  C36. The mirror and the directory can disagree: a storage reachable by three operations and
  a successful \<open>Sync\<close> holds no entry above its snapshot, and reopening its directory brings
  back an entry that had been replaced before the snapshot arrived. \<open>ApplySnapshot\<close> writes a
  truncation marker only when the snapshot lies strictly below the last index.
\<close>

theorem truncated_entry_returns:
  "disk_reach 4 stale_run [hardState0] \<and> dEntries stale_run = [] \<and>
   (\<exists>s'. Open stale_run = (Inr (), s') \<and> dSnapshot s' = stale_snapshot \<and> dEntries s' = [plain_entry 3 1])"
proof -
  let ?M = "dirmap stale_run"
  have ok: "list_all wrec_ok stale_records"
    by (simp add: stale_records_def entry_ok_def plain_entry_def sanityMaxPayload_def)
  have dom: "dom ?M = {segmentName 1, snapshotName 2}" by (auto simp: stale_run_files(2))
  have "wal_files ?M [(1, stale_records)] []"
  proof -
    have "{n \<in> dom ?M. is_wal n} = {segmentName 1}" unfolding dom using file_kinds(1) [of 1] file_kinds(4) [of 2] by blast
    then show ?thesis using ok by (simp add: wal_files_def segs_ok_def seg_data_def has_data_def stale_run_files(2))
  qed
  moreover have "snap_files ?M stale_snapshot False"
  proof -
    have "n = snapshotName 2" if "n \<in> dom ?M" "is_snap n" for n
      using that file_kinds(2) [of 1] unfolding dom by blast
    then show ?thesis
      using sample_names by (auto simp: snap_files_def stale_snapshot_def snap_ok_def meta_ok_def has_data_def stale_run_files(2) sanityMaxPayload_def)
  qed
  moreover have "synced ?M" by (auto simp: synced_def stale_run_files(2) split: if_split_asm)
  moreover have "fold_opt (install (snIndex stale_snapshot)) (wal [(1, stale_records)]) [] = Some [plain_entry 3 1]"
    by (simp add: stale_records_def stale_snapshot_def plain_entry_def)
  ultimately obtain s' where "Open stale_run = (Inr (), s')" "recovered stale_records stale_snapshot False [plain_entry 3 1] s'"
    using Open_ok [of stale_run "[(1, stale_records)]" "[]" stale_snapshot False] stale_run_files sample_names
    by (auto simp: torn_tail_def)
  then show ?thesis using stale_run_reach stale_run_files(4) by (auto simp: recovered_def)
qed

end
