(* ===== verification/Cluster_Disk.thy ===== *)
theory Cluster_Disk
  imports Cluster_Safety Disk_Durability
begin

text \<open>
  Election safety for the production stack: the drive loop of \<^verbatim>\<open>server\<close> over the write-ahead
  log of \<^verbatim>\<open>storage/disk\<close>.

  The election argument needs of a reboot only that the hard state that comes back is one the
  storage had since its last sync. \<open>Open_reboots\<close> shows that this is what recovery delivers,
  for an interruption at any system call followed by a power failure.
\<close>

definition diskReboot :: "DiskStorage list \<Rightarrow> DiskStorage \<Rightarrow> bool" where
  "diskReboot h st \<longleftrightarrow> dHardState st \<in> dHardState ` set h"

lemma Open_reboots:
  assumes "disk_reach n s hs" and "2 * n + 6 < 2 ^ 64" and "set hs \<subseteq> dHardState ` set h"
    and "interrupted s s1" and "crash s1 s2" and "fsFaults s2 = []"
  shows "\<exists>st. Open s2 = (Inr (), st) \<and> diskReboot h st"
proof -
  obtain segs Wb flag where inv: "disk_inv s segs Wb flag" "fst (last segs) \<le> 2 * n + 2" "covers hs (wal segs) Wb"
    using reach_inv [OF assms(1,2)] by blast
  then have "fst (last segs) + 2 < 2 ^ 64" using assms(2) by simp
  from crash_reopen [OF inv(1) this assms(4-6) inv(3)] assms(3) show ?thesis
    by (auto simp: diskReboot_def)
qed

text \<open>The hard state of the mirror, operation by operation.\<close>

lemma disk_AppendEntries_hard: "disk_AppendEntries s es = Some (e, s') \<Longrightarrow> dHardState s' = dHardState s"
  by (auto simp: disk_AppendEntries_def Let_def split: if_split_asm)

lemma rotateSegment_hard: "rotateSegment q s = (r, s') \<Longrightarrow> dHardState s' = dHardState s"
  by (auto simp: rotateSegment_def io_then_def io_bind_def io_modify_def io_return_def f_Close_def os_OpenCreate_def fsyncDir_def
      elim!: syscallE split: if_split_asm prod.split_asm sum.split_asm option.split_asm)

lemma only_files_hard: "only_files N s s' \<Longrightarrow> dHardState s' = dHardState s"
  by (auto simp: only_files_def)

lemma f_Write_hard: "f_Write n d s = (r, s' :: DiskStorage) \<Longrightarrow> dHardState s' = dHardState s"
  by (rule only_files_hard [OF only_files_write [OF _ UNIV_I]])

lemma f_Sync_hard: "f_Sync n s = (r, s' :: DiskStorage) \<Longrightarrow> dHardState s' = dHardState s"
  by (rule only_files_hard [OF only_files_calls(3) [OF _ UNIV_I]])

lemma syncBuffered_hard:
  assumes "syncBuffered d s = (r, s')"
  shows "dHardState s' = dHardState s"
proof (cases "dBuf s = []")
  case True
  with assms show ?thesis by (simp add: syncBuffered_def)
next
  case False
  have flush: "dHardState t' = dHardState t"
    if "io_then (f_Write n (dBuf t)) (io_then (if d then f_Sync n else io_return ())
          (io_modify (\<lambda>s. s\<lparr>dSegSize := dSegSize s + length (dBuf s), dBuf := []\<rparr>))) t = (r, t')" for n and t t' :: DiskStorage
    using that
    by (auto simp: io_then_def io_bind_def io_return_def io_modify_def split: prod.split_asm sum.split_asm if_split_asm
        dest!: f_Write_hard f_Sync_hard)
  from assms show ?thesis
    unfolding syncBuffered_unfold [OF False]
    by (cases "dMaxSegmentSize s \<le> dSegSize s")
      (auto split: prod.split_asm sum.split_asm option.split_asm dest!: flush dest: rotateSegment_hard)
qed

lemma disk_ApplySnapshot_hard:
  assumes "disk_ApplySnapshot s snap = (e, s')"
  shows "dHardState s' = dHardState s"
  using assms
  by (auto simp: disk_ApplySnapshot_def Let_def split: if_split_asm prod.split_asm sum.split_asm
      dest!: writeSnapshotFile_wal(3) syncBuffered_hard)

interpretation diskv: vote_storage diskOps disk_Sync dHardState diskReboot
  by unfold_locales
    (auto simp: disk_HardState_def disk_SetHardState_def disk_Sync_def Sync_def diskReboot_def
      split: prod.split_asm sum.split_asm
      dest: disk_AppendEntries_hard disk_ApplySnapshot_hard syncBuffered_hard)


text \<open>A single server on a fresh write-ahead log elects itself.\<close>

definition solo_disk :: DiskStorage where
  "solo_disk = \<lparr>fsFiles = [(segmentName 1, \<lparr>fData = [], fSynced = 0\<rparr>)], fsFaults = [], dHardState = hardState0,
     dSnapshot = snapshot0, dSnapshotTruncationPending = False, dEntries = [], dBuf = [], dSeg = Some (segmentName 1),
     dSegSize = 0, dSegSeq = 1, dNoSync = False, dMaxSegmentSize = 64\<rparr>"

lemma solo_disk_run:
  obtains s n n' where "server_New diskOps solo_config solo_disk = Some (Inr s)"
    and "Tick diskOps (srvNode s) = Some n" and "Tick diskOps n = Some n'"
    and "Node_State n' = StateLeader" and "Node_Term n' = 1"
proof -
  have "(case server_New diskOps solo_config solo_disk of
      Some (Inr s) \<Rightarrow> map_option (\<lambda>n. (Node_State n, Node_Term n)) (Option.bind (Tick diskOps (srvNode s)) (Tick diskOps))
    | _ \<Rightarrow> None) = Some (StateLeader, 1)"
    by code_simp
  then show ?thesis
    using that by (auto elim!: bind_SomeE split: option.split_asm sum.split_asm)
qed


end
