(* ===== verification/Raft_Rules.thy ===== *)
theory Raft_Rules
  imports Raft_Core
begin

text \<open>
  Two rules of the raft core: how far a leader commits, and what a refused pre-vote does.

  The commit index a leader moves to is stated without the sorted list of \<open>maybeCommit\<close>: it is
  the greatest index a quorum is known to hold, and the leader only moves there when the entry
  is of its own term. The second part follows the four messages by which a node that comes back
  from a partition makes a healthy leader step down, although pre-voting is there to prevent it.
\<close>

section \<open>The commit rule\<close>

text \<open>A quorum of the peers is known to hold the log up to an index.\<close>

definition replicated :: "'st raft \<Rightarrow> nat \<Rightarrow> bool" where
  "replicated r k \<longleftrightarrow>
     quorum r \<le> length (filter (\<lambda>i. case prs r i of None \<Rightarrow> False | Some pr \<Rightarrow> k \<le> Match pr) (peers r))"

text \<open>A node of a cluster of three at term 2, on a log whose third entry is not committed.\<close>

definition sample_raft :: "nat \<Rightarrow> StateType \<Rightarrow> nat \<Rightarrow> Storage raft" where
  "sample_raft i st ld =
     \<lparr>cfg = \<lparr>cfgID = i, cfgPeers = [1, 2, 3], cfgElectionTicks = 10, cfgHeartbeatTicks = 1, cfgMaxEntriesPerAppend = 0,
              cfgPreVote = True, cfgRand = Some (\<lambda>_. 0)\<rparr>,
      rid = i, rTerm = 2, rVote = 0, raftLog = sample_log, rstate = st, lead = ld, peers = [1, 2, 3],
      prs = [1 \<mapsto> \<lparr>Match = 3, Next = 4\<rparr>, 2 \<mapsto> \<lparr>Match = 3, Next = 4\<rparr>, 3 \<mapsto> \<lparr>Match = 0, Next = 4\<rparr>],
      votes = [], msgs = [], readStates = [], rReadOnly = newReadOnly, pendingReadIndexMessages = [], electionElapsed = 0,
      heartbeatElapsed = 0, heartbeatTimeout = 1, randomizedElectionTimeout = 12, prevHardSt = hardState0, rndPos = 0\<rparr>"

lemma matchesOf_map: "(\<And>i. i \<in> set is \<Longrightarrow> p i \<noteq> None) \<Longrightarrow> matchesOf p is = Some (map (\<lambda>i. Match (the (p i))) is)"
  by (induction "is") (force split: bind_splits)+

lemma length_filter_sort: "length (filter P (sort xs)) = length (filter P xs)"
  by (simp add: filter_sort)

lemma median_replicated:
  fixes xs :: "nat list"
  assumes "sorted xs" and "0 < q" and "q \<le> length xs"
  shows "q \<le> length (filter (\<lambda>x. xs ! (length xs - q) \<le> x) xs)"
    and "xs ! (length xs - q) < j \<Longrightarrow> length (filter (\<lambda>x. j \<le> x) xs) < q"
proof -
  let ?p = "length xs - q"
  have p: "?p < length xs" using assms(2,3) by simp
  have "filter (\<lambda>x. xs ! ?p \<le> x) (drop ?p xs) = drop ?p xs"
    using assms(1) p by (auto simp: filter_id_conv in_set_conv_nth sorted_nth_mono)
  then have "length (filter (\<lambda>x. xs ! ?p \<le> x) (take ?p xs @ drop ?p xs)) \<ge> length (drop ?p xs)"
    unfolding filter_append length_append by simp
  with assms(3) show "q \<le> length (filter (\<lambda>x. xs ! ?p \<le> x) xs)" by simp
  assume j: "xs ! ?p < j"
  have "xs ! i < j" if "i \<le> ?p" for i using sorted_nth_mono [OF assms(1) that p] j by simp
  then have "filter (\<lambda>x. j \<le> x) (take (Suc ?p) xs) = []"
    by (auto simp: filter_empty_conv in_set_conv_nth not_le less_Suc_eq_le)
  then have "filter (\<lambda>x. j \<le> x) xs = filter (\<lambda>x. j \<le> x) (drop (Suc ?p) xs)"
    by (metis append_Nil append_take_drop_id filter_append)
  moreover have "length (filter (\<lambda>x. j \<le> x) (drop (Suc ?p) xs)) \<le> length (drop (Suc ?p) xs)" by (rule length_filter_le)
  ultimately show "length (filter (\<lambda>x. j \<le> x) xs) < q" using p assms(2,3) by simp
qed

lemma replicated_matches:
  assumes "\<And>i. i \<in> set (peers r) \<Longrightarrow> prs r i \<noteq> None"
  shows "replicated r k \<longleftrightarrow> quorum r \<le> length (filter (\<lambda>x. k \<le> x) (sort (map (\<lambda>i. Match (the (prs r i))) (peers r))))"
proof -
  have "filter (\<lambda>i. case prs r i of None \<Rightarrow> False | Some pr \<Rightarrow> k \<le> Match pr) (peers r) =
      filter (\<lambda>i. k \<le> Match (the (prs r i))) (peers r)"
    using assms by (intro filter_cong) (fastforce split: option.split)+
  then show ?thesis by (simp add: replicated_def length_filter_sort filter_map comp_def)
qed

lemma log_maybeCommit_eq:
  assumes "mem_log_wf l" and "0 < t"
  shows "log_maybeCommit memOps l k t =
    (if lCommitted l < k \<and> term_at (\<lambda>s. s) l k = t then Some (True, l\<lparr>lCommitted := k\<rparr>) else Some (False, l))"
  using assms by (auto simp: log_maybeCommit_def memst.log_term_eq [OF assms(1)] memst.commitTo_eq [OF assms(1)] term_at_def
      split: if_split_asm)

text \<open>C8. The commit rule. On a leader with a well-formed log there is a greatest index \<open>k\<close> that a quorum is
  known to hold; \<open>maybeCommit\<close> commits exactly up to \<open>k\<close> when that is past the commit index and the
  entry at \<open>k\<close> is of the leader's own term, after which waiting reads are released, and otherwise
  changes nothing and reports false. Neither the search for \<open>k\<close> nor the commit panics.\<close>

theorem maybeCommit_rule:
  assumes "mem_log_wf (raftLog r)" and "0 < rTerm r" and "peers r \<noteq> []"
    and "\<And>i. i \<in> set (peers r) \<Longrightarrow> prs r i \<noteq> None"
  shows "\<exists>k. replicated r k \<and> \<not> (\<exists>j. k < j \<and> replicated r j) \<and>
    maybeCommit memOps r =
      (if lCommitted (raftLog r) < k \<and> term_at (\<lambda>s. s) (raftLog r) k = rTerm r
       then releasePendingReadIndexMessages memOps (r\<lparr>raftLog := (raftLog r)\<lparr>lCommitted := k\<rparr>\<rparr>) \<bind> (\<lambda>r. Some (True, r))
       else Some (False, r))"
proof -
  let ?ms = "sort (map (\<lambda>i. Match (the (prs r i))) (peers r))"
  let ?k = "?ms ! (length ?ms - quorum r)"
  have q: "0 < quorum r" "quorum r \<le> length ?ms" using assms(3) by (auto simp: quorum_def)
      (metis One_nat_def Suc_leI div_less_dividend length_greater_0_conv lessI numeral_2_eq_2)
  note med = median_replicated [OF _ q, simplified]
  have "replicated r ?k" using med(1) by (simp add: replicated_matches [OF assms(4)])
  moreover have "\<not> (\<exists>j. ?k < j \<and> replicated r j)"
    using med(2) by (auto simp: replicated_matches [OF assms(4)] not_le)
  moreover have "maybeCommit memOps r =
      (if lCommitted (raftLog r) < ?k \<and> term_at (\<lambda>s. s) (raftLog r) ?k = rTerm r
       then releasePendingReadIndexMessages memOps (r\<lparr>raftLog := (raftLog r)\<lparr>lCommitted := ?k\<rparr>\<rparr>) \<bind> (\<lambda>r. Some (True, r))
       else Some (False, r))"
    using q(2) by (simp add: maybeCommit_def matchesOf_map [OF assms(4)] log_maybeCommit_eq [OF assms(1,2)] Let_def)
  ultimately show ?thesis by blast
qed

lemma sample_raft_wf: "mem_log_wf (raftLog (sample_raft i st ld))"
  by (auto simp: sample_raft_def sample_log_def log_eval contig_def upt_rec)

theorem maybeCommit_rule_witness:
  "\<exists>r'. maybeCommit memOps (sample_raft 1 StateLeader 1) = Some (True, r') \<and> lCommitted (raftLog r') = 3"
proof -
  let ?r = "sample_raft 1 StateLeader 1"
  have rep: "replicated ?r k \<longleftrightarrow> k \<le> 3" for k
    by (auto simp: replicated_def sample_raft_def quorum_def)
  have "\<And>i. i \<in> set (peers ?r) \<Longrightarrow> prs ?r i \<noteq> None" "0 < rTerm ?r" "peers ?r \<noteq> []" by (auto simp: sample_raft_def)
  with maybeCommit_rule [OF sample_raft_wf, of 1 StateLeader 1] obtain k where k: "k \<le> 3" "\<not> (\<exists>j. k < j \<and> j \<le> 3)"
    and eq: "maybeCommit memOps ?r =
      (if lCommitted (raftLog ?r) < k \<and> term_at (\<lambda>s. s) (raftLog ?r) k = rTerm ?r
       then releasePendingReadIndexMessages memOps (?r\<lparr>raftLog := (raftLog ?r)\<lparr>lCommitted := k\<rparr>\<rparr>) \<bind> (\<lambda>r. Some (True, r))
       else Some (False, ?r))"
    unfolding rep by blast
  from k have "k = 3" by (metis le_neq_implies_less order_refl)
  then show ?thesis unfolding eq
    by (simp add: sample_raft_def sample_log_def log_eval releasePendingReadIndexMessages_def committedEntryInCurrentTerm_def
        log_term_def firstIndex_def lastIndex_def maybeFirstIndex_def maybeLastIndex_def maybeTerm_def memOps_simps
        mem_FirstIndex_def mem_offset_def)
qed

section \<open>A refused pre-vote\<close>

lemma becomeFollower_total:
  assumes "mem_log_wf (raftLog r)" and "cfgRand (cfg r) \<noteq> None" and "0 < cfgElectionTicks (cfg r)"
  shows "\<exists>r'. becomeFollower memOps t ld r = Some r' \<and> rTerm r' = t \<and> lead r' = ld \<and> rstate r' = StateFollower \<and> rid r' = rid r"
  using assms memst.lastIndex_eq [OF assms(1)]
  by (cases "rTerm r = t") (auto simp: becomeFollower_def reset_def resetRandomizedElectionTimeout_def Let_def)

text \<open>C18. A refused pre-vote deposes a healthy leader. Let \<open>p\<close> be a pre-candidate that was cut off and rejoins at the
  leader's term, and let \<open>f\<close> still follow the leader \<open>l\<close>. When \<open>p\<close> asks \<open>f\<close> for a pre-vote, \<open>f\<close> refuses; the
  refusal makes \<open>p\<close> a follower of the next term with \<open>f\<close> as its leader, \<open>p\<close> answers the next heartbeat of
  \<open>l\<close> with that term, and the answer makes \<open>l\<close> step down.\<close>

theorem refused_prevote_deposes_leader:
  assumes "lead f \<noteq> NoNode" and "rVote f \<noteq> rid p" and "electionElapsed f < cfgElectionTicks (cfg f)"
    and "rstate p = StatePreCandidate" and "rTerm p = t" and "rstate l = StateLeader" and "rTerm l = t" and "0 < t"
    and "mem_log_wf (raftLog p)" and "cfgRand (cfg p) \<noteq> None" and "0 < cfgElectionTicks (cfg p)"
    and "mem_log_wf (raftLog l)" and "cfgRand (cfg l) \<noteq> None" and "0 < cfgElectionTicks (cfg l)"
    and "mType probe = MsgPreVote" and "mFrom probe = rid p" and "mTerm probe = t + 1"
    and "mType beat = MsgHeartbeat" and "mFrom beat = rid l" and "mTerm beat = t"
  shows "\<exists>f' refusal p' p'' answer l'.
    Step memOps probe f = Some (None, f') \<and> msgs f' = msgs f @ [refusal] \<and> mTo refusal = rid p \<and> rTerm f' = rTerm f \<and>
    Step memOps refusal p = Some (None, p') \<and> rTerm p' = t + 1 \<and> lead p' = rid f \<and>
    Step memOps beat p' = Some (None, p'') \<and> msgs p'' = msgs p' @ [answer] \<and> mTo answer = rid l \<and>
    Step memOps answer l = Some (None, l') \<and> rstate l' = StateFollower \<and> rTerm l' = t + 1"
proof -
  define refusal where "refusal = message0\<lparr>mTo := rid p, mType := MsgPreVoteResp, mReject := True, mTerm := t + 1, mFrom := rid f\<rparr>"
  define answer where "answer = message0\<lparr>mTo := rid l, mType := MsgHeartbeatResp, mTerm := t + 1, mFrom := rid p\<rparr>"
  have 1: "Step memOps probe f = Some (None, f\<lparr>msgs := msgs f @ [refusal]\<rparr>)"
    using assms by (simp add: Step_def sticky_def stickyReject_def send_def Let_def refusal_def message0_def)
  obtain p' where p': "becomeFollower memOps (t + 1) (rid f) p = Some p'" "rTerm p' = t + 1" "lead p' = rid f"
    "rstate p' = StateFollower" "rid p' = rid p" using becomeFollower_total [OF assms(9-11)] by blast
  then have 2: "Step memOps refusal p = Some (None, p')"
    using assms by (simp add: Step_def sticky_def termRules_def stepRole_def stepFollower_def refusal_def message0_def)
  have 3: "Step memOps beat p' = Some (None, p'\<lparr>msgs := msgs p' @ [answer]\<rparr>)"
    using assms p' by (simp add: Step_def sticky_def termRules_def msgRespType_def send_def answer_def message0_def)
  obtain l' where l': "becomeFollower memOps (t + 1) (rid p) l = Some l'" "rTerm l' = t + 1" "rstate l' = StateFollower"
    using becomeFollower_total [OF assms(12-14)] by blast
  then have 4: "Step memOps answer l = Some (None, l')"
    using assms by (simp add: Step_def sticky_def termRules_def stepRole_def stepFollower_def answer_def message0_def)
  from 1 2 3 4 p'(2,3) l'(2,3) show ?thesis
    by (intro exI [of _ "f\<lparr>msgs := msgs f @ [refusal]\<rparr>"] exI [of _ refusal] exI [of _ p'] exI [of _ answer] exI [of _ l']
        exI [of _ "p'\<lparr>msgs := msgs p' @ [answer]\<rparr>"]) (simp add: refusal_def answer_def)
qed

theorem refused_prevote_deposes_leader_witness:
  "\<exists>f' refusal p'. Step memOps (message0\<lparr>mType := MsgPreVote, mFrom := 3, mTo := 2, mTerm := 3\<rparr>) (sample_raft 2 StateFollower 1) = Some (None, f') \<and>
     msgs f' = [refusal] \<and> Step memOps refusal (sample_raft 3 StatePreCandidate 0) = Some (None, p') \<and> rTerm p' = 3 \<and> lead p' = 2"
proof -
  let ?f = "sample_raft 2 StateFollower 1" and ?p = "sample_raft 3 StatePreCandidate 0" and ?l = "sample_raft 1 StateLeader 1"
  have "lead ?f \<noteq> 0" "rVote ?f \<noteq> rid ?p" "electionElapsed ?f < cfgElectionTicks (cfg ?f)" "rstate ?p = StatePreCandidate"
    "rTerm ?p = 2" "rstate ?l = StateLeader" "rTerm ?l = 2" "0 < (2 :: nat)" "cfgRand (cfg ?p) \<noteq> None"
    "0 < cfgElectionTicks (cfg ?p)" "cfgRand (cfg ?l) \<noteq> None" "0 < cfgElectionTicks (cfg ?l)" "rid ?p = 3" "rid ?l = 1" "rid ?f = 2"
    "msgs ?f = []" by (simp_all add: sample_raft_def)
  note r = this
  from refused_prevote_deposes_leader [OF r(1-8) sample_raft_wf r(9,10) sample_raft_wf r(11,12),
      of "message0\<lparr>mType := MsgPreVote, mFrom := 3, mTo := 2, mTerm := 3\<rparr>" "message0\<lparr>mType := MsgHeartbeat, mFrom := 1, mTo := 3, mTerm := 2\<rparr>"]
  show ?thesis unfolding r(13-16) by simp blast
qed

end
