(* ===== verification/Grpc_Transport.thy ===== *)
theory Grpc_Transport
  imports Raft_Types "HOL-Library.AList" "HOL-Library.Sublist"
begin

text \<open>
  The peer transport of \<^verbatim>\<open>transport/grpc\<close>: the conversions between native and wire messages
  (\<^verbatim>\<open>conv.go\<close>) and the bounded queues between the drive loop and the peers (\<^verbatim>\<open>grpc.go\<close>).

  The wire types are generated from \<^verbatim>\<open>proto/raft.proto\<close>; their records here list the fields that
  the conversions set and get, with an enum as the integer it is. Listening, dialling and the
  RPC itself are gRPC: a worker's call is a step that succeeds or fails. A Go channel is the
  list of the values in its buffer.
\<close>

section \<open>Conversions\<close>

record pbEntry =
  pbeTerm :: nat
  pbeIndex :: nat
  pbeType :: int
  pbeData :: bytes

record pbSnapshot =
  pbsIndex :: nat
  pbsTerm :: nat
  pbsData :: bytes

record pbMessage =
  pbType :: int
  pbFrom :: nat
  pbTo :: nat
  pbTerm :: nat
  pbLogIndex :: nat
  pbLogTerm :: nat
  pbEntries :: "pbEntry list"
  pbCommit :: nat
  pbReject :: bool
  pbRejectHint :: nat
  pbHintTerm :: nat
  pbSnap :: "pbSnapshot option"
  pbContext :: bytes

text \<open>The constants of \<open>MessageType\<close> in their order; the wire enum has the same numbers.\<close>

definition messageTypes :: "MessageType list" where
  "messageTypes = [MsgUnknown, MsgPropose, MsgReadIndex, MsgPreVote, MsgPreVoteResp, MsgVote, MsgVoteResp,
     MsgAppend, MsgAppendResp, MsgHeartbeat, MsgHeartbeatResp, MsgInstallSnapshot, MsgInstallSnapshotResp]"

fun messageTypeNum :: "MessageType \<Rightarrow> nat" where
  "messageTypeNum MsgUnknown = 0"
| "messageTypeNum MsgPropose = 1"
| "messageTypeNum MsgReadIndex = 2"
| "messageTypeNum MsgPreVote = 3"
| "messageTypeNum MsgPreVoteResp = 4"
| "messageTypeNum MsgVote = 5"
| "messageTypeNum MsgVoteResp = 6"
| "messageTypeNum MsgAppend = 7"
| "messageTypeNum MsgAppendResp = 8"
| "messageTypeNum MsgHeartbeat = 9"
| "messageTypeNum MsgHeartbeatResp = 10"
| "messageTypeNum MsgInstallSnapshot = 11"
| "messageTypeNum MsgInstallSnapshotResp = 12"

text \<open>
  The cast from the wire enum keeps the low byte. A number that names no constant takes no
  branch of the core, as \<open>MsgUnknown\<close> does.
\<close>

definition castMessageType :: "int \<Rightarrow> MessageType" where
  "castMessageType n =
     (let b = nat (n mod 256) in if b < length messageTypes then messageTypes ! b else MsgUnknown)"

definition toProtoEntry :: "Entry \<Rightarrow> pbEntry" where
  "toProtoEntry e = \<lparr>pbeTerm = eTerm e, pbeIndex = eIndex e, pbeType = uint (eType e), pbeData = eData e\<rparr>"

definition toProto :: "Message \<Rightarrow> pbMessage" where
  "toProto m =
     \<lparr>pbType = int (messageTypeNum (mType m)), pbFrom = mFrom m, pbTo = mTo m, pbTerm = mTerm m,
      pbLogIndex = mLogIndex m, pbLogTerm = mLogTerm m,
      pbEntries = (if 0 < length (mEntries m) then map toProtoEntry (mEntries m) else []),
      pbCommit = mCommit m, pbReject = mReject m, pbRejectHint = mRejectHint m, pbHintTerm = mHintTerm m,
      pbSnap = (case mSnapshot m of
                  None \<Rightarrow> None
                | Some s \<Rightarrow> Some \<lparr>pbsIndex = snIndex s, pbsTerm = snTerm s, pbsData = snData s\<rparr>),
      pbContext = mContext m\<rparr>"

definition fromProto :: "pbMessage \<Rightarrow> Message" where
  "fromProto pm =
     \<lparr>mType = castMessageType (pbType pm), mFrom = pbFrom pm, mTo = pbTo pm, mTerm = pbTerm pm,
      mLogIndex = pbLogIndex pm, mLogTerm = pbLogTerm pm,
      mEntries = (if 0 < length (pbEntries pm)
                  then map (\<lambda>pe. \<lparr>eTerm = pbeTerm pe, eIndex = pbeIndex pe,
                                  eType = word_of_int (pbeType pe), eData = pbeData pe\<rparr>) (pbEntries pm)
                  else []),
      mCommit = pbCommit pm, mReject = pbReject pm, mRejectHint = pbRejectHint pm, mHintTerm = pbHintTerm pm,
      mSnapshot = (case pbSnap pm of
                     None \<Rightarrow> None
                   | Some ps \<Rightarrow> Some \<lparr>snMetadata = \<lparr>smIndex = pbsIndex ps, smTerm = pbsTerm ps\<rparr>, snData = pbsData ps\<rparr>),
      mContext = pbContext pm\<rparr>"

section \<open>Queues\<close>

definition outboundQueue :: nat where
  "outboundQueue = 256"

definition recvQueue :: nat where
  "recvQueue = 1024"

record peerSender =
  psAddr :: string
  psCh :: "Message list list"
  psDone :: bool

record PeerTransport =
  ptSelf :: nat
  ptPeers :: "(nat \<times> string) list"
  ptRecvCh :: "Message list"
  ptSenders :: "(nat \<times> peerSender) list"
  ptClosed :: bool

text \<open>A send on a buffered channel inside a \<open>select\<close> with a default branch.\<close>

definition trySend :: "nat \<Rightarrow> 'a list \<Rightarrow> 'a \<Rightarrow> 'a list" where
  "trySend cap ch x = (if length ch < cap then ch @ [x] else ch)"

datatype transport_error = MissingSelf nat

definition NewPeerTransport :: "nat \<Rightarrow> (nat \<times> string) list \<Rightarrow> transport_error + PeerTransport" where
  "NewPeerTransport self peers =
     (case map_of peers self of
        None \<Rightarrow> Inl (MissingSelf self)
      | Some _ \<Rightarrow> Inr \<lparr>ptSelf = self, ptPeers = peers, ptRecvCh = [], ptSenders = [], ptClosed = False\<rparr>)"

text \<open>The inbound service. Sending on the channel that \<open>Close\<close> has closed panics.\<close>

definition transport_Step :: "pbMessage list \<Rightarrow> PeerTransport \<Rightarrow> PeerTransport option" where
  "transport_Step req t =
     (if ptClosed t \<and> req \<noteq> [] then None
      else Some (t\<lparr>ptRecvCh := foldl (\<lambda>ch pm. trySend recvQueue ch (fromProto pm)) (ptRecvCh t) req\<rparr>))"

definition sender :: "nat \<Rightarrow> PeerTransport \<Rightarrow> peerSender option \<times> PeerTransport" where
  "sender i t =
     (if ptClosed t then (None, t)
      else case map_of (ptSenders t) i of
        Some s \<Rightarrow> (Some s, t)
      | None \<Rightarrow>
          (case map_of (ptPeers t) i of
             None \<Rightarrow> (None, t)
           | Some addr \<Rightarrow>
               let s = \<lparr>psAddr = addr, psCh = [], psDone = False\<rparr>
               in (Some s, t\<lparr>ptSenders := AList.update i s (ptSenders t)\<rparr>)))"

definition byPeer :: "nat \<Rightarrow> Message list \<Rightarrow> (nat \<times> Message list) list" where
  "byPeer self msgs =
     fold (\<lambda>m acc. if mTo m = 0 \<or> mTo m = self then acc
                    else AList.update (mTo m) ((case map_of acc (mTo m) of None \<Rightarrow> [] | Some b \<Rightarrow> b) @ [m]) acc) msgs []"

definition sendBatch :: "nat \<times> Message list \<Rightarrow> PeerTransport \<Rightarrow> PeerTransport" where
  "sendBatch tb t =
     (case tb of (to, batch) \<Rightarrow>
        (case sender to t of
           (None, t) \<Rightarrow> t
         | (Some s, t) \<Rightarrow>
             t\<lparr>ptSenders := AList.update to (s\<lparr>psCh := trySend outboundQueue (psCh s) batch\<rparr>) (ptSenders t)\<rparr>))"

definition transport_Send :: "Message list \<Rightarrow> PeerTransport \<Rightarrow> PeerTransport" where
  "transport_Send msgs t =
     (if length msgs = 0 then t else fold sendBatch (byPeer (ptSelf t) msgs) t)"

text \<open>
  One turn of a peer's worker: it takes the oldest batch from its queue and makes one call
  with it. What happens to the call is up to the network: the receiver may or may not see it.
\<close>

definition runOnce :: "nat \<Rightarrow> PeerTransport \<Rightarrow> (pbMessage list \<times> PeerTransport) option" where
  "runOnce i t =
     (case map_of (ptSenders t) i of
        None \<Rightarrow> None
      | Some s \<Rightarrow>
          (case psCh s of
             [] \<Rightarrow> None
           | batch # rest \<Rightarrow>
               Some (map toProto batch, t\<lparr>ptSenders := AList.update i (s\<lparr>psCh := rest\<rparr>) (ptSenders t)\<rparr>)))"

definition Recv :: "PeerTransport \<Rightarrow> (Message \<times> PeerTransport) option" where
  "Recv t = (case ptRecvCh t of [] \<Rightarrow> None | m # ms \<Rightarrow> Some (m, t\<lparr>ptRecvCh := ms\<rparr>))"

text \<open>
  \<open>Close\<close> drops the map of senders, which \<open>sender\<close> no longer looks at, and tells the workers to
  stop; one that finds a batch first may still make a call.
\<close>

definition transport_Close :: "PeerTransport \<Rightarrow> PeerTransport" where
  "transport_Close t =
     (if ptClosed t then t
      else t\<lparr>ptClosed := True, ptSenders := map (\<lambda>(i, s). (i, s\<lparr>psDone := True\<rparr>)) (ptSenders t)\<rparr>)"

text \<open>
  The life of one transport, with ghosts: \<open>sent\<close>, the messages that the drive loop passed to
  \<open>Send\<close>; \<open>out i\<close>, the messages that the worker of peer \<open>i\<close> put into calls; \<open>got\<close>, the messages
  that peers' calls carried; \<open>recvd\<close>, those that the drive loop received.
\<close>

record ghosts =
  gSent :: "Message list"
  gOut :: "nat \<Rightarrow> pbMessage list"
  gGot :: "pbMessage list"
  gRecvd :: "Message list"

inductive trun :: "PeerTransport \<Rightarrow> ghosts \<Rightarrow> bool" where
  tr_new: "NewPeerTransport self peers = Inr t \<Longrightarrow> trun t \<lparr>gSent = [], gOut = (\<lambda>_. []), gGot = [], gRecvd = []\<rparr>"
| tr_send: "trun t g \<Longrightarrow> trun (transport_Send msgs t) (g\<lparr>gSent := gSent g @ msgs\<rparr>)"
| tr_run: "trun t g \<Longrightarrow> runOnce i t = Some (req, t') \<Longrightarrow> trun t' (g\<lparr>gOut := (gOut g)(i := gOut g i @ req)\<rparr>)"
| tr_step: "trun t g \<Longrightarrow> transport_Step req t = Some t' \<Longrightarrow> trun t' (g\<lparr>gGot := gGot g @ req\<rparr>)"
| tr_recv: "trun t g \<Longrightarrow> Recv t = Some (m, t') \<Longrightarrow> trun t' (g\<lparr>gRecvd := gRecvd g @ [m]\<rparr>)"
| tr_close: "trun t g \<Longrightarrow> trun (transport_Close t) g"

section \<open>Round trip\<close>

lemma castMessageType_num [simp]: "castMessageType (int (messageTypeNum ty)) = ty"
  by (cases ty) (simp_all add: castMessageType_def messageTypes_def)

lemma fromProto_toProto [simp]: "fromProto (toProto m) = m"
  by (cases m) (auto simp: fromProto_def toProto_def toProtoEntry_def map_idI o_def split: option.split)

text \<open>
  C30. The wire form loses nothing: converting any message to its wire form and back gives
  the message, all thirteen types, entries and snapshot included.
\<close>

theorem fromProto_round_trip: "fromProto (toProto m) = m"
  by (rule fromProto_toProto)

section \<open>Delivery\<close>

definition queue :: "PeerTransport \<Rightarrow> nat \<Rightarrow> Message list list" where
  "queue t i = (case map_of (ptSenders t) i of None \<Rightarrow> [] | Some s \<Rightarrow> psCh s)"

definition sendable :: "PeerTransport \<Rightarrow> nat \<Rightarrow> Message \<Rightarrow> bool" where
  "sendable t i m \<longleftrightarrow> mTo m = i \<and> i \<noteq> 0 \<and> i \<noteq> ptSelf t"

lemma byPeer_fold:
  "map_of (fold (\<lambda>m acc. if mTo m = 0 \<or> mTo m = self then acc
      else AList.update (mTo m) ((case map_of acc (mTo m) of None \<Rightarrow> [] | Some b \<Rightarrow> b) @ [m]) acc) msgs acc) i =
   (let new = filter (\<lambda>m. mTo m = i \<and> i \<noteq> 0 \<and> i \<noteq> self) msgs
    in if new = [] then map_of acc i else Some ((case map_of acc i of None \<Rightarrow> [] | Some b \<Rightarrow> b) @ new))"
  by (induction msgs arbitrary: acc) (auto simp: update_conv' Let_def split: option.split)

lemma map_of_byPeer:
  "map_of (byPeer self msgs) i =
     (let new = filter (\<lambda>m. mTo m = i \<and> i \<noteq> 0 \<and> i \<noteq> self) msgs in if new = [] then None else Some new)"
  by (simp add: byPeer_def byPeer_fold Let_def)

lemma distinct_byPeer: "distinct (map fst (byPeer self msgs))"
proof -
  have "distinct (map fst acc) \<Longrightarrow> distinct (map fst (fold (\<lambda>m acc. if mTo m = 0 \<or> mTo m = self then acc
      else AList.update (mTo m) ((case map_of acc (mTo m) of None \<Rightarrow> [] | Some b \<Rightarrow> b) @ [m]) acc) msgs acc))" for acc
    by (induction msgs arbitrary: acc) (simp_all add: distinct_update)
  from this [of "[]"] show ?thesis by (simp add: byPeer_def)
qed

lemma sendBatch_queue:
  "queue (sendBatch (to, b) t) i = queue t i \<or>
   i = to \<and> length (queue t i) < outboundQueue \<and> queue (sendBatch (to, b) t) i = queue t i @ [b]"
  by (auto simp: sendBatch_def sender_def queue_def trySend_def update_conv' Let_def outboundQueue_def split: option.split)

lemma sendBatch_rest [simp]:
  "ptSelf (sendBatch tb t) = ptSelf t" "ptRecvCh (sendBatch tb t) = ptRecvCh t" "ptPeers (sendBatch tb t) = ptPeers t"
  by (auto simp: sendBatch_def sender_def Let_def split: prod.split option.split)

lemma sendBatches_queue:
  "distinct (map fst bs) \<Longrightarrow> queue (fold sendBatch bs t) i = queue t i \<or>
   (\<exists>b. map_of bs i = Some b \<and> length (queue t i) < outboundQueue \<and> queue (fold sendBatch bs t) i = queue t i @ [b])"
proof (induction bs arbitrary: t)
  case (Cons tb bs)
  obtain to b where tb: "tb = (to, b)" by fastforce
  show ?case
  proof (cases "i = to")
    case True
    then have "map_of bs i = None" using Cons.prems tb by (simp add: map_of_eq_None_iff)
    with Cons.IH [of "sendBatch tb t"] Cons.prems have "queue (fold sendBatch (tb # bs) t) i = queue (sendBatch tb t) i"
      by simp
    then show ?thesis using sendBatch_queue [of to b t i] True tb by auto
  next
    case False
    then have "queue (sendBatch tb t) i = queue t i" using sendBatch_queue [of to b t i] tb by auto
    then show ?thesis using Cons.IH [of "sendBatch tb t"] Cons.prems False tb by auto
  qed
qed simp

lemma transport_Send_queue:
  "queue (transport_Send msgs t) i = queue t i \<or>
   length (queue t i) < outboundQueue \<and> queue (transport_Send msgs t) i = queue t i @ [filter (sendable t i) msgs]"
  using sendBatches_queue [OF distinct_byPeer, of "ptSelf t" msgs t i]
  by (auto simp: transport_Send_def map_of_byPeer Let_def sendable_def [abs_def] split: if_split_asm)

lemma transport_Send_rest [simp]:
  "ptSelf (transport_Send msgs t) = ptSelf t" "ptRecvCh (transport_Send msgs t) = ptRecvCh t"
proof -
  have "ptSelf (fold sendBatch bs t) = ptSelf t \<and> ptRecvCh (fold sendBatch bs t) = ptRecvCh t" for bs
    by (induction bs arbitrary: t) simp_all
  then show "ptSelf (transport_Send msgs t) = ptSelf t" "ptRecvCh (transport_Send msgs t) = ptRecvCh t"
    by (simp_all add: transport_Send_def)
qed

lemma trySend_fold:
  "length ch \<le> cap \<Longrightarrow> foldl (\<lambda>ch x. trySend cap ch (f x)) ch xs = ch @ take (cap - length ch) (map f xs)"
proof (induction xs arbitrary: ch)
  case (Cons x xs)
  show ?case
  proof (cases "length ch < cap")
    case True
    then have "cap - length ch = Suc (cap - Suc (length ch))" by simp
    then show ?thesis using True Cons.IH [of "ch @ [f x]"] by (simp add: trySend_def)
  next
    case False
    then show ?thesis using Cons.IH [of ch] Cons.prems by (simp add: trySend_def)
  qed
qed simp

definition tinv :: "PeerTransport \<Rightarrow> ghosts \<Rightarrow> bool" where
  "tinv t g \<longleftrightarrow>
     (\<forall>i. length (queue t i) \<le> outboundQueue \<and>
        subseq (gOut g i @ map toProto (concat (queue t i))) (map toProto (filter (sendable t i) (gSent g)))) \<and>
     length (ptRecvCh t) \<le> recvQueue \<and> subseq (gRecvd g @ ptRecvCh t) (map fromProto (gGot g))"

lemma tinv_send:
  assumes "tinv t g"
  shows "tinv (transport_Send msgs t) (g\<lparr>gSent := gSent g @ msgs\<rparr>)"
proof -
  have same: "sendable (transport_Send msgs t) i = sendable t i" for i
    by (simp add: sendable_def fun_eq_iff)
  have "length (queue (transport_Send msgs t) i) \<le> outboundQueue \<and>
      subseq (gOut g i @ map toProto (concat (queue (transport_Send msgs t) i)))
        (map toProto (filter (sendable t i) (gSent g @ msgs)))" for i
  proof -
    have old: "length (queue t i) \<le> outboundQueue"
        "subseq (gOut g i @ map toProto (concat (queue t i))) (map toProto (filter (sendable t i) (gSent g)))"
      using assms by (auto simp: tinv_def)
    from transport_Send_queue [of msgs t i] show ?thesis
    proof
      assume "queue (transport_Send msgs t) i = queue t i"
      with old show ?thesis using list_emb_append2 by fastforce
    next
      assume "length (queue t i) < outboundQueue \<and> queue (transport_Send msgs t) i = queue t i @ [filter (sendable t i) msgs]"
      then show ?thesis
        using list_emb_append_mono [OF old(2) subseq_order.refl, of "map toProto (filter (sendable t i) msgs)"] by simp
    qed
  qed
  with assms show ?thesis by (simp add: tinv_def same)
qed

lemma tinv_run:
  assumes "tinv t g" and "runOnce i t = Some (req, t')"
  shows "tinv t' (g\<lparr>gOut := (gOut g)(i := gOut g i @ req)\<rparr>)"
proof -
  obtain s batch rest where q: "map_of (ptSenders t) i = Some s" "psCh s = batch # rest" "req = map toProto batch"
      "t' = t\<lparr>ptSenders := AList.update i (s\<lparr>psCh := rest\<rparr>) (ptSenders t)\<rparr>"
    using assms(2) by (auto simp: runOnce_def split: option.split_asm list.split_asm)
  have "queue t i = batch # rest" using q by (simp add: queue_def)
  moreover have "queue t' j = (if j = i then rest else queue t j)" for j
    using q by (simp add: queue_def update_conv')
  moreover have "sendable t' j = sendable t j" for j using q by (simp add: sendable_def fun_eq_iff)
  ultimately show ?thesis
    using assms(1) q(3,4) unfolding tinv_def by (auto split: if_split_asm) (metis Suc_leD append_assoc concat.simps(2) length_Cons map_append)+
qed

lemma tinv_step:
  assumes "tinv t g" and "transport_Step req t = Some t'"
  shows "tinv t' (g\<lparr>gGot := gGot g @ req\<rparr>)"
proof -
  have inv: "length (ptRecvCh t) \<le> recvQueue" "subseq (gRecvd g @ ptRecvCh t) (map fromProto (gGot g))"
    using assms(1) by (auto simp: tinv_def)
  let ?new = "take (recvQueue - length (ptRecvCh t)) (map fromProto req)"
  have t': "t' = t\<lparr>ptRecvCh := ptRecvCh t @ ?new\<rparr>"
    using assms(2) trySend_fold [OF inv(1), of fromProto req] by (simp add: transport_Step_def split: if_split_asm)
  have "subseq ?new (map fromProto req)" by (metis append_take_drop_id list_emb_append2 subseq_order.refl subseq_rev_drop_many)
  with inv(2) have "subseq ((gRecvd g @ ptRecvCh t) @ ?new) (map fromProto (gGot g) @ map fromProto req)"
    by (rule list_emb_append_mono)
  moreover have "queue t' i = queue t i" "sendable t' i = sendable t i" for i
    using t' by (simp_all add: queue_def sendable_def fun_eq_iff)
  ultimately show ?thesis using assms(1) inv(1) t' by (simp add: tinv_def)
qed

lemma tinv_close: "tinv t g \<Longrightarrow> tinv (transport_Close t) g"
proof -
  have "queue (transport_Close t) i = queue t i" "sendable (transport_Close t) i = sendable t i" for i
    by (auto simp: queue_def transport_Close_def sendable_def map_of_map fun_eq_iff split: option.split)
  moreover have "ptRecvCh (transport_Close t) = ptRecvCh t" by (simp add: transport_Close_def)
  moreover assume "tinv t g"
  ultimately show ?thesis by (simp add: tinv_def)
qed

lemma trun_inv: "trun t g \<Longrightarrow> tinv t g"
proof (induction rule: trun.induct)
  case (tr_new self peers t)
  then show ?case
    by (auto simp: NewPeerTransport_def tinv_def queue_def split: option.split_asm)
next
  case (tr_recv t g m t')
  then show ?case
    by (auto simp: Recv_def tinv_def queue_def sendable_def [abs_def] split: list.split_asm)
qed (simp_all add: tinv_send tinv_run tinv_step tinv_close)

lemma subseq_prefixD: "subseq (xs @ ys) zs \<Longrightarrow> subseq xs zs"
  by (meson prefixI prefix_imp_subseq subseq_order.trans)

text \<open>
  C29. What a transport delivers. Through any interleaving of \<open>Send\<close>, worker calls, inbound
  calls, receives and \<open>Close\<close>: the calls to a peer carry, in order and at most once, only
  messages that the drive loop addressed to that peer (never to itself or to nobody); the
  drive loop receives, in order and at most once, only messages that inbound calls carried;
  and the queues stay within their capacities, whatever is dropped.
\<close>

theorem transport_delivers_what_was_sent:
  assumes "trun t g"
  shows "subseq (map fromProto (gOut g i)) (filter (\<lambda>m. mTo m = i \<and> i \<noteq> 0 \<and> i \<noteq> ptSelf t) (gSent g)) \<and>
    subseq (gRecvd g) (map fromProto (gGot g)) \<and>
    length (queue t i) \<le> 256 \<and> length (ptRecvCh t) \<le> 1024"
proof -
  note inv = trun_inv [OF assms, unfolded tinv_def]
  then have "subseq (gOut g i @ map toProto (concat (queue t i))) (map toProto (filter (sendable t i) (gSent g)))" by blast
  then have "subseq (gOut g i) (map toProto (filter (sendable t i) (gSent g)))" by (rule subseq_prefixD)
  then have "subseq (map fromProto (gOut g i)) (map fromProto (map toProto (filter (sendable t i) (gSent g))))"
    by (rule subseq_map)
  with inv show ?thesis
    by (auto simp: sendable_def [abs_def] o_def outboundQueue_def recvQueue_def dest: subseq_prefixD)
qed

definition sample_msgs :: "Message list" where
  "sample_msgs = [message0\<lparr>mType := MsgHeartbeat, mTo := 2\<rparr>, message0\<lparr>mTo := 1\<rparr>, message0\<lparr>mType := MsgAppend, mTo := 2\<rparr>]"

definition sample_transport :: PeerTransport where
  "sample_transport = \<lparr>ptSelf = 1, ptPeers = [(1, ''a''), (2, ''b'')], ptRecvCh = [], ptSenders = [], ptClosed = False\<rparr>"

theorem transport_delivers_what_was_sent_witness:
  "\<exists>t g. trun t g \<and> gSent g = sample_msgs \<and> length (gOut g 2) = 2 \<and>
     subseq (map fromProto (gOut g 2)) (filter (\<lambda>m. mTo m = 2) sample_msgs)"
proof -
  let ?g0 = "\<lparr>gSent = [], gOut = (\<lambda>_. []), gGot = [], gRecvd = []\<rparr> :: ghosts"
  define t1 where "t1 = transport_Send sample_msgs sample_transport"
  obtain req t2 where run: "runOnce 2 t1 = Some (req, t2)" and two: "length req = 2"
    by (simp add: t1_def transport_Send_def sample_msgs_def sample_transport_def byPeer_def sendBatch_def sender_def
        trySend_def runOnce_def outboundQueue_def message0_def Let_def)
  have "trun sample_transport ?g0"
    by (rule tr_new [of 1 "[(1, ''a''), (2, ''b'')]"]) (simp add: NewPeerTransport_def sample_transport_def)
  from tr_run [OF tr_send [OF this, of sample_msgs] run [unfolded t1_def]]
  have reach: "trun t2 (?g0\<lparr>gSent := sample_msgs, gOut := (\<lambda>_. [])(2 := req)\<rparr>)" by simp
  from transport_delivers_what_was_sent [OF this, of 2]
  have "subseq (map fromProto req) (filter (\<lambda>m. mTo m = 2 \<and> ptSelf t2 \<noteq> 2) sample_msgs)" by (simp add: eq_commute)
  then have "subseq (map fromProto req) (filter (\<lambda>m. mTo m = 2) sample_msgs)"
    by (cases "ptSelf t2 = 2") (auto simp: sample_msgs_def message0_def)
  with reach two show ?thesis
    by (intro exI [of _ t2] exI [of _ "?g0\<lparr>gSent := sample_msgs, gOut := (\<lambda>_. [])(2 := req)\<rparr>"]) simp
qed

end
