(* ===== verification/KV_Service.thy ===== *)
theory KV_Service
  imports Server_Drive Disk_Storage
begin

text \<open>
  The client-facing side of a server: \<open>Config\<close>, its defaults and \<open>New\<close> of \<^verbatim>\<open>server/server.go\<close>, the
  routing of a request through the drive loop (\<open>submit\<close> in \<^verbatim>\<open>server/drive.go\<close>) and the four
  handlers of \<^verbatim>\<open>server/kvservice.go\<close>.

  The request and response messages are generated from \<^verbatim>\<open>proto/kv.proto\<close>; the records list
  their fields, an absent sub-message is \<open>None\<close>. A Go \<open>map\<close> of the configuration is an
  association list with distinct keys, which the code iterates in any order.
\<close>

section \<open>Configuration and construction\<close>

text \<open>Go's \<open>int\<close> has 64 bits.\<close>

definition int64 :: "int \<Rightarrow> int" where
  "int64 x = (x + 2 ^ 63) mod 2 ^ 64 - 2 ^ 63"

record ServerConfig =
  scID :: nat
  scPeers :: "(nat \<times> string) list"
  scClientAddrs :: "(nat \<times> string) list"
  scTickIntervalMillis :: int
  scElectionTicks :: int
  scHeartbeatTicks :: int
  scUnsafeNoSync :: bool

definition withDefaults :: "ServerConfig \<Rightarrow> ServerConfig" where
  "withDefaults c =
     (let c = (if scTickIntervalMillis c \<le> 0 then c\<lparr>scTickIntervalMillis := 20\<rparr> else c);
          c = (if scHeartbeatTicks c \<le> 0 then c\<lparr>scHeartbeatTicks := 5\<rparr> else c)
      in if scElectionTicks c \<le> scHeartbeatTicks c
         then c\<lparr>scElectionTicks := int64 (10 * scHeartbeatTicks c)\<rparr> else c)"

datatype server_error =
    ServerIDNotPositive
  | ServerPeersMissSelf nat
  | OpenStorageError disk_error
  | ServerNewError new_error

definition raftConfig :: "ServerConfig \<Rightarrow> (nat \<Rightarrow> nat) \<Rightarrow> Config" where
  "raftConfig c rand =
     \<lparr>cfgID = scID c, cfgPeers = map fst (scPeers c), cfgElectionTicks = scElectionTicks c,
      cfgHeartbeatTicks = scHeartbeatTicks c, cfgMaxEntriesPerAppend = 0, cfgPreVote = True, cfgRand = Some rand\<rparr>"

definition New :: "ServerConfig \<Rightarrow> (nat \<Rightarrow> nat) \<Rightarrow> DiskStorage \<Rightarrow> (server_error + DiskStorage Server) option" where
  "New c rand dir =
     (if scID c = 0 then Some (Inl ServerIDNotPositive)
      else if map_of (scPeers c) (scID c) = None then Some (Inl (ServerPeersMissSelf (scID c)))
      else
        let c = withDefaults c
        in case Open dir of
             (Inl e, _) \<Rightarrow> Some (Inl (OpenStorageError e))
           | (Inr _, stor) \<Rightarrow>
               let stor = (if scUnsafeNoSync c then DisableSync stor else stor)
               in (case server_New diskOps (raftConfig c rand) stor of
                     None \<Rightarrow> None
                   | Some (Inl e) \<Rightarrow> Some (Inl (ServerNewError e))
                   | Some (Inr s) \<Rightarrow> Some (Inr s)))"

section \<open>Routing a request\<close>

text \<open>
  \<open>submit\<close> puts the request on the drive loop's queue and waits on a channel of its own, \<open>ch\<close>.
  \<open>evs\<close> are the events that the drive loop handles from then until the deadline; the answer is
  the first one on \<open>ch\<close>, and none means that the deadline passed.
\<close>

fun driveEvents ::
  "nat \<Rightarrow> 'st LogStorage \<Rightarrow> ('st \<Rightarrow> raft_error option \<times> 'st) \<Rightarrow> drive_event list \<Rightarrow> 'st Server \<Rightarrow>
     (drive_error + 'st Server) option" where
  "driveEvents fuel ops sync [] s = Some (Inr s)"
| "driveEvents fuel ops sync (ev # evs) s =
     and_then (driveEvent fuel ops sync ev s) (driveEvents fuel ops sync evs)"

definition submit ::
  "nat \<Rightarrow> 'st LogStorage \<Rightarrow> ('st \<Rightarrow> raft_error option \<times> 'st) \<Rightarrow> drive_event list \<Rightarrow> nat \<Rightarrow> (nat \<Rightarrow> request) \<Rightarrow>
     'st Server \<Rightarrow> (drive_error + opResult option \<times> 'st Server) option" where
  "submit fuel ops sync evs ch req s =
     and_then (driveEvents fuel ops sync (RequestEvent (req ch) # evs) s)
       (\<lambda>s'. Some (Inr (map_of (drop (length (srvResp s)) (srvResp s')) ch, s')))"

section \<open>Handlers\<close>

record RequestHeader =
  rqClientId :: uint64
  rqSeq :: uint64

record ResponseHeader =
  rhNotLeader :: bool
  rhLeaderId :: nat
  rhLeaderAddr :: string

abbreviation responseHeader0 :: ResponseHeader where
  "responseHeader0 \<equiv> \<lparr>rhNotLeader = False, rhLeaderId = 0, rhLeaderAddr = []\<rparr>"

definition GetClientId :: "RequestHeader option \<Rightarrow> uint64" where
  "GetClientId h = (case h of None \<Rightarrow> 0 | Some h \<Rightarrow> rqClientId h)"

definition GetSeq :: "RequestHeader option \<Rightarrow> uint64" where
  "GetSeq h = (case h of None \<Rightarrow> 0 | Some h \<Rightarrow> rqSeq h)"

record GetRequest =
  gqHeader :: "RequestHeader option"
  gqKey :: bytes

record GetResponse =
  gpHeader :: ResponseHeader
  gpFound :: bool
  gpValue :: "bytes option"
  gpVersion :: uint64

record PutRequest =
  pqHeader :: "RequestHeader option"
  pqKey :: bytes
  pqValue :: "bytes option"

record PutResponse =
  ppHeader :: ResponseHeader
  ppVersion :: uint64

record DeleteRequest =
  dqHeader :: "RequestHeader option"
  dqKey :: bytes

record DeleteResponse =
  dpHeader :: ResponseHeader
  dpFound :: bool

record CasRequest =
  cqHeader :: "RequestHeader option"
  cqKey :: bytes
  cqExpect :: "bytes option"
  cqExpectAbsent :: bool
  cqValue :: "bytes option"

record CasResponse =
  cpHeader :: ResponseHeader
  cpSwapped :: bool
  cpCurrent :: "bytes option"
  cpVersion :: uint64

definition redirectHeader :: "(nat \<times> string) list \<Rightarrow> nat \<Rightarrow> ResponseHeader" where
  "redirectHeader clientAddrs leaderID =
     (let h = \<lparr>rhNotLeader = True, rhLeaderId = leaderID, rhLeaderAddr = []\<rparr>
      in case map_of clientAddrs leaderID of Some addr \<Rightarrow> h\<lparr>rhLeaderAddr := addr\<rparr> | None \<Rightarrow> h)"

text \<open>
  A handler builds its request, submits it and maps the answer; \<open>sub\<close> is \<open>submit\<close> at the server
  that serves the call, and \<open>None\<close> its \<open>ctx.Err()\<close>.
\<close>

definition service_Get ::
  "((nat \<Rightarrow> request) \<Rightarrow> opResult option) \<Rightarrow> (nat \<times> string) list \<Rightarrow> GetRequest \<Rightarrow> GetResponse option" where
  "service_Get sub addrs req =
     (case sub (reqRead (gqKey req)) of
        None \<Rightarrow> None
      | Some r \<Rightarrow>
          if orNotLeader r
          then Some \<lparr>gpHeader = redirectHeader addrs (orLeaderID r), gpFound = False, gpValue = None, gpVersion = 0\<rparr>
          else if resStatus (orRes r) = StatusOK
          then Some \<lparr>gpHeader = responseHeader0, gpFound = True, gpValue = resValue (orRes r), gpVersion = resVersion (orRes r)\<rparr>
          else Some \<lparr>gpHeader = responseHeader0, gpFound = False, gpValue = None, gpVersion = 0\<rparr>)"

definition putCommand :: "PutRequest \<Rightarrow> Command" where
  "putCommand req = \<lparr>cmdClientID = GetClientId (pqHeader req), cmdSeq = GetSeq (pqHeader req), cmdOp = OpPut,
     cmdKey = pqKey req, cmdValue = pqValue req, cmdExpect = None\<rparr>"

definition service_Put ::
  "((nat \<Rightarrow> request) \<Rightarrow> opResult option) \<Rightarrow> (nat \<times> string) list \<Rightarrow> PutRequest \<Rightarrow> PutResponse option" where
  "service_Put sub addrs req =
     (case sub (reqPropose (putCommand req)) of
        None \<Rightarrow> None
      | Some r \<Rightarrow>
          if orNotLeader r
          then Some \<lparr>ppHeader = redirectHeader addrs (orLeaderID r), ppVersion = 0\<rparr>
          else Some \<lparr>ppHeader = responseHeader0, ppVersion = resVersion (orRes r)\<rparr>)"

definition deleteCommand :: "DeleteRequest \<Rightarrow> Command" where
  "deleteCommand req = \<lparr>cmdClientID = GetClientId (dqHeader req), cmdSeq = GetSeq (dqHeader req), cmdOp = OpDelete,
     cmdKey = dqKey req, cmdValue = None, cmdExpect = None\<rparr>"

definition service_Delete ::
  "((nat \<Rightarrow> request) \<Rightarrow> opResult option) \<Rightarrow> (nat \<times> string) list \<Rightarrow> DeleteRequest \<Rightarrow> DeleteResponse option" where
  "service_Delete sub addrs req =
     (case sub (reqPropose (deleteCommand req)) of
        None \<Rightarrow> None
      | Some r \<Rightarrow>
          if orNotLeader r
          then Some \<lparr>dpHeader = redirectHeader addrs (orLeaderID r), dpFound = False\<rparr>
          else Some \<lparr>dpHeader = responseHeader0, dpFound = (resStatus (orRes r) = StatusOK)\<rparr>)"

definition casCommand :: "CasRequest \<Rightarrow> Command" where
  "casCommand req =
     (let cmd = \<lparr>cmdClientID = GetClientId (cqHeader req), cmdSeq = GetSeq (cqHeader req), cmdOp = OpCAS,
                 cmdKey = cqKey req, cmdValue = cqValue req, cmdExpect = None\<rparr>
      in if \<not> cqExpectAbsent req
         then (let e = cqExpect req; e = (if e = None then Some [] else e) in cmd\<lparr>cmdExpect := e\<rparr>)
         else cmd)"

definition service_Cas ::
  "((nat \<Rightarrow> request) \<Rightarrow> opResult option) \<Rightarrow> (nat \<times> string) list \<Rightarrow> CasRequest \<Rightarrow> CasResponse option" where
  "service_Cas sub addrs req =
     (case sub (reqPropose (casCommand req)) of
        None \<Rightarrow> None
      | Some r \<Rightarrow>
          if orNotLeader r
          then Some \<lparr>cpHeader = redirectHeader addrs (orLeaderID r), cpSwapped = False, cpCurrent = None, cpVersion = 0\<rparr>
          else Some \<lparr>cpHeader = responseHeader0, cpSwapped = (resStatus (orRes r) = StatusOK),
                     cpCurrent = (if resStatus (orRes r) = StatusCASMismatch then resValue (orRes r) else None),
                     cpVersion = resVersion (orRes r)\<rparr>)"

section \<open>Configuration\<close>

lemma withDefaults_ticks:
  assumes "scHeartbeatTicks c < 2 ^ 59"
  shows "0 < scHeartbeatTicks (withDefaults c) \<and> scHeartbeatTicks (withDefaults c) < scElectionTicks (withDefaults c) \<and>
    0 < scTickIntervalMillis (withDefaults c)"
  using assms by (auto simp: withDefaults_def int64_def Let_def)

lemma withDefaults_ids [simp]:
  "scID (withDefaults c) = scID c" "scPeers (withDefaults c) = scPeers c" "scUnsafeNoSync (withDefaults c) = scUnsafeNoSync c"
  by (auto simp: withDefaults_def Let_def)

text \<open>
  Whatever timing a server is configured with, including none, the defaults make it a
  timing that the core accepts: with a positive identifier that is among distinct positive
  peers, \<open>raft.NewNode\<close>'s validation passes. (Heartbeat intervals of more than \<open>2 ^ 59\<close> ticks
  would overflow the default.)
\<close>

lemma defaults_are_valid:
  assumes "scID c \<noteq> 0" and "map_of (scPeers c) (scID c) \<noteq> None" and "distinct (map fst (scPeers c))"
    and "0 \<notin> fst ` set (scPeers c)" and "scHeartbeatTicks c < 2 ^ 59"
  shows "validate (raftConfig (withDefaults c) rand) = None"
proof -
  have "scID c \<in> fst ` set (scPeers c)" using assms(2) by (meson map_of_eq_None_iff)
  with assms withDefaults_ticks [OF assms(5)] show ?thesis
    by (simp add: validate_None raftConfig_def)
qed

definition sample_server_config :: ServerConfig where
  "sample_server_config = \<lparr>scID = 1, scPeers = [(1, ''a''), (2, ''b'')], scClientAddrs = [(2, ''c'')],
     scTickIntervalMillis = 0, scElectionTicks = 0, scHeartbeatTicks = -7, scUnsafeNoSync = False\<rparr>"

lemma defaults_are_valid_example:
  "validate (raftConfig (withDefaults sample_server_config) (\<lambda>_. 0)) = None"
  by (rule defaults_are_valid) (simp_all add: sample_server_config_def)

section \<open>Answers\<close>

abbreviation answered :: "Result \<Rightarrow> opResult" where
  "answered r \<equiv> \<lparr>orRes = r, orNotLeader = False, orLeaderID = 0\<rparr>"

lemma follower_refuses:
  assumes "Node_State n \<noteq> StateLeader" and "mType m = MsgPropose \<or> mType m = MsgReadIndex"
  shows "Node_Step ops m n = Some (Some ErrNotLeader, n)"
  using assms by (auto simp: Node_Step_def Step_def stepPropose_def stepReadIndex_def Node_State_def)

text \<open>
  C32. A node that does not lead redirects. Writes and reads alike are answered at once with
  the node's idea of the leader, nothing enters its log and no waiter stays behind, and the
  handler turns the answer into a redirect that carries the leader's client address where the
  configuration knows it.
\<close>

theorem follower_redirects:
  assumes "Node_State (srvNode s) \<noteq> StateLeader"
  shows "handleRequest ops (reqPropose cmd ch) s = Some (respond ch (notLeaderResult s) s) \<and>
    handleRequest ops (reqRead key ch) s =
      Some (respond ch (notLeaderResult s) (s\<lparr>srvReadToken := srvReadToken s + 1\<rparr>)) \<and>
    service_Put (\<lambda>_. Some (notLeaderResult s)) addrs req =
      Some \<lparr>ppHeader = \<lparr>rhNotLeader = True, rhLeaderId = Node_Leader (srvNode s),
              rhLeaderAddr = (case map_of addrs (Node_Leader (srvNode s)) of None \<Rightarrow> [] | Some a \<Rightarrow> a)\<rparr>, ppVersion = 0\<rparr>"
  using follower_refuses [OF assms]
  by (auto simp: handleRequest_def respond_def notLeaderResult_def service_Put_def redirectHeader_def message0_def Let_def
      split: option.split)

definition sample_follower :: "Storage Server" where
  "sample_follower = \<lparr>srvNode = \<lparr>nr = \<lparr>cfg = raftConfig (withDefaults sample_server_config) (\<lambda>_. 0), rid = 1, rTerm = 1,
       rVote = 2, raftLog = \<lparr>lStorage = mem_New, lUnstable = \<lparr>uSnapshot = None, uEntries = [], uOffset = 1\<rparr>, lCommitted = 0, lApplied = 0\<rparr>,
       rstate = StateFollower, lead = 2, peers = [1, 2], prs = Map.empty, votes = [], msgs = [], readStates = [],
       rReadOnly = newReadOnly, pendingReadIndexMessages = [], electionElapsed = 0, heartbeatElapsed = 0,
       heartbeatTimeout = 5, randomizedElectionTimeout = 50, prevHardSt = hardState0, rndPos = 0\<rparr>, pendingReady = None\<rparr>,
     srvSM = NewStateMachine, srvApplied = 0, srvPrevLeader = False, srvReadToken = 0, srvPendingReads = [],
     srvWriteWaiters = [], srvReadWaiters = [], srvSent = [], srvResp = []\<rparr>"

theorem follower_redirects_witness:
  "map_option srvResp (handleRequest memOps (reqPropose (sample_put 1 1) 7) sample_follower) =
     Some [(7, \<lparr>orRes = zeroResult, orNotLeader = True, orLeaderID = 2\<rparr>)]"
proof -
  have "Node_State (srvNode sample_follower) \<noteq> StateLeader" by (simp add: sample_follower_def Node_State_def)
  from follower_redirects [OF this, of memOps "sample_put 1 1" 7] show ?thesis
    by (simp add: respond_def notLeaderResult_def sample_follower_def Node_Leader_def)
qed

text \<open>
  C31. Compare-and-swap over the wire. A request swaps exactly when the key is absent, if it
  asked for that, or holds the expected bytes, an unset expectation standing for the empty
  value; otherwise the store is unchanged and the response carries the current value.
\<close>

theorem service_Cas_semantics:
  assumes "execute m (casCommand req) = Some (r, m')"
  shows "\<exists>resp. service_Cas (\<lambda>_. Some (answered r)) addrs req = Some resp \<and> \<not> rhNotLeader (cpHeader resp) \<and>
    (cpSwapped resp \<longleftrightarrow>
       (case fmlookup (sm_data m) (cqKey req) of
          None \<Rightarrow> cqExpectAbsent req
        | Some rec \<Rightarrow> \<not> cqExpectAbsent req \<and>
            (case vrValue rec of None \<Rightarrow> [] | Some v \<Rightarrow> v) = (case cqExpect req of None \<Rightarrow> [] | Some v \<Rightarrow> v))) \<and>
    (cpSwapped resp \<longrightarrow> fmlookup (sm_data m') (cqKey req) = Some \<lparr>vrValue = cqValue req, vrVersion = cpVersion resp\<rparr>) \<and>
    (\<not> cpSwapped resp \<longrightarrow> m' = m \<and>
       cpCurrent resp = (case fmlookup (sm_data m) (cqKey req) of None \<Rightarrow> None | Some rec \<Rightarrow> vrValue rec))"
  using assms
  by (cases "fmlookup (sm_data m) (cqKey req)"; cases "cqExpectAbsent req"; cases "cqExpect req")
    (auto simp: service_Cas_def casCommand_def execute_def kv_cas_def fmget_def Let_def split: if_split_asm option.splits)

definition sample_cas_request :: CasRequest where
  "sample_cas_request = \<lparr>cqHeader = None, cqKey = [7], cqExpect = None, cqExpectAbsent = True, cqValue = Some [1]\<rparr>"

theorem service_Cas_semantics_witness:
  "\<exists>r m'. execute NewStateMachine (casCommand sample_cas_request) = Some (r, m') \<and>
     (\<exists>resp. service_Cas (\<lambda>_. Some (answered r)) [] sample_cas_request = Some resp \<and> cpSwapped resp)"
proof -
  obtain r m' where "execute NewStateMachine (casCommand sample_cas_request) = Some (r, m')"
    by (simp add: execute_def casCommand_def sample_cas_request_def Let_def) (metis surj_pair)
  with service_Cas_semantics [OF this, of "[]"] show ?thesis
    by (auto simp: sample_cas_request_def NewStateMachine_def)
qed

text \<open>
  C39. A stale write is answered as if it had been done. When a client's session is already
  past the sequence number of a put, the state machine refuses it (\<open>StatusStaleSeq\<close>) and stays
  as it is, and the handler's response has no trace of that: it is the response of a put
  that was performed, with version 0.
\<close>

theorem stale_put_looks_done:
  assumes "fmlookup (sm_sessions m) (GetClientId (pqHeader req)) = Some sess" and "GetSeq (pqHeader req) < LastSeq sess"
  shows "\<exists>r. Apply m (putCommand req) = Some (r, m) \<and> resStatus r = StatusStaleSeq \<and>
    service_Put (\<lambda>_. Some (answered r)) addrs req = Some \<lparr>ppHeader = responseHeader0, ppVersion = 0\<rparr>"
  using assms by (auto simp: Apply_def putCommand_def service_Put_def Let_def)

theorem stale_put_looks_done_witness:
  "\<exists>r. Apply (NewStateMachine\<lparr>sm_sessions := fmupd 1 \<lparr>LastSeq = 5, LastResult = zeroResult\<rparr> fmempty\<rparr>)
       (putCommand \<lparr>pqHeader = Some \<lparr>rqClientId = 1, rqSeq = 4\<rparr>, pqKey = [7], pqValue = None\<rparr>) =
     Some (r, NewStateMachine\<lparr>sm_sessions := fmupd 1 \<lparr>LastSeq = 5, LastResult = zeroResult\<rparr> fmempty\<rparr>) \<and>
     resStatus r = StatusStaleSeq"
proof -
  let ?m = "NewStateMachine\<lparr>sm_sessions := fmupd 1 \<lparr>LastSeq = 5, LastResult = zeroResult\<rparr> fmempty\<rparr>"
  let ?q = "\<lparr>pqHeader = Some \<lparr>rqClientId = 1, rqSeq = 4\<rparr>, pqKey = [7], pqValue = None\<rparr>"
  have "fmlookup (sm_sessions ?m) (GetClientId (pqHeader ?q)) = Some \<lparr>LastSeq = 5, LastResult = zeroResult\<rparr>"
      "GetSeq (pqHeader ?q) < LastSeq \<lparr>LastSeq = 5, LastResult = zeroResult\<rparr>"
    by (simp_all add: GetClientId_def GetSeq_def)
  from stale_put_looks_done [OF this] show ?thesis by blast
qed

end
