(* ===== verification/KV_Client.thy ===== *)
theory KV_Client
  imports KV_Service
begin

text \<open>
  The leader-chasing client of \<^verbatim>\<open>client/client.go\<close>.

  The network and the servers are parameters: \<open>rpc t i q\<close> is what attempt \<open>t\<close>, made to address \<open>i\<close>
  with request \<open>q\<close>, comes back with; \<open>expires t d\<close> says whether the caller's context ends while
  attempt \<open>t\<close> waits \<open>d\<close> milliseconds. The four operations of the source have the same retry
  loop, written out four times; here it is \<open>chase\<close>, which also lists the calls it makes.
  Indexing outside the list of connections panics (\<open>None\<close>). Connections are made lazily by
  gRPC; \<open>dials a\<close> says whether creating one for the address \<open>a\<close> succeeds.
\<close>

section \<open>State\<close>

record Client =
  clClientID :: uint64
  clSeq :: uint64
  clConns :: "string list"
  clByAddr :: "(string \<times> nat) list"
  clLeader :: nat
  clMaxTry :: nat

datatype 'e client_error = NoAddresses | DialFailed string | RpcError 'e | CtxErr | NoLeader nat

definition randomIDBase :: "bytes \<Rightarrow> uint64" where
  "randomIDBase b = push_bit 16 (and (word_of_nat (be_nat b)) 0xFFFFFFFFFFFF)"

fun dialLoop :: "(string \<Rightarrow> bool) \<Rightarrow> nat \<Rightarrow> string list \<Rightarrow> Client \<Rightarrow> 'e client_error + Client" where
  "dialLoop dials i [] c = Inr c"
| "dialLoop dials i (a # as) c =
     (if \<not> dials a then Inl (DialFailed a)
      else dialLoop dials (i + 1) as
             (c\<lparr>clConns := clConns c @ [a], clByAddr := AList.update a i (clByAddr c)\<rparr>))"

text \<open>\<open>Dial\<close> also advances the process-wide counter of client identifiers.\<close>

definition Dial :: "(string \<Rightarrow> bool) \<Rightarrow> string list \<Rightarrow> uint64 \<Rightarrow> ('e client_error + Client) \<times> uint64" where
  "Dial dials addrs counter =
     (if length addrs = 0 then (Inl NoAddresses, counter)
      else
        let counter = counter + 1
        in (dialLoop dials 0 addrs \<lparr>clClientID = counter, clSeq = 0, clConns = [], clByAddr = [], clLeader = 0,
                                    clMaxTry = length addrs * 4\<rparr>, counter))"

definition header :: "Client \<Rightarrow> RequestHeader \<times> Client" where
  "header c =
     (let c = c\<lparr>clSeq := clSeq c + 1\<rparr> in (\<lparr>rqClientId = clClientID c, rqSeq = clSeq c\<rparr>, c))"

definition advanceLeader :: "string \<Rightarrow> Client \<Rightarrow> Client" where
  "advanceLeader addr c =
     (case (if addr \<noteq> [] then map_of (clByAddr c) addr else None) of
        Some idx \<Rightarrow> c\<lparr>clLeader := idx\<rparr>
      | None \<Rightarrow> c\<lparr>clLeader := (clLeader c + 1) mod length (clConns c)\<rparr>)"

definition backoff :: "nat \<Rightarrow> nat" where
  "backoff try = (let d = 10 * (try + 1) in if 200 < d then 200 else d)"

definition sleepBackoff :: "(nat \<Rightarrow> nat \<Rightarrow> bool) \<Rightarrow> nat \<Rightarrow> bool" where
  "sleepBackoff expires try = (\<not> expires try (backoff try))"

section \<open>The retry loop\<close>

fun chase ::
  "(nat \<Rightarrow> nat \<Rightarrow> 'q \<Rightarrow> 'e + 'p) \<Rightarrow> (nat \<Rightarrow> nat \<Rightarrow> bool) \<Rightarrow> ('p \<Rightarrow> ResponseHeader) \<Rightarrow> 'q \<Rightarrow> nat \<Rightarrow> nat \<Rightarrow> 'e option \<Rightarrow>
     Client \<Rightarrow> (('e client_error + 'p) \<times> Client \<times> (nat \<times> 'q) list) option" where
  "chase rpc expires hdr q 0 try lst c =
     Some (Inl (case lst of None \<Rightarrow> NoLeader (clMaxTry c) | Some e \<Rightarrow> RpcError e), c, [])"
| "chase rpc expires hdr q (Suc left) try lst c =
     (if length (clConns c) \<le> clLeader c then None
      else
        let call = (clLeader c, q)
        in case rpc try (clLeader c) q of
             Inl e \<Rightarrow>
               (let c = advanceLeader [] c
                in if \<not> sleepBackoff expires try then Some (Inl CtxErr, c, [call])
                   else map_option (\<lambda>(r, c, calls). (r, c, call # calls))
                          (chase rpc expires hdr q left (try + 1) (Some e) c))
           | Inr resp \<Rightarrow>
               if rhNotLeader (hdr resp)
               then map_option (\<lambda>(r, c, calls). (r, c, call # calls))
                      (chase rpc expires hdr q left (try + 1) lst (advanceLeader (rhLeaderAddr (hdr resp)) c))
               else Some (Inr resp, c, [call]))"

section \<open>Operations\<close>

record GetResult =
  grFound :: bool
  grValue :: "bytes option"
  grVersion :: uint64

record CasResult =
  crSwapped :: bool
  crCurrent :: "bytes option"
  crVersion :: uint64

definition client_Put ::
  "(nat \<Rightarrow> nat \<Rightarrow> PutRequest \<Rightarrow> 'e + PutResponse) \<Rightarrow> (nat \<Rightarrow> nat \<Rightarrow> bool) \<Rightarrow> bytes \<Rightarrow> bytes option \<Rightarrow> Client \<Rightarrow>
     (('e client_error + uint64) \<times> Client \<times> (nat \<times> PutRequest) list) option" where
  "client_Put rpc expires key val c =
     (let (h, c) = header c
      in map_option (apfst (map_sum id ppVersion))
           (chase rpc expires ppHeader \<lparr>pqHeader = Some h, pqKey = key, pqValue = val\<rparr> (clMaxTry c) 0 None c))"

definition client_Get ::
  "(nat \<Rightarrow> nat \<Rightarrow> GetRequest \<Rightarrow> 'e + GetResponse) \<Rightarrow> (nat \<Rightarrow> nat \<Rightarrow> bool) \<Rightarrow> bytes \<Rightarrow> Client \<Rightarrow>
     (('e client_error + GetResult) \<times> Client \<times> (nat \<times> GetRequest) list) option" where
  "client_Get rpc expires key c =
     (let (h, c) = header c
      in map_option (apfst (map_sum id (\<lambda>p. \<lparr>grFound = gpFound p, grValue = gpValue p, grVersion = gpVersion p\<rparr>)))
           (chase rpc expires gpHeader \<lparr>gqHeader = Some h, gqKey = key\<rparr> (clMaxTry c) 0 None c))"

definition client_Delete ::
  "(nat \<Rightarrow> nat \<Rightarrow> DeleteRequest \<Rightarrow> 'e + DeleteResponse) \<Rightarrow> (nat \<Rightarrow> nat \<Rightarrow> bool) \<Rightarrow> bytes \<Rightarrow> Client \<Rightarrow>
     (('e client_error + bool) \<times> Client \<times> (nat \<times> DeleteRequest) list) option" where
  "client_Delete rpc expires key c =
     (let (h, c) = header c
      in map_option (apfst (map_sum id dpFound))
           (chase rpc expires dpHeader \<lparr>dqHeader = Some h, dqKey = key\<rparr> (clMaxTry c) 0 None c))"

definition client_Cas ::
  "(nat \<Rightarrow> nat \<Rightarrow> CasRequest \<Rightarrow> 'e + CasResponse) \<Rightarrow> (nat \<Rightarrow> nat \<Rightarrow> bool) \<Rightarrow> bytes \<Rightarrow> bytes option \<Rightarrow> bytes option \<Rightarrow> bool \<Rightarrow>
     Client \<Rightarrow> (('e client_error + CasResult) \<times> Client \<times> (nat \<times> CasRequest) list) option" where
  "client_Cas rpc expires key expect val expectAbsent c =
     (let (h, c) = header c
      in map_option (apfst (map_sum id (\<lambda>p. \<lparr>crSwapped = cpSwapped p, crCurrent = cpCurrent p, crVersion = cpVersion p\<rparr>)))
           (chase rpc expires cpHeader
              \<lparr>cqHeader = Some h, cqKey = key, cqExpect = expect, cqExpectAbsent = expectAbsent, cqValue = val\<rparr>
              (clMaxTry c) 0 None c))"

section \<open>The loop\<close>

definition client_wf :: "Client \<Rightarrow> bool" where
  "client_wf c \<longleftrightarrow> clConns c \<noteq> [] \<and> clLeader c < length (clConns c) \<and> clMaxTry c = length (clConns c) * 4 \<and>
     (\<forall>a i. map_of (clByAddr c) a = Some i \<longrightarrow> i < length (clConns c) \<and> clConns c ! i = a)"

lemma dialLoop_ok:
  "dialLoop dials i as c = (Inr c' :: 'e client_error + Client) \<Longrightarrow> i = length (clConns c) \<Longrightarrow>
   (\<forall>a j. map_of (clByAddr c) a = Some j \<longrightarrow> j < length (clConns c) \<and> clConns c ! j = a) \<Longrightarrow>
   clConns c' = clConns c @ as \<and> clLeader c' = clLeader c \<and> clMaxTry c' = clMaxTry c \<and> clClientID c' = clClientID c \<and>
   clSeq c' = clSeq c \<and>
   (\<forall>a j. map_of (clByAddr c') a = Some j \<longrightarrow> j < length (clConns c') \<and> clConns c' ! j = a)"
proof (induction as arbitrary: i c)
  case (Cons a as)
  let ?c = "c\<lparr>clConns := clConns c @ [a], clByAddr := AList.update a i (clByAddr c)\<rparr>"
  have "dialLoop dials (i + 1) as ?c = (Inr c' :: 'e client_error + Client)" using Cons.prems(1) by (simp split: if_split_asm)
  moreover have "\<forall>b j. map_of (clByAddr ?c) b = Some j \<longrightarrow> j < length (clConns ?c) \<and> clConns ?c ! j = b"
    using Cons.prems(2,3) by (auto simp: update_conv' nth_append less_Suc_eq split: if_split_asm)
  ultimately show ?case using Cons.IH [of "i + 1" ?c] Cons.prems(2) by auto
qed simp

lemma Dial_wf: "Dial dials addrs k = (Inr c, k') \<Longrightarrow> client_wf c \<and> clClientID c = k' \<and> clConns c = addrs"
  by (auto simp: Dial_def client_wf_def Let_def split: if_split_asm dest!: dialLoop_ok)

lemma advanceLeader_wf: "client_wf c \<Longrightarrow> client_wf (advanceLeader a c)"
  by (auto simp: advanceLeader_def client_wf_def split: option.split if_split_asm)

lemma advanceLeader_keeps [simp]:
  "clClientID (advanceLeader a c) = clClientID c" "clSeq (advanceLeader a c) = clSeq c"
  by (auto simp: advanceLeader_def split: option.split)

lemma advanceLeader_conns [simp]: "clConns (advanceLeader a c) = clConns c" "clByAddr (advanceLeader a c) = clByAddr c"
  by (auto simp: advanceLeader_def split: option.split)

text \<open>What every call of the loop satisfies: it returns, and its calls repeat one request.\<close>

definition chased ::
  "(nat \<Rightarrow> nat \<Rightarrow> 'q \<Rightarrow> 'e + 'p) \<Rightarrow> ('p \<Rightarrow> ResponseHeader) \<Rightarrow> 'q \<Rightarrow> nat \<Rightarrow> nat \<Rightarrow> Client \<Rightarrow>
     ('e client_error + 'p) \<times> Client \<times> (nat \<times> 'q) list \<Rightarrow> bool" where
  "chased rpc hdr q n t c res \<longleftrightarrow>
     (case res of (r, c', calls) \<Rightarrow>
        client_wf c' \<and> clClientID c' = clClientID c \<and> clSeq c' = clSeq c \<and> length calls \<le> n \<and>
        (\<forall>(i, q') \<in> set calls. q' = q \<and> i < length (clConns c)) \<and>
        (\<forall>resp. r = Inr resp \<longrightarrow> calls \<noteq> [] \<and> rpc (t + length calls - 1) (fst (last calls)) q = Inr resp \<and>
           \<not> rhNotLeader (hdr resp)))"

lemma chased_more:
  assumes "chased rpc hdr q n (Suc t) c' (r, c'', calls)" and "client_wf c"
    and "clConns c' = clConns c" "clClientID c' = clClientID c" "clSeq c' = clSeq c"
  shows "chased rpc hdr q (Suc n) t c (r, c'', (clLeader c, q) # calls)"
  using assms by (auto simp: chased_def client_wf_def)

lemma chase_total:
  "client_wf c \<Longrightarrow> \<exists>res. chase rpc expires hdr q n t lst c = Some res \<and> chased rpc hdr q n t c res"
proof (induction n arbitrary: t lst c)
  case (Suc n)
  have lead: "\<not> length (clConns c) \<le> clLeader c" using Suc.prems by (simp add: client_wf_def)
  have step: "\<exists>res. map_option (\<lambda>(r, c, calls). (r, c, (clLeader c0, q) # calls))
      (chase rpc expires hdr q n (t + 1) lst' (advanceLeader a c)) = Some res \<and> chased rpc hdr q (Suc n) t c res"
    if "clLeader c0 = clLeader c" for lst' a c0
  proof -
    obtain r c' calls where "chase rpc expires hdr q n (t + 1) lst' (advanceLeader a c) = Some (r, c', calls)"
        "chased rpc hdr q n (t + 1) (advanceLeader a c) (r, c', calls)"
      using Suc.IH [OF advanceLeader_wf [OF Suc.prems]] by (metis prod_cases3)
    with chased_more [of rpc hdr q n t "advanceLeader a c" r c' calls c] Suc.prems that show ?thesis by simp
  qed
  from step [of c] lead Suc.prems advanceLeader_wf [OF Suc.prems] show ?case
    by (cases "rpc t (clLeader c) q") (auto simp: Let_def chased_def client_wf_def)
qed (auto simp: chased_def)

text \<open>
  C34. A client operation always returns and never strays. For a client as \<open>Dial\<close> makes it
  and every operation leaves it, and any behaviour of network and servers, \<open>Put\<close> returns after at most four calls per address,
  every call goes to a dialled address and carries the same client identifier and sequence
  number, one above the previous operation's; a success is the answer of the last call, from
  a node that did not redirect.
\<close>

theorem client_Put_returns:
  assumes "client_wf c"
  shows "\<exists>r c' calls. client_Put rpc expires key val c = Some (r, c', calls) \<and>
    client_wf c' \<and> clSeq c' = clSeq c + 1 \<and> length calls \<le> 4 * length (clConns c) \<and>
    (\<forall>(i, q) \<in> set calls. i < length (clConns c) \<and>
       q = \<lparr>pqHeader = Some \<lparr>rqClientId = clClientID c, rqSeq = clSeq c + 1\<rparr>, pqKey = key, pqValue = val\<rparr>) \<and>
    (\<forall>v. r = Inr v \<longrightarrow> (\<exists>resp. rpc (length calls - 1) (fst (last calls)) (snd (last calls)) = Inr resp \<and>
       \<not> rhNotLeader (ppHeader resp) \<and> v = ppVersion resp))"
proof -
  let ?c = "c\<lparr>clSeq := clSeq c + 1\<rparr>"
  let ?q = "\<lparr>pqHeader = Some \<lparr>rqClientId = clClientID c, rqSeq = clSeq c + 1\<rparr>, pqKey = key, pqValue = val\<rparr>"
  have "client_wf ?c" and max: "clMaxTry ?c = 4 * length (clConns c)" using assms by (simp_all add: client_wf_def)
  then obtain r c' calls where res: "chase rpc expires ppHeader ?q (clMaxTry ?c) 0 None ?c = Some (r, c', calls)"
      "chased rpc ppHeader ?q (clMaxTry ?c) 0 ?c (r, c', calls)"
    using chase_total [of ?c rpc expires ppHeader ?q "clMaxTry ?c" 0 None] by auto
  have ret: "client_Put rpc expires key val c = Some (map_sum id ppVersion r, c', calls)"
    using res(1) by (simp add: client_Put_def header_def Let_def)
  have "snd (last calls) = ?q" if "calls \<noteq> []"
    using res(2) last_in_set [OF that] by (cases "last calls") (auto simp: chased_def)
  with res(2) max ret show ?thesis
    by (cases r) (auto simp: chased_def)
qed

definition sample_client :: Client where
  "sample_client = \<lparr>clClientID = 9, clSeq = 0, clConns = [''a'', ''b''], clByAddr = [(''a'', 0), (''b'', 1)],
     clLeader = 0, clMaxTry = 8\<rparr>"

lemma sample_client_wf: "client_wf sample_client"
  by (auto simp: client_wf_def sample_client_def split: if_split_asm)

theorem client_Put_returns_witness:
  "\<exists>r c' calls. client_Put (\<lambda>_ _ _. Inl ()) (\<lambda>_ _. False) [7] (Some [1]) sample_client = Some (r, c', calls) \<and>
     clSeq c' = 1 \<and> length calls \<le> 8 \<and> (\<forall>(i, q) \<in> set calls. pqHeader q = Some \<lparr>rqClientId = 9, rqSeq = 1\<rparr>)"
  using client_Put_returns [OF sample_client_wf, of "\<lambda>_ _ _. Inl ()" "\<lambda>_ _. False" "[7]" "Some [1]"]
  by (fastforce simp: sample_client_def)

section \<open>Finding the leader\<close>

text \<open>
  \<open>converges\<close>: every node but \<open>L\<close> fails, redirects without a usable hint, or redirects to \<open>L\<close>;
  \<open>L\<close> answers.
\<close>

definition converges :: "(nat \<Rightarrow> nat \<Rightarrow> 'q \<Rightarrow> 'e + 'p) \<Rightarrow> ('p \<Rightarrow> ResponseHeader) \<Rightarrow> 'q \<Rightarrow> Client \<Rightarrow> nat \<Rightarrow> bool" where
  "converges rpc hdr q c L \<longleftrightarrow> L < length (clConns c) \<and>
     (\<forall>t i resp. i \<noteq> L \<longrightarrow> rpc t i q = Inr resp \<longrightarrow> rhNotLeader (hdr resp) \<and>
        (rhLeaderAddr (hdr resp) = [] \<or> map_of (clByAddr c) (rhLeaderAddr (hdr resp)) \<in> {None, Some L})) \<and>
     (\<forall>t. \<exists>resp. rpc t L q = Inr resp \<and> \<not> rhNotLeader (hdr resp))"

definition distance :: "Client \<Rightarrow> nat \<Rightarrow> nat" where
  "distance c L = (if clLeader c \<le> L then L - clLeader c else L + length (clConns c) - clLeader c)"

lemma advanceLeader_closer:
  assumes "client_wf c" and "L < length (clConns c)" and "clLeader c \<noteq> L"
    and "a = [] \<or> map_of (clByAddr c) a \<in> {None, Some L}"
  shows "distance (advanceLeader a c) L < distance c L"
proof -
  have n: "clLeader c < length (clConns c)" using assms(1) by (simp add: client_wf_def)
  have robin: "distance (c\<lparr>clLeader := (clLeader c + 1) mod length (clConns c)\<rparr>) L < distance c L"
    using n assms(2,3) by (cases "clLeader c + 1 = length (clConns c)") (auto simp: distance_def)
  show ?thesis
    using robin n assms(2-4) by (auto simp: advanceLeader_def distance_def split: option.split)
qed

lemma chase_converges:
  assumes "client_wf c" and "converges rpc hdr q c L" and "distance c L < n" and "\<And>t d. \<not> expires t d"
  shows "\<exists>resp c' calls t'. chase rpc expires hdr q n t lst c = Some (Inr resp, c', calls) \<and>
    length calls \<le> distance c L + 1 \<and> rpc t' L q = Inr resp \<and> clLeader c' = L"
  using assms(1-3)
proof (induction n arbitrary: t lst c)
  case (Suc n)
  have lead: "\<not> length (clConns c) \<le> clLeader c" using Suc.prems(1) by (simp add: client_wf_def)
  show ?case
  proof (cases "clLeader c = L")
    case True
    then obtain resp where "rpc t L q = Inr resp" "\<not> rhNotLeader (hdr resp)"
      using Suc.prems(2) unfolding converges_def by blast
    with True lead show ?thesis by auto
  next
    case False
    have step: "\<exists>resp c' calls t'. map_option (\<lambda>(r, c, calls). (r, c, call # calls))
        (chase rpc expires hdr q n (t + 1) lst' (advanceLeader a c)) = Some (Inr resp, c', calls) \<and>
        length calls \<le> distance c L + 1 \<and> rpc t' L q = Inr resp \<and> clLeader c' = L"
      if a: "a = [] \<or> map_of (clByAddr c) a \<in> {None, Some L}" for a call lst'
    proof -
      have "L < length (clConns c)" using Suc.prems(2) by (simp add: converges_def)
      note closer = advanceLeader_closer [OF Suc.prems(1) this False a]
      moreover have "converges rpc hdr q (advanceLeader a c) L" using Suc.prems(2) by (simp add: converges_def)
      moreover have "distance (advanceLeader a c) L < n" using closer Suc.prems(3) by simp
      ultimately obtain resp c' calls t' where
          "chase rpc expires hdr q n (t + 1) lst' (advanceLeader a c) = Some (Inr resp, c', calls)"
          "length calls \<le> distance (advanceLeader a c) L + 1" "rpc t' L q = Inr resp" "clLeader c' = L"
        using Suc.IH [OF advanceLeader_wf [OF Suc.prems(1)]] by blast
      with closer show ?thesis by auto
    qed
    show ?thesis
    proof (cases "rpc t (clLeader c) q")
      case (Inl e)
      have "sleepBackoff expires t" using assms(4) by (simp add: sleepBackoff_def)
      with step [of "[]"] lead Inl show ?thesis by (simp add: Let_def)
    next
      case (Inr resp)
      with False Suc.prems(2) have "rhNotLeader (hdr resp)"
          "rhLeaderAddr (hdr resp) = [] \<or> map_of (clByAddr c) (rhLeaderAddr (hdr resp)) \<in> {None, Some L}"
        unfolding converges_def by blast+
      with step lead Inr show ?thesis by (simp add: Let_def)
    qed
  qed
qed simp

text \<open>
  C33. A client finds the leader. If one node answers, and every other node fails, redirects
  without a usable hint or redirects to it, then \<open>Get\<close> returns that node's answer after at most
  one call per address, and the next operation starts at that node.
\<close>

theorem client_Get_finds_leader:
  assumes "client_wf c"
    and "converges rpc gpHeader \<lparr>gqHeader = Some \<lparr>rqClientId = clClientID c, rqSeq = clSeq c + 1\<rparr>, gqKey = key\<rparr> c L"
    and "\<And>t d. \<not> expires t d"
  shows "\<exists>resp c' calls t q. client_Get rpc expires key c =
      Some (Inr \<lparr>grFound = gpFound resp, grValue = gpValue resp, grVersion = gpVersion resp\<rparr>, c', calls) \<and>
    rpc t L q = Inr resp \<and> length calls \<le> length (clConns c) \<and> clLeader c' = L"
proof -
  let ?c = "c\<lparr>clSeq := clSeq c + 1\<rparr>"
  let ?q = "\<lparr>gqHeader = Some \<lparr>rqClientId = clClientID c, rqSeq = clSeq c + 1\<rparr>, gqKey = key\<rparr>"
  have wf: "client_wf ?c" and conv: "converges rpc gpHeader ?q ?c L" using assms by (simp_all add: client_wf_def converges_def)
  then have d: "distance ?c L < length (clConns c)" by (auto simp: distance_def client_wf_def converges_def)
  then have "distance ?c L < clMaxTry ?c" using wf by (simp add: client_wf_def)
  from chase_converges [where expires = expires and t = 0 and lst = None, OF wf conv this assms(3)] obtain resp c' calls t' where
      "chase rpc expires gpHeader ?q (clMaxTry ?c) 0 None ?c = Some (Inr resp, c', calls)"
      "length calls \<le> distance ?c L + 1" "rpc t' L ?q = Inr resp" "clLeader c' = L" by blast
  with d show ?thesis
    by (intro exI [of _ resp] exI [of _ c'] exI [of _ calls] exI [of _ t'] exI [of _ ?q])
      (simp add: client_Get_def header_def Let_def)
qed

definition sample_rpc :: "nat \<Rightarrow> nat \<Rightarrow> GetRequest \<Rightarrow> unit + GetResponse" where
  "sample_rpc t i q =
     Inr \<lparr>gpHeader = (if i = 1 then responseHeader0 else \<lparr>rhNotLeader = True, rhLeaderId = 2, rhLeaderAddr = ''b''\<rparr>),
          gpFound = True, gpValue = Some [3], gpVersion = 4\<rparr>"

theorem client_Get_finds_leader_witness:
  "\<exists>c' calls. client_Get sample_rpc (\<lambda>_ _. False) [7] sample_client =
     Some (Inr \<lparr>grFound = True, grValue = Some [3], grVersion = 4\<rparr>, c', calls) \<and> length calls \<le> 2 \<and> clLeader c' = 1"
proof -
  have "converges sample_rpc gpHeader
      \<lparr>gqHeader = Some \<lparr>rqClientId = clClientID sample_client, rqSeq = clSeq sample_client + 1\<rparr>, gqKey = [7]\<rparr> sample_client 1"
    by (auto simp: converges_def sample_rpc_def sample_client_def)
  from client_Get_finds_leader [OF sample_client_wf this, of "\<lambda>_ _. False"] show ?thesis
    by (auto simp: sample_rpc_def sample_client_def)
qed

end
