(* ===== verification/Sim_Network.thy ===== *)
theory Sim_Network
  imports Complex_Main Raft_Types
begin

text \<open>
  The simulated message fabric, \<^verbatim>\<open>sim/network.go\<close>, with the configuration types of
  \<^verbatim>\<open>sim/sim.go\<close> it reads.

  The run's one \<open>*rand.Rand\<close> is the sequence of raw values its source produces and the number
  of values drawn so far; \<open>Intn\<close>, \<open>Int63n\<close> and \<open>Float64\<close> reduce the next value to their
  range. Rates are rationals where the code has float64. A hook is a function of the message and
  its endpoints, as its contract demands.
\<close>

section \<open>Randomness\<close>

record rng =
  rgRaw :: "nat \<Rightarrow> nat"
  rgPos :: nat

definition rng_next :: "rng \<Rightarrow> nat \<times> rng" where
  "rng_next g = (rgRaw g (rgPos g), g\<lparr>rgPos := rgPos g + 1\<rparr>)"

definition Intn :: "rng \<Rightarrow> int \<Rightarrow> int \<times> rng" where
  "Intn g n = (let (v, g) = rng_next g in (int v mod n, g))"

definition Float64 :: "rng \<Rightarrow> rat \<times> rng" where
  "Float64 g = (let (v, g) = rng_next g in (Fract (int v mod 2 ^ 53) (2 ^ 53), g))"

text \<open>\<open>Rand.Perm\<close> of the standard library: the inside-out shuffle.\<close>

fun permLoop :: "nat list \<Rightarrow> nat \<Rightarrow> nat \<Rightarrow> rng \<Rightarrow> nat list \<times> rng" where
  "permLoop m i 0 g = (m, g)"
| "permLoop m i (Suc k) g =
     (let (j, g) = Intn g (int i + 1);
          m = m[i := m ! nat j];
          m = m[nat j := i]
      in permLoop m (i + 1) k g)"

definition Perm :: "rng \<Rightarrow> nat \<Rightarrow> nat list \<times> rng" where
  "Perm g n = permLoop (replicate n 0) 0 n g"

section \<open>Configuration\<close>

type_synonym VirtualTime = int

definition Millisecond :: VirtualTime where
  "Millisecond = 1000 * 1000"

record NetworkConfig =
  ncDelayMin :: VirtualTime
  ncDelayMax :: VirtualTime
  ncDropRate :: rat
  ncDupRate :: rat

record Verdict =
  vdDrop :: bool
  vdDuplicate :: bool
  vdExtraDelay :: VirtualTime

type_synonym MessageHook = "nat \<Rightarrow> nat \<Rightarrow> Message \<Rightarrow> Verdict"

record network =
  nwCfg :: NetworkConfig
  nwPartition :: "(nat \<times> nat) list option"
  nwHook :: "MessageHook option"

definition newNetwork :: "NetworkConfig \<Rightarrow> network" where
  "newNetwork c = \<lparr>nwCfg = c, nwPartition = None, nwHook = None\<rparr>"

section \<open>Topology\<close>

definition groupOf :: "(nat \<times> nat) list \<Rightarrow> nat \<Rightarrow> nat" where
  "groupOf p i = (case map_of p i of None \<Rightarrow> 0 | Some g \<Rightarrow> g)"

definition connected :: "network \<Rightarrow> nat \<Rightarrow> nat \<Rightarrow> bool" where
  "connected n from to =
     (case nwPartition n of
        None \<Rightarrow> True
      | Some p \<Rightarrow> groupOf p from = groupOf p to)"

fun partitionLoop :: "nat \<Rightarrow> nat list list \<Rightarrow> (nat \<times> nat) list \<Rightarrow> (nat \<times> nat) list" where
  "partitionLoop gi [] p = p"
| "partitionLoop gi (g # gs) p = partitionLoop (gi + 1) gs (foldl (\<lambda>p i. (i, gi + 1) # p) p g)"

definition setPartition :: "nat list list \<Rightarrow> network \<Rightarrow> network" where
  "setPartition groups n =
     (if length groups = 0 then n\<lparr>nwPartition := None\<rparr>
      else n\<lparr>nwPartition := Some (partitionLoop 0 groups [])\<rparr>)"

definition heal :: "network \<Rightarrow> network" where
  "heal n = n\<lparr>nwPartition := None\<rparr>"

section \<open>Routing\<close>

record delivery =
  dlDeliver :: bool
  dlDelay :: VirtualTime
  dlDuplicate :: bool
  dlDupDelay :: VirtualTime

abbreviation delivery0 :: delivery where
  "delivery0 \<equiv> \<lparr>dlDeliver = False, dlDelay = 0, dlDuplicate = False, dlDupDelay = 0\<rparr>"

definition drawDelay :: "network \<Rightarrow> rng \<Rightarrow> VirtualTime \<times> rng" where
  "drawDelay n g =
     (let c = nwCfg n
      in if ncDelayMax c \<le> ncDelayMin c then (ncDelayMin c, g)
         else
           let span = ncDelayMax c - ncDelayMin c;
               (v, g) = Intn g (span + 1)
           in (ncDelayMin c + v, g))"

definition chance :: "rat \<Rightarrow> rng \<Rightarrow> bool \<times> rng" where
  "chance rate g = (if 0 < rate then let (f, g) = Float64 g in (f < rate, g) else (False, g))"

definition applyHook :: "Verdict \<Rightarrow> delivery \<Rightarrow> delivery" where
  "applyHook v d =
     (let d = (if vdDrop v then d\<lparr>dlDeliver := False, dlDuplicate := False\<rparr> else d);
          d = (if vdDuplicate v \<and> \<not> dlDuplicate d then d\<lparr>dlDuplicate := True, dlDupDelay := dlDelay d\<rparr> else d);
          d = d\<lparr>dlDelay := dlDelay d + vdExtraDelay v\<rparr>
      in if dlDuplicate d then d\<lparr>dlDupDelay := dlDupDelay d + vdExtraDelay v\<rparr> else d)"

definition route :: "network \<Rightarrow> rng \<Rightarrow> nat \<Rightarrow> nat \<Rightarrow> Message \<Rightarrow> delivery \<times> rng" where
  "route n g from to m =
     (if \<not> connected n from to then (delivery0, g)
      else
        let d = delivery0\<lparr>dlDeliver := True\<rparr>;
            (drop, g) = chance (ncDropRate (nwCfg n)) g;
            d = (if drop then d\<lparr>dlDeliver := False\<rparr> else d);
            (delay, g) = drawDelay n g;
            d = d\<lparr>dlDelay := delay\<rparr>;
            (dup, g) = chance (ncDupRate (nwCfg n)) g;
            (d, g) = (if dup then let (dd, g) = drawDelay n g in (d\<lparr>dlDuplicate := True, dlDupDelay := dd\<rparr>, g)
                      else (d, g))
        in case nwHook n of
             None \<Rightarrow> (d, g)
           | Some hook \<Rightarrow> (applyHook (hook from to m) d, g))"

section \<open>Draws stay in range\<close>

lemma Intn_range: "0 < n \<Longrightarrow> 0 \<le> fst (Intn g n) \<and> fst (Intn g n) < n"
  by (simp add: Intn_def rng_next_def)

lemma Float64_range: "0 \<le> fst (Float64 g) \<and> fst (Float64 g) < 1"
  by (simp add: Float64_def rng_next_def zero_le_Fract_iff Fract_less_one_iff)

lemma drawDelay_range:
  "fst (drawDelay n g) \<in> {ncDelayMin (nwCfg n)..max (ncDelayMin (nwCfg n)) (ncDelayMax (nwCfg n))}"
  using Intn_range [of "ncDelayMax (nwCfg n) - ncDelayMin (nwCfg n) + 1" g]
  by (auto simp: drawDelay_def Let_def split: prod.split)

lemma chance_never [simp]: "chance 0 g = (False, g)"
  by (simp add: chance_def)

lemma chance_always: "1 \<le> rate \<Longrightarrow> fst (chance rate g)"
  using Float64_range [of g] by (auto simp: chance_def split: prod.split)

section \<open>What routing may do\<close>

lemma partitionLoop_other:
  "i \<notin> set (concat gs) \<Longrightarrow> map_of (partitionLoop gi gs p) i = map_of p i"
proof (induction gs arbitrary: gi p)
  case (Cons g gs)
  have "map_of (foldl (\<lambda>p i. (i, gi + 1) # p) p g) i = map_of p i" if "i \<notin> set g"
    using that by (induction g arbitrary: p) auto
  with Cons show ?case by simp
qed simp

lemma partitionLoop_member:
  assumes "distinct (concat gs)" and "k < length gs" and "i \<in> set (gs ! k)"
  shows "map_of (partitionLoop gi gs p) i = Some (gi + k + 1)"
  using assms
proof (induction gs arbitrary: gi p k)
  case (Cons g gs)
  show ?case
  proof (cases k)
    case 0
    have "map_of (foldl (\<lambda>p i. (i, gi + 1) # p) p g) i = Some (gi + 1)" if "i \<in> set g"
      using that by (induction g arbitrary: p rule: rev_induct) auto
    moreover have "i \<in> set g" "i \<notin> set (concat gs)" using Cons.prems 0 by auto
    ultimately show ?thesis using 0 by (simp add: partitionLoop_other)
  next
    case (Suc k')
    with Cons.IH [of k' "gi + 1"] Cons.prems show ?thesis by simp
  qed
qed simp

lemma setPartition_connected:
  assumes "distinct (concat gs)" and "k < length gs" and "l < length gs" and "i \<in> set (gs ! k)" and "j \<in> set (gs ! l)"
  shows "connected (setPartition gs n) i j \<longleftrightarrow> k = l"
  using assms partitionLoop_member [of gs k i 0 "[]"] partitionLoop_member [of gs l j 0 "[]"]
  by (auto simp: connected_def setPartition_def groupOf_def)

text \<open>C35. A partition separates: between nodes of two different groups every message is discarded, with
  no duplicate and no random draw, whatever the rates and the hook say; healing
  reconnects them.\<close>

theorem partition_separates:
  assumes "distinct (concat gs)" and "k < length gs" and "l < length gs" and "k \<noteq> l"
    and "i \<in> set (gs ! k)" and "j \<in> set (gs ! l)"
  shows "route (setPartition gs n) g i j m = (delivery0, g) \<and> connected (heal (setPartition gs n)) i j"
  using setPartition_connected [OF assms(1,2,3,5,6), of n] assms(4)
  by (simp add: route_def) (simp add: connected_def heal_def)

theorem partition_separates_witness:
  "route (setPartition [[1], [2, 3]] (newNetwork \<lparr>ncDelayMin = 1, ncDelayMax = 5, ncDropRate = 0, ncDupRate = 1\<rparr>))
     \<lparr>rgRaw = (\<lambda>_. 4), rgPos = 9\<rparr> 1 3 message0 = (delivery0, \<lparr>rgRaw = (\<lambda>_. 4), rgPos = 9\<rparr>)"
  using partition_separates [of "[[1], [2, 3]]" 0 1 1 3 "newNetwork \<lparr>ncDelayMin = 1, ncDelayMax = 5, ncDropRate = 0, ncDupRate = 1\<rparr>"]
  by simp

text \<open>Without a hook, routing between connected nodes keeps to the configuration: delays lie between
  the bounds, a drop rate of zero loses nothing and one of one loses every primary, and a
  duplicate rate of zero duplicates nothing.\<close>

lemma route_within_config:
  assumes "connected n from to" and "nwHook n = None" and "route n g from to m = (d, g')"
  shows "ncDelayMin (nwCfg n) \<le> dlDelay d \<and> dlDelay d \<le> max (ncDelayMin (nwCfg n)) (ncDelayMax (nwCfg n)) \<and>
    (dlDuplicate d \<longrightarrow> ncDelayMin (nwCfg n) \<le> dlDupDelay d \<and>
       dlDupDelay d \<le> max (ncDelayMin (nwCfg n)) (ncDelayMax (nwCfg n))) \<and>
    (ncDropRate (nwCfg n) = 0 \<longrightarrow> dlDeliver d) \<and> (1 \<le> ncDropRate (nwCfg n) \<longrightarrow> \<not> dlDeliver d) \<and>
    (ncDupRate (nwCfg n) = 0 \<longrightarrow> \<not> dlDuplicate d)"
proof -
  obtain drop g1 where 1: "chance (ncDropRate (nwCfg n)) g = (drop, g1)" by force
  obtain delay g2 where 2: "drawDelay n g1 = (delay, g2)" by force
  obtain dup g3 where 3: "chance (ncDupRate (nwCfg n)) g2 = (dup, g3)" by force
  obtain dd g4 where 4: "drawDelay n g3 = (dd, g4)" by force
  have d: "d = (if dup then \<lparr>dlDeliver = \<not> drop, dlDelay = delay, dlDuplicate = True, dlDupDelay = dd\<rparr>
      else \<lparr>dlDeliver = \<not> drop, dlDelay = delay, dlDuplicate = False, dlDupDelay = 0\<rparr>)"
    using assms 1 2 3 4 by (auto simp: route_def Let_def split: if_splits)
  have "drop" if "1 \<le> ncDropRate (nwCfg n)" using chance_always [OF that, of g] 1 by simp
  with d 1 3 drawDelay_range [of n g1] drawDelay_range [of n g3] 2 4 show ?thesis by auto
qed

lemma route_within_config_example:
  "dlDelay (fst (route (newNetwork \<lparr>ncDelayMin = 1, ncDelayMax = 5, ncDropRate = 0, ncDupRate = 1\<rparr>)
     \<lparr>rgRaw = (\<lambda>_. 4), rgPos = 9\<rparr> 1 3 message0)) \<le> 5"
proof -
  let ?n = "newNetwork \<lparr>ncDelayMin = 1, ncDelayMax = 5, ncDropRate = 0, ncDupRate = 1\<rparr>"
  obtain d g' where r: "route ?n \<lparr>rgRaw = (\<lambda>_. 4), rgPos = 9\<rparr> 1 3 message0 = (d, g')" by force
  have "connected ?n 1 3" "nwHook ?n = None" by (simp_all add: connected_def newNetwork_def)
  from route_within_config [OF this r] have "dlDelay d \<le> 5" by (simp add: newNetwork_def)
  then show ?thesis by (simp only: r fst_conv)
qed

end
