(* ===== verification/Sim_Storage.thy ===== *)
theory Sim_Storage
  imports Mem_Storage
begin

text \<open>
  The storage wrapper of the simulator, \<^verbatim>\<open>trackedStorage\<close> in \<^verbatim>\<open>sim/node.go\<close>: it passes every call to
  the storage it embeds, counts successful mutations, and keeps a record of every index that
  became durably committed, for the invariant checker.

  The embedded storage is the parameter \<open>ops\<close> with its state \<open>tsInner\<close>; the source uses it with
  the in-memory storage.
\<close>

unbundle bit_operations_syntax

section \<open>Digests\<close>

definition fnv64 :: "bytes \<Rightarrow> uint64" where
  "fnv64 b = foldl (\<lambda>h c. (h XOR ucast c) * 1099511628211) 14695981039346656037 b"

section \<open>Tracked storage\<close>

record committedRec =
  crIndex :: nat
  crTerm :: nat
  crDigest :: uint64
  crCommitTerm :: nat
  crTermKnown :: bool
  crDataKnown :: bool

record 'st trackedStorage =
  tsInner :: 'st
  tsGeneration :: nat
  tsDurableCommit :: nat
  tsCommitted :: "committedRec list"

definition trackStorage :: "'st \<Rightarrow> 'st trackedStorage" where
  "trackStorage st = \<lparr>tsInner = st, tsGeneration = 0, tsDurableCommit = 0, tsCommitted = []\<rparr>"

definition tracked_AppendEntries ::
  "'st LogStorage \<Rightarrow> 'st trackedStorage \<Rightarrow> Entry list \<Rightarrow> (raft_error option \<times> 'st trackedStorage) option" where
  "tracked_AppendEntries ops s entries =
     (case opAppendEntries ops (tsInner s) entries of
        None \<Rightarrow> None
      | Some (Some e, st) \<Rightarrow> Some (Some e, s\<lparr>tsInner := st\<rparr>)
      | Some (None, st) \<Rightarrow> Some (None, s\<lparr>tsInner := st, tsGeneration := tsGeneration s + 1\<rparr>))"

definition snapshotRecs :: "nat \<Rightarrow> SnapshotMetadata \<Rightarrow> committedRec list" where
  "snapshotRecs from meta =
     map (\<lambda>index. \<lparr>crIndex = index, crTerm = (if index = smIndex meta then smTerm meta else 0), crDigest = 0,
                    crCommitTerm = 0, crTermKnown = (index = smIndex meta), crDataKnown = False\<rparr>)
       [from..<smIndex meta + 1]"

definition tracked_ApplySnapshot ::
  "'st LogStorage \<Rightarrow> 'st trackedStorage \<Rightarrow> Snapshot \<Rightarrow> raft_error option \<times> 'st trackedStorage" where
  "tracked_ApplySnapshot ops s snap =
     (case opApplySnapshot ops (tsInner s) snap of
        (Some e, st) \<Rightarrow> (Some e, s\<lparr>tsInner := st\<rparr>)
      | (None, st) \<Rightarrow>
          let s = s\<lparr>tsInner := st, tsGeneration := tsGeneration s + 1\<rparr>
          in if tsDurableCommit s < snIndex snap
             then (None, s\<lparr>tsCommitted := tsCommitted s @ snapshotRecs (tsDurableCommit s + 1) (snMetadata snap),
                           tsDurableCommit := snIndex snap\<rparr>)
             else (None, s))"

text \<open>
  \<open>Snapshot\<close>'s error is ignored, which leaves the zero snapshot. \<open>commitRecs\<close> is the loop over the
  newly committed indices; \<open>Inl\<close> is its error.
\<close>

definition commitRec :: "'st LogStorage \<Rightarrow> 'st \<Rightarrow> nat \<Rightarrow> nat \<Rightarrow> nat \<Rightarrow> raft_error + committedRec" where
  "commitRec ops st snapIndex commitTerm index =
     (let rec = \<lparr>crIndex = index, crTerm = 0, crDigest = 0, crCommitTerm = commitTerm, crTermKnown = False, crDataKnown = False\<rparr>
      in case opEntries ops st index (index + 1) of
           Inr [e] \<Rightarrow> Inr (rec\<lparr>crTerm := eTerm e, crDigest := fnv64 (eData e), crTermKnown := True, crDataKnown := True\<rparr>)
         | _ \<Rightarrow>
             let rec = (case opTerm ops st index of Inr t \<Rightarrow> rec\<lparr>crTerm := t, crTermKnown := True\<rparr> | Inl _ \<Rightarrow> rec)
             in if snapIndex < index then Inl (ErrStorage ''durable commit advanced to unavailable index'')
                else Inr rec)"

fun commitRecs :: "'st LogStorage \<Rightarrow> 'st \<Rightarrow> nat \<Rightarrow> nat \<Rightarrow> nat list \<Rightarrow> raft_error + committedRec list" where
  "commitRecs ops st snapIndex commitTerm [] = Inr []"
| "commitRecs ops st snapIndex commitTerm (i # is) =
     res_bind (commitRec ops st snapIndex commitTerm i) (\<lambda>rec.
     res_bind (commitRecs ops st snapIndex commitTerm is) (\<lambda>recs. Inr (rec # recs)))"

definition recordCommitAdvance ::
  "'st LogStorage \<Rightarrow> 'st trackedStorage \<Rightarrow> nat \<Rightarrow> nat \<Rightarrow> raft_error option \<times> 'st trackedStorage" where
  "recordCommitAdvance ops s commit commitTerm =
     (if commit \<le> tsDurableCommit s then
        let weak = (\<lambda>rec. crIndex rec \<le> commit \<and> crCommitTerm rec = 0 \<and> commitTerm \<noteq> 0);
            enriched = map (\<lambda>rec. rec\<lparr>crCommitTerm := commitTerm\<rparr>) (filter weak (tsCommitted s))
        in (None, s\<lparr>tsCommitted :=
              map (\<lambda>rec. if weak rec then rec\<lparr>crCommitTerm := commitTerm\<rparr> else rec) (tsCommitted s) @ enriched\<rparr>)
      else
        let snapIndex = (case opSnapshot ops (tsInner s) of Inl _ \<Rightarrow> 0 | Inr snap \<Rightarrow> snIndex snap)
        in case commitRecs ops (tsInner s) snapIndex commitTerm [tsDurableCommit s + 1..<commit + 1] of
             Inl e \<Rightarrow> (Some e, s)
           | Inr recs \<Rightarrow> (None, s\<lparr>tsCommitted := tsCommitted s @ recs, tsDurableCommit := commit\<rparr>))"

definition tracked_SetHardState ::
  "'st LogStorage \<Rightarrow> 'st trackedStorage \<Rightarrow> HardState \<Rightarrow> raft_error option \<times> 'st trackedStorage" where
  "tracked_SetHardState ops s hs =
     (case opSetHardState ops (tsInner s) hs of
        (Some e, st) \<Rightarrow> (Some e, s\<lparr>tsInner := st\<rparr>)
      | (None, st) \<Rightarrow>
          recordCommitAdvance ops (s\<lparr>tsInner := st, tsGeneration := tsGeneration s + 1\<rparr>) (hsCommit hs) (hsTerm hs))"

definition trackedOps :: "'st LogStorage \<Rightarrow> 'st trackedStorage LogStorage" where
  "trackedOps ops =
     \<lparr>opAppendEntries = tracked_AppendEntries ops, opSetHardState = tracked_SetHardState ops,
      opHardState = (\<lambda>s. opHardState ops (tsInner s)), opEntries = (\<lambda>s. opEntries ops (tsInner s)),
      opTerm = (\<lambda>s. opTerm ops (tsInner s)), opFirstIndex = (\<lambda>s. opFirstIndex ops (tsInner s)),
      opLastIndex = (\<lambda>s. opLastIndex ops (tsInner s)), opApplySnapshot = tracked_ApplySnapshot ops,
      opSnapshot = (\<lambda>s. opSnapshot ops (tsInner s))\<rparr>"

definition storageGeneration :: "'st trackedStorage \<Rightarrow> nat" where
  "storageGeneration s = tsGeneration s"

definition storageCommitted :: "'st trackedStorage \<Rightarrow> committedRec list" where
  "storageCommitted s = tsCommitted s"

section \<open>Runs\<close>

text \<open>The states of a tracked in-memory storage. A step is any call of the interface that changes it.\<close>

inductive tracked_step :: "Storage trackedStorage \<Rightarrow> Storage trackedStorage \<Rightarrow> bool" where
  ts_append: "contig n es \<Longrightarrow> tracked_AppendEntries memOps s es = Some (e, s') \<Longrightarrow> tracked_step s s'"
| ts_snapshot: "tracked_ApplySnapshot memOps s snap = (e, s') \<Longrightarrow> tracked_step s s'"
| ts_hard: "tracked_SetHardState memOps s hs = (e, s') \<Longrightarrow> tracked_step s s'"

definition tracked_inv :: "Storage trackedStorage \<Rightarrow> bool" where
  "tracked_inv s \<longleftrightarrow> storage_wf (tsInner s) \<and> crIndex ` set (tsCommitted s) = {1..tsDurableCommit s} \<and>
     mem_offset (tsInner s) \<le> tsDurableCommit s"

lemma commitRecs_index: "commitRecs ops st k t is = Inr recs \<Longrightarrow> map crIndex recs = is"
proof (induction "is" arbitrary: recs)
  case (Cons i "is")
  have "crIndex rec = i" if "commitRec ops st k t i = Inr rec" for rec
    using that by (auto simp: commitRec_def Let_def split: sum.split_asm list.split_asm if_split_asm)
  with Cons show ?case by (auto simp: res_bind_def split: sum.split_asm)
qed simp

lemma set_indices: "map crIndex recs = [a..<b] \<Longrightarrow> crIndex ` set recs = {a..<b}"
  by (metis set_map set_upt)

lemma upto_extend: "(a :: nat) \<le> b \<Longrightarrow> {1..a} \<union> {a + 1..<b + 1} = {1..b}"
  by auto

lemma recordCommitAdvance_inv:
  assumes "recordCommitAdvance ops s c t = (e, s')" and "crIndex ` set (tsCommitted s) = {1..tsDurableCommit s}"
  shows "crIndex ` set (tsCommitted s') = {1..tsDurableCommit s'} \<and> tsInner s' = tsInner s \<and>
    tsGeneration s' = tsGeneration s \<and> tsDurableCommit s \<le> tsDurableCommit s' \<and> (e = None \<longrightarrow> c \<le> tsDurableCommit s')"
proof (cases "c \<le> tsDurableCommit s")
  case True
  let ?weak = "\<lambda>rec. crIndex rec \<le> c \<and> crCommitTerm rec = 0 \<and> t \<noteq> 0"
  let ?all = "map (\<lambda>rec. if ?weak rec then rec\<lparr>crCommitTerm := t\<rparr> else rec) (tsCommitted s)"
  let ?more = "map (\<lambda>rec. rec\<lparr>crCommitTerm := t\<rparr>) (filter ?weak (tsCommitted s))"
  have "map crIndex ?all = map crIndex (tsCommitted s)" by simp
  then have "crIndex ` set ?all = crIndex ` set (tsCommitted s)" by (metis set_map)
  moreover have "crIndex ` set ?more \<subseteq> crIndex ` set (tsCommitted s)" by auto
  ultimately have "crIndex ` set (?all @ ?more) = crIndex ` set (tsCommitted s)" by (simp only: set_append image_Un Un_absorb2)
  with True assms show ?thesis by (auto simp: recordCommitAdvance_def Let_def)
next
  case False
  define k where "k = (case opSnapshot ops (tsInner s) of Inl _ \<Rightarrow> 0 | Inr snap \<Rightarrow> snIndex snap)"
  show ?thesis
  proof (cases "commitRecs ops (tsInner s) k t [tsDurableCommit s + 1..<c + 1]")
    case (Inl x)
    with False assms show ?thesis by (auto simp: recordCommitAdvance_def Let_def k_def [symmetric] simp del: upt_Suc)
  next
    case (Inr recs)
    then have "crIndex ` set recs = {tsDurableCommit s + 1..<c + 1}" by (rule set_indices [OF commitRecs_index])
    with upto_extend [of "tsDurableCommit s" c] assms(2) False
    have "crIndex ` set (tsCommitted s @ recs) = {1..c}" by (simp add: image_Un)
    with Inr False assms(1) show ?thesis by (auto simp: recordCommitAdvance_def Let_def k_def [symmetric] simp del: upt_Suc)
  qed
qed

lemma snapshotRecs_index: "map crIndex (snapshotRecs a meta) = [a..<smIndex meta + 1]"
  by (simp add: snapshotRecs_def o_def)

lemma tracked_append_inv:
  assumes "tracked_AppendEntries memOps s es = Some (e, s')" and "contig n es" and "tracked_inv s"
  shows "tracked_inv s' \<and> tsDurableCommit s' = tsDurableCommit s \<and> (s' = s \<or> tsGeneration s' = tsGeneration s + 1)"
proof -
  obtain st where st: "mem_AppendEntries (tsInner s) es = Some (e, st)"
      "s' = (if e = None then s\<lparr>tsInner := st, tsGeneration := tsGeneration s + 1\<rparr> else s\<lparr>tsInner := st\<rparr>)"
    using assms(1) by (auto simp: tracked_AppendEntries_def split: option.split_asm prod.split_asm)
  have "storage_wf st" using mem_AppendEntries_wf [OF _ assms(2) st(1)] assms(3) by (simp add: tracked_inv_def)
  moreover have "mem_offset st = mem_offset (tsInner s) \<and> (e \<noteq> None \<longrightarrow> st = tsInner s)"
    using st(1) by (auto simp: mem_AppendEntries_def mem_offset_def Let_def split: if_split_asm)
  ultimately show ?thesis using st(2) assms(3) by (auto simp: tracked_inv_def)
qed

lemma tracked_snapshot_inv:
  assumes "tracked_ApplySnapshot memOps s snap = (e, s')" and "tracked_inv s"
  shows "tracked_inv s' \<and> tsDurableCommit s \<le> tsDurableCommit s' \<and> (s' = s \<or> tsGeneration s' = tsGeneration s + 1)"
proof (cases "snIndex snap \<le> mem_offset (tsInner s)")
  case True
  with assms show ?thesis by (auto simp: tracked_ApplySnapshot_def mem_ApplySnapshot_def)
next
  case False
  then obtain st where st: "mem_ApplySnapshot (tsInner s) snap = (None, st)" and off: "mem_offset st = snIndex snap"
    by (simp add: mem_ApplySnapshot_def mem_offset_def Let_def)
  have wf: "storage_wf st" using mem_ApplySnapshot_wf [OF _ st] assms(2) by (simp add: tracked_inv_def)
  have "crIndex ` set (snapshotRecs (tsDurableCommit s + 1) (snMetadata snap)) = {tsDurableCommit s + 1..<snIndex snap + 1}"
    by (rule set_indices [OF snapshotRecs_index])
  with upto_extend [of "tsDurableCommit s" "snIndex snap"] assms(2)
  have "tsDurableCommit s < snIndex snap \<Longrightarrow>
      crIndex ` set (tsCommitted s @ snapshotRecs (tsDurableCommit s + 1) (snMetadata snap)) = {1..snIndex snap}"
    by (simp add: image_Un tracked_inv_def)
  with st off wf assms show ?thesis
    by (auto simp: tracked_ApplySnapshot_def tracked_inv_def Let_def split: if_split_asm)
qed

lemma tracked_hard_inv:
  assumes "tracked_SetHardState memOps s hs = (e, s')" and "tracked_inv s"
  shows "tracked_inv s' \<and> tsDurableCommit s \<le> tsDurableCommit s' \<and> tsGeneration s' = tsGeneration s + 1 \<and>
    stHardState (tsInner s') = hs \<and> (e = None \<longrightarrow> hsCommit hs \<le> tsDurableCommit s')"
proof -
  let ?s = "s\<lparr>tsInner := (tsInner s)\<lparr>stHardState := hs\<rparr>, tsGeneration := tsGeneration s + 1\<rparr>"
  have "recordCommitAdvance memOps ?s (hsCommit hs) (hsTerm hs) = (e, s')"
    using assms(1) by (simp add: tracked_SetHardState_def mem_SetHardState_def)
  from recordCommitAdvance_inv [OF this] assms(2) show ?thesis
    by (auto simp: tracked_inv_def storage_wf_def mem_offset_def)
qed

text \<open>
  C26. The tracked storage hides nothing from the checker. Along any calls of the storage
  interface, the durable log stays well formed, the generation changes whenever the storage
  does, the commit frontier never moves back, and every index up to it has a record, whether
  the commit was learnt from a hard state or from a snapshot.
\<close>

theorem tracked_storage_records_every_commit:
  assumes "tracked_step\<^sup>*\<^sup>* (trackStorage mem_New) s" and "tracked_step s s'"
  shows "(\<forall>i. 1 \<le> i \<longrightarrow> i \<le> tsDurableCommit s \<longrightarrow> (\<exists>rec \<in> set (storageCommitted s). crIndex rec = i)) \<and>
    tsDurableCommit s \<le> tsDurableCommit s' \<and> storageGeneration s \<le> storageGeneration s' \<and>
    (storageGeneration s' = storageGeneration s \<longrightarrow> s' = s) \<and> storage_wf (tsInner s')"
proof -
  have step: "tracked_inv u' \<and> tsDurableCommit u \<le> tsDurableCommit u' \<and> (u' = u \<or> tsGeneration u' = tsGeneration u + 1)"
    if "tracked_step u u'" "tracked_inv u" for u u'
    using that by (cases rule: tracked_step.cases) (auto dest: tracked_append_inv tracked_snapshot_inv tracked_hard_inv)
  have "tracked_inv (trackStorage mem_New)"
    by (simp add: tracked_inv_def trackStorage_def mem_New_wf) (simp add: mem_offset_def mem_New_def snapshot0_def)
  with assms(1) have inv: "tracked_inv s" by (induction rule: rtranclp_induct) (auto dest: step)
  then have "i \<in> crIndex ` set (tsCommitted s)" if "1 \<le> i" "i \<le> tsDurableCommit s" for i
    using that by (simp add: tracked_inv_def)
  with step [OF assms(2) inv] show ?thesis
    by (auto simp: storageCommitted_def storageGeneration_def tracked_inv_def image_iff)
qed

theorem tracked_storage_records_every_commit_witness:
  "\<exists>s'. tracked_step (trackStorage mem_New) s' \<and> storageGeneration (trackStorage mem_New :: Storage trackedStorage) \<le> storageGeneration s' \<and>
     storage_wf (tsInner s')"
proof -
  obtain e s' where "tracked_SetHardState memOps (trackStorage mem_New) hardState0 = (e, s')" by fastforce
  then have "tracked_step (trackStorage mem_New) s'" by (rule ts_hard)
  with tracked_storage_records_every_commit [OF rtranclp.rtrancl_refl this] show ?thesis by blast
qed

end
