(* ===== verification/Sim_Trace.thy ===== *)
theory Sim_Trace
  imports Sim_Storage KV_Codec "HOL-Library.Multiset"
begin

text \<open>
  The canonical trace of a simulation: the recorder of \<^verbatim>\<open>sim/trace.go\<close> and the renderers of
  \<^verbatim>\<open>sim/render.go\<close>.

  Text that the code only builds, compares and hashes is a \<open>string\<close>, a list of bytes written as
  characters. Virtual times are integers, converted to 64 bits where the code does so. The
  running SHA-256 state is the list of bytes written to it, \<open>rcHashed\<close>; the digest function of
  the standard library is the parameter \<open>sha256\<close> of \<open>trace_hash\<close>.
\<close>

section \<open>Text\<close>

text \<open>\<open>decimal\<close> is \<open>strconv.AppendUint\<close> in base ten, \<open>decimalInt\<close> is \<open>strconv.AppendInt\<close>.\<close>

fun decimal :: "nat \<Rightarrow> string" where
  "decimal n = (if n < 10 then [] else decimal (n div 10)) @ [char_of (48 + n mod 10)]"

declare decimal.simps [simp del]

definition decimalInt :: "int \<Rightarrow> string" where
  "decimalInt i = (if i < 0 then ''-'' @ decimal (nat (- i)) else decimal (nat i))"

definition byteText :: "bytes \<Rightarrow> string" where
  "byteText b = map (\<lambda>c. char_of (unat c)) b"

definition textBytes :: "string \<Rightarrow> bytes" where
  "textBytes s = map (\<lambda>c. word_of_nat (of_char c)) s"

section \<open>Rendering\<close>

definition msgTypeName :: "MessageType \<Rightarrow> string" where
  "msgTypeName t =
     (case t of
        MsgPropose \<Rightarrow> ''Propose''
      | MsgReadIndex \<Rightarrow> ''ReadIndex''
      | MsgPreVote \<Rightarrow> ''PreVote''
      | MsgPreVoteResp \<Rightarrow> ''PreVoteResp''
      | MsgVote \<Rightarrow> ''Vote''
      | MsgVoteResp \<Rightarrow> ''VoteResp''
      | MsgAppend \<Rightarrow> ''Append''
      | MsgAppendResp \<Rightarrow> ''AppendResp''
      | MsgHeartbeat \<Rightarrow> ''Heartbeat''
      | MsgHeartbeatResp \<Rightarrow> ''HeartbeatResp''
      | MsgInstallSnapshot \<Rightarrow> ''InstallSnapshot''
      | MsgInstallSnapshotResp \<Rightarrow> ''InstallSnapshotResp''
      | MsgUnknown \<Rightarrow> ''Unknown'')"

definition appendKV :: "string \<Rightarrow> string \<Rightarrow> nat \<Rightarrow> string" where
  "appendKV buf k v = buf @ k @ ''='' @ decimal v"

definition mix :: "uint64 \<Rightarrow> uint64 \<Rightarrow> uint64" where
  "mix acc v = (acc XOR v) * 1099511628211"

definition digestEntries :: "Entry list \<Rightarrow> uint64" where
  "digestEntries es =
     foldl (\<lambda>acc e.
        let acc = mix acc (word_of_nat (eTerm e));
            acc = mix acc (word_of_nat (eIndex e));
            acc = mix acc (ucast (eType e))
        in mix acc (fnv64 (eData e))) 1469598103934665603 es"

definition renderMessage :: "Message \<Rightarrow> string" where
  "renderMessage m =
     (let b = msgTypeName (mType m);
          b = appendKV b '' t'' (mTerm m);
          b = appendKV b '' li'' (mLogIndex m);
          b = appendKV b '' lt'' (mLogTerm m);
          b = appendKV b '' c'' (mCommit m);
          b = (if mReject m
               then appendKV (appendKV (b @ '' rej'') '' rh'' (mRejectHint m)) '' ht'' (mHintTerm m)
               else b);
          b = (if 0 < length (mEntries m)
               then appendKV (appendKV b '' ne'' (length (mEntries m))) '' ed'' (unat (digestEntries (mEntries m)))
               else b);
          b = (case mSnapshot m of
                 None \<Rightarrow> b
               | Some s \<Rightarrow>
                   appendKV (appendKV (appendKV b '' si'' (snIndex s)) '' st'' (snTerm s)) '' sd'' (unat (fnv64 (snData s))))
      in if 0 < length (mContext m) then appendKV b '' ctx'' (unat (fnv64 (mContext m))) else b)"

definition opName :: "OpType \<Rightarrow> string" where
  "opName oper =
     (if oper = OpGet then ''Get''
      else if oper = OpPut then ''Put''
      else if oper = OpDelete then ''Delete''
      else if oper = OpCAS then ''CAS''
      else ''Invalid'')"

definition renderCommand :: "Command \<Rightarrow> string" where
  "renderCommand c =
     (let b = opName (cmdOp c);
          b = appendKV b '' cid'' (unat (cmdClientID c));
          b = appendKV b '' seq'' (unat (cmdSeq c));
          b = b @ '' k='' @ byteText (cmdKey c);
          b = (case cmdValue c of None \<Rightarrow> b | Some v \<Rightarrow> appendKV b '' v'' (unat (fnv64 v)))
      in case cmdExpect c of None \<Rightarrow> b | Some x \<Rightarrow> appendKV b '' x'' (unat (fnv64 x)))"

text \<open>
  \<open>renderGroups\<close> sorts each group by exchanging neighbours: \<open>siftBack\<close> is the inner loop, which
  moves the element at position \<open>j\<close> down, and \<open>sortGroup\<close> the outer one.
\<close>

fun siftBack :: "nat list \<Rightarrow> nat \<Rightarrow> nat list" where
  "siftBack xs 0 = xs"
| "siftBack xs (Suc j) =
     (if xs ! j > xs ! Suc j then siftBack (xs[j := xs ! Suc j, Suc j := xs ! j]) j else xs)"

definition sortGroup :: "nat list \<Rightarrow> nat list" where
  "sortGroup g = foldl siftBack g [1..<length g]"

fun joined :: "string \<Rightarrow> string list \<Rightarrow> string" where
  "joined sep [] = []"
| "joined sep [s] = s"
| "joined sep (s # ss) = s @ sep @ joined sep ss"

definition renderGroups :: "nat list list \<Rightarrow> string" where
  "renderGroups groups = joined ''|'' (map (\<lambda>g. joined '','' (map decimal (sortGroup g))) groups)"

definition renderResult :: "Result \<Rightarrow> string" where
  "renderResult r =
     (let b = ''st='' @ decimal (unat (resStatus r));
          b = appendKV b '' ver'' (unat (resVersion r))
      in case resValue r of None \<Rightarrow> b | Some v \<Rightarrow> appendKV b '' v'' (unat (fnv64 v)))"

section \<open>The recorder\<close>

record TraceEvent =
  teAt :: int
  teSeq :: nat
  teKind :: string
  teNode :: nat
  teDetail :: string

record recorder =
  rcEvents :: "TraceEvent list"
  rcHashed :: bytes

definition newRecorder :: recorder where
  "newRecorder = \<lparr>rcEvents = [], rcHashed = []\<rparr>"

definition appendLenString :: "bytes \<Rightarrow> string \<Rightarrow> bytes" where
  "appendLenString buf s = buf @ be_bytes 4 (length s) @ textBytes s"

definition canonicalEvent :: "TraceEvent \<Rightarrow> bytes" where
  "canonicalEvent e =
     (let buf = be_bytes 8 (nat (teAt e mod 2 ^ 64));
          buf = buf @ be_bytes 8 (teSeq e);
          buf = buf @ be_bytes 8 (teNode e);
          buf = appendLenString buf (teKind e)
      in appendLenString buf (teDetail e))"

definition rec_record :: "recorder \<Rightarrow> TraceEvent \<Rightarrow> recorder" where
  "rec_record r e = r\<lparr>rcEvents := rcEvents r @ [e], rcHashed := rcHashed r @ canonicalEvent e\<rparr>"

definition rec_snapshot :: "recorder \<Rightarrow> TraceEvent list" where
  "rec_snapshot r = rcEvents r"

definition hexDigit :: "nat \<Rightarrow> char" where
  "hexDigit n = ''0123456789abcdef'' ! n"

definition hexEncode :: "bytes \<Rightarrow> string" where
  "hexEncode bs = concat (map (\<lambda>b. [hexDigit (unat b div 16), hexDigit (unat b mod 16)]) bs)"

definition trace_hash :: "(bytes \<Rightarrow> bytes) \<Rightarrow> recorder \<Rightarrow> string" where
  "trace_hash sha256 r = hexEncode (sha256 (rcHashed r))"

definition TraceEvent_String :: "TraceEvent \<Rightarrow> string" where
  "TraceEvent_String e =
     (let b = ''at='' @ decimalInt (teAt e) @ '' seq='' @ decimal (teSeq e) @ '' kind='' @ teKind e @
              '' node='' @ decimal (teNode e)
      in if teDetail e \<noteq> [] then b @ '' '' @ teDetail e else b)"

section \<open>Groups are rendered in sorted order\<close>

lemma siftBack_insort:
  assumes "j < length xs" and "sorted (take j xs)"
  shows "siftBack xs j = insort (xs ! j) (take j xs) @ drop (Suc j) xs"
  using assms
proof (induction j arbitrary: xs)
  case 0
  then show ?case by (cases xs) simp_all
next
  case (Suc j)
  have split: "take (Suc j) xs = take j xs @ [xs ! j]" using Suc.prems(1) by (simp add: take_Suc_conv_app_nth)
  have below: "\<forall>y \<in> set (take j xs). y \<le> xs ! j" and sorted: "sorted (take j xs)"
    using Suc.prems(2) by (simp_all add: split sorted_append)
  show ?case
  proof (cases "xs ! j > xs ! Suc j")
    case True
    let ?ys = "xs[j := xs ! Suc j, Suc j := xs ! j]"
    have "siftBack xs (Suc j) = insort (?ys ! j) (take j ?ys) @ drop (Suc j) ?ys"
      using True Suc.IH [of ?ys] Suc.prems(1) sorted by simp
    moreover have "drop (Suc j) ?ys = xs ! j # drop (Suc (Suc j)) xs"
      using Suc.prems(1) by (simp add: Cons_nth_drop_Suc [symmetric])
    moreover have "insort x (ys @ [y]) = insort x ys @ [y]" if "x < y" for x y :: nat and ys
      using that by (induction ys) auto
    ultimately show ?thesis using Suc.prems(1) True by (simp add: split)
  next
    case False
    have "sorted (take (Suc j) xs @ [xs ! Suc j])" using False below sorted by (auto simp: split sorted_append)
    then have "sort (xs ! Suc j # take (Suc j) xs) = take (Suc j) xs @ [xs ! Suc j]"
      by (intro properties_for_sort) simp_all
    with Suc.prems(2) have "insort (xs ! Suc j) (take (Suc j) xs) = take (Suc j) xs @ [xs ! Suc j]"
      by (simp add: sorted_sort_id)
    with False Suc.prems(1) show ?thesis by (simp add: Cons_nth_drop_Suc)
  qed
qed

lemma sortGroup_sort: "sortGroup g = sort g"
proof -
  have "foldl siftBack g [1..<k] = sort (take k g) @ drop k g" if "1 \<le> k" "k \<le> length g" for k
    using that
  proof (induction k rule: nat_induct_at_least)
    case base
    then show ?case by (cases g) simp_all
  next
    case (Suc k)
    let ?xs = "sort (take k g) @ drop k g"
    have "siftBack ?xs k = insort (?xs ! k) (take k ?xs) @ drop (Suc k) ?xs"
      using Suc.prems by (intro siftBack_insort) simp_all
    also have "\<dots> = sort (take (Suc k) g) @ drop (Suc k) g"
      using Suc.prems
      by (auto simp: nth_append take_Suc_conv_app_nth sorted_insort intro!: properties_for_sort [symmetric])
    finally show ?case using Suc by simp
  qed
  from this [of "length g"] show ?thesis by (cases g) (simp_all add: sortGroup_def)
qed

text \<open>The rendering of a partition does not depend on the order in which the members of a group are
  listed: groups with the same members give the same text.\<close>

lemma renderGroups_canonical:
  assumes "list_all2 (\<lambda>g h. mset g = mset h) gs hs"
  shows "renderGroups gs = renderGroups hs"
proof -
  have "map sortGroup gs = map sortGroup hs"
    using assms by (induction rule: list_all2_induct) (auto simp: sortGroup_sort intro: properties_for_sort [symmetric])
  then have "map (joined '','' \<circ> map decimal \<circ> sortGroup) gs = map (joined '','' \<circ> map decimal \<circ> sortGroup) hs"
    by (metis list.map_comp)
  then show ?thesis by (simp add: renderGroups_def comp_def)
qed

section \<open>The hashed bytes determine the trace\<close>

definition event_ok :: "TraceEvent \<Rightarrow> bool" where
  "event_ok e \<longleftrightarrow> - (2 ^ 63) \<le> teAt e \<and> teAt e < 2 ^ 63 \<and> teSeq e < 2 ^ 64 \<and> teNode e < 2 ^ 64 \<and>
     length (teKind e) < 2 ^ 32 \<and> length (teDetail e) < 2 ^ 32"

lemma textBytes_inj [simp]: "textBytes s = textBytes t \<longleftrightarrow> s = t"
proof -
  have "inj (\<lambda>c. word_of_nat (of_char c) :: byte)"
  proof (rule injI)
    fix c d :: char
    assume "(word_of_nat (of_char c) :: byte) = word_of_nat (of_char d)"
    then have "unat (word_of_nat (of_char c) :: byte) = unat (word_of_nat (of_char d) :: byte)" by simp
    then show "c = d" by (simp add: unat_of_nat_byte)
  qed
  then show ?thesis by (simp add: textBytes_def inj_map_eq_map)
qed

lemma length_textBytes [simp]: "length (textBytes s) = length s"
  by (simp add: textBytes_def)

lemma be_bytes_prefix:
  assumes "be_bytes n v @ xs = be_bytes n w @ ys" and "v < 256 ^ n" and "w < 256 ^ n"
  shows "v = w \<and> xs = ys"
  using assms by (simp add: be_bytes_inj)

lemma lenString_prefix:
  assumes "be_bytes 4 (length s) @ textBytes s @ xs = be_bytes 4 (length t) @ textBytes t @ ys"
    and "length s < 2 ^ 32" and "length t < 2 ^ 32"
  shows "s = t \<and> xs = ys"
proof -
  have "length s = length t" and "textBytes s @ xs = textBytes t @ ys"
    using be_bytes_prefix [OF assms(1)] assms(2,3) by simp_all
  then show ?thesis by simp
qed

lemma int64_inj:
  assumes "nat (a mod 2 ^ 64) = nat (b mod 2 ^ 64)"
    and "- (2 ^ 63) \<le> a" and "a < 2 ^ 63" and "- (2 ^ 63) \<le> b" and "b < (2 :: int) ^ 63"
  shows "a = b"
proof -
  have "a mod 2 ^ 64 = b mod 2 ^ 64" using assms(1) by (simp add: eq_nat_nat_iff)
  then obtain k where "a = b + 2 ^ 64 * k" by (metis mod_eqE)
  moreover from this assms have "- (2 ^ 64) < 2 ^ 64 * k" and "2 ^ 64 * k < (2 :: int) ^ 64" by simp_all
  ultimately show ?thesis by simp
qed

lemma canonicalEvent_prefix:
  assumes "canonicalEvent e @ xs = canonicalEvent f @ ys" and "event_ok e" and "event_ok f"
  shows "e = f \<and> xs = ys"
proof -
  let ?at = "\<lambda>e. nat (teAt e mod 2 ^ 64)"
  have lt: "?at g < 256 ^ 8" for g :: TraceEvent by (simp add: nat_less_iff)
  from assms(1)
  have "be_bytes 8 (?at e) @ be_bytes 8 (teSeq e) @ be_bytes 8 (teNode e) @
      be_bytes 4 (length (teKind e)) @ textBytes (teKind e) @ be_bytes 4 (length (teDetail e)) @ textBytes (teDetail e) @ xs =
    be_bytes 8 (?at f) @ be_bytes 8 (teSeq f) @ be_bytes 8 (teNode f) @
      be_bytes 4 (length (teKind f)) @ textBytes (teKind f) @ be_bytes 4 (length (teDetail f)) @ textBytes (teDetail f) @ ys"
    by (simp add: canonicalEvent_def appendLenString_def)
  note * = be_bytes_prefix [OF this lt lt]
  note * = * be_bytes_prefix [OF * [THEN conjunct2]]
  note * = * be_bytes_prefix [OF * (2) [THEN conjunct2]]
  note * = * lenString_prefix [OF * (3) [THEN conjunct2]]
  note * = * lenString_prefix [OF * (4) [THEN conjunct2]]
  show ?thesis using * assms(2,3) int64_inj [of "teAt e" "teAt f"] by (simp add: event_ok_def)
qed

lemma canonicalEvent_nonempty [simp]: "canonicalEvent e \<noteq> []"
  by (metis append_is_Nil_conv appendLenString_def canonicalEvent_def length_be_bytes length_0_conv zero_neq_numeral)

lemma canonical_trace_inj:
  assumes "concat (map canonicalEvent es) = concat (map canonicalEvent fs)"
    and "list_all event_ok es" and "list_all event_ok fs"
  shows "es = fs"
  using assms
proof (induction es arbitrary: fs)
  case Nil
  then show ?case by (cases fs) auto
next
  case (Cons e es)
  then obtain f fs' where fs: "fs = f # fs'"
    by (cases fs) auto
  with Cons.prems canonicalEvent_prefix [of e "concat (map canonicalEvent es)" f "concat (map canonicalEvent fs')"] Cons.IH
  show ?case by simp
qed

lemma recorder_run:
  "foldl rec_record newRecorder es = \<lparr>rcEvents = es, rcHashed = concat (map canonicalEvent es)\<rparr>"
  by (induction es rule: rev_induct) (simp_all add: rec_record_def newRecorder_def)

lemma hexDigit_inj:
  assumes "hexDigit a = hexDigit b" and "a < 16" and "b < 16"
  shows "a = b"
proof -
  have "distinct ''0123456789abcdef''" by simp
  from nth_eq_iff_index_eq [OF this, of a b] assms show ?thesis by (simp add: hexDigit_def)
qed

lemma hexEncode_inj: "hexEncode as = hexEncode bs \<Longrightarrow> as = bs"
proof (induction as arbitrary: bs)
  case Nil
  then show ?case by (cases bs) (simp_all add: hexEncode_def)
next
  case (Cons a as)
  then obtain b bs' where bs: "bs = b # bs'" by (cases bs) (simp_all add: hexEncode_def)
  have less: "unat c div 16 < 16" for c :: byte using unat_byte_less [of c] by simp
  from Cons.prems have "hexDigit (unat a div 16) = hexDigit (unat b div 16)" "hexDigit (unat a mod 16) = hexDigit (unat b mod 16)"
    and rest: "hexEncode as = hexEncode bs'" by (simp_all add: bs hexEncode_def)
  then have "unat a div 16 = unat b div 16" "unat a mod 16 = unat b mod 16" by (auto intro: hexDigit_inj less)
  then have "a = b" by (metis div_mult_mod_eq word_unat_eq_iff)
  with rest Cons.IH show ?case by (simp add: bs)
qed

text \<open>C28. The trace hash identifies the trace: two recorders that were fed events within the machine ranges
  and whose SHA-256 inputs do not collide report the same hash only if they recorded the same
  events, and the recorded events are the ones returned.\<close>

theorem trace_hash_identifies_trace:
  assumes "list_all event_ok es" and "list_all event_ok fs"
    and "sha256 (concat (map canonicalEvent es)) = sha256 (concat (map canonicalEvent fs)) \<Longrightarrow>
      concat (map canonicalEvent es) = concat (map canonicalEvent fs)"
  shows "(trace_hash sha256 (foldl rec_record newRecorder es) = trace_hash sha256 (foldl rec_record newRecorder fs)
      \<longleftrightarrow> es = fs) \<and> rec_snapshot (foldl rec_record newRecorder es) = es"
  using assms canonical_trace_inj [OF _ assms(1,2)]
  by (auto simp: recorder_run trace_hash_def rec_snapshot_def dest!: hexEncode_inj)

definition sample_trace :: "int \<Rightarrow> TraceEvent list" where
  "sample_trace t = [\<lparr>teAt = 5, teSeq = 1, teKind = ''tick'', teNode = 2, teDetail = []\<rparr>,
     \<lparr>teAt = t, teSeq = 2, teKind = ''heal'', teNode = 0, teDetail = []\<rparr>]"

theorem trace_hash_identifies_trace_witness:
  "trace_hash (\<lambda>b. b) (foldl rec_record newRecorder (sample_trace 7)) \<noteq>
   trace_hash (\<lambda>b. b) (foldl rec_record newRecorder (sample_trace 8))"
  using trace_hash_identifies_trace [of "sample_trace 7" "sample_trace 8" "\<lambda>b. b"]
  by (simp add: sample_trace_def event_ok_def)

lemma renderGroups_canonical_example:
  "renderGroups [[3, 1], [2]] = renderGroups [[1, 3], [2]] \<and> renderGroups [[1, 3], [2]] = ''1,3|2''"
  using renderGroups_canonical [of "[[3, 1], [2]]" "[[1, 3], [2]]"]
  by (simp add: renderGroups_def sortGroup_def decimal.simps numeral_2_eq_2 upt_rec) code_simp

end
