(* ===== verification/Sim_Queue.thy ===== *)
theory Sim_Queue
  imports Prelude "HOL-Library.Multiset" "HOL-Library.Product_Lexorder"
begin

text \<open>
  The simulator's timeline, \<^verbatim>\<open>sim/event.go\<close>: events ordered by (time, sequence number), kept in a
  binary heap. \<open>heap_up\<close> and \<open>heap_down\<close> are the sift loops of Go's \<^verbatim>\<open>container/heap\<close>, which the
  source instantiates with \<open>Less\<close>, \<open>Swap\<close>, \<open>Push\<close> and \<open>Pop\<close>.

  A scheduled closure is a value of the type \<open>'a\<close>.
\<close>

section \<open>Events and the heap\<close>

record 'a event =
  evAt :: int
  evSeq :: nat
  evKind :: string
  evNode :: nat
  evDetail :: string
  evAction :: 'a

type_synonym 'a eventQueue = "'a event list"

definition ev_less :: "'a event \<Rightarrow> 'a event \<Rightarrow> bool" where
  "ev_less a b = (if evAt a \<noteq> evAt b then evAt a < evAt b else evSeq a < evSeq b)"

definition Swap :: "'a eventQueue \<Rightarrow> nat \<Rightarrow> nat \<Rightarrow> 'a eventQueue" where
  "Swap items i j = (let a = items ! j; b = items ! i in items[i := a, j := b])"

function heap_up :: "'a eventQueue \<Rightarrow> nat \<Rightarrow> 'a eventQueue" where
  "heap_up q j =
     (let i = (j - 1) div 2
      in if i = j \<or> \<not> ev_less (q ! j) (q ! i) then q else heap_up (Swap q i j) i)"
  by pat_completeness auto
termination
  by (relation "measure snd") auto

function heap_down :: "'a eventQueue \<Rightarrow> nat \<Rightarrow> nat \<Rightarrow> 'a eventQueue" where
  "heap_down q i n =
     (let j1 = 2 * i + 1
      in if n \<le> j1 then q
         else let j2 = j1 + 1; j = (if j2 < n \<and> ev_less (q ! j2) (q ! j1) then j2 else j1)
              in if \<not> ev_less (q ! j) (q ! i) then q else heap_down (Swap q i j) j n)"
  by pat_completeness auto
termination
  by (relation "measure (\<lambda>(q, i, n). n - i)") (auto split: if_split_asm)

declare heap_up.simps [simp del] heap_down.simps [simp del]

definition queue_push :: "'a event \<Rightarrow> 'a eventQueue \<Rightarrow> 'a eventQueue" where
  "queue_push e q = (let q = q @ [e] in heap_up q (length q - 1))"

definition queue_pop :: "'a eventQueue \<Rightarrow> ('a event \<times> 'a eventQueue) option" where
  "queue_pop q =
     (if length q = 0 then None
      else
        let n = length q - 1;
            q = Swap q 0 n;
            q = heap_down q 0 n
        in Some (q ! n, take n q))"

definition queue_peek :: "'a eventQueue \<Rightarrow> 'a event option" where
  "queue_peek q = (if length q = 0 then None else Some (q ! 0))"

section \<open>The heap order\<close>

definition key :: "'a event \<Rightarrow> int \<times> nat" where
  "key e = (evAt e, evSeq e)"

definition par :: "nat \<Rightarrow> nat" where
  "par k = (k - 1) div 2"

lemma par_less: "0 < k \<Longrightarrow> par k < k"
  by (simp add: par_def)

lemma par_eq_self: "par k = k \<longleftrightarrow> k = 0"
  by (cases k) (auto simp: par_def)

lemma ev_less_key: "ev_less a b \<longleftrightarrow> key a < key b"
  by (auto simp: ev_less_def key_def less_prod_def)

lemma heap_up_unfold:
  "heap_up q j = (if j = 0 \<or> \<not> key (q ! j) < key (q ! par j) then q else heap_up (Swap q (par j) j) (par j))"
  by (subst heap_up.simps, unfold Let_def par_def [symmetric] ev_less_key par_eq_self, rule refl)

lemma Swap_items [simp]:
  shows "length (Swap q i j) = length q"
    and "i < length q \<and> j < length q \<longrightarrow> mset (Swap q i j) = mset q"
  using mset_swap [of j q i] by (auto simp: Swap_def)

lemma Swap_at:
  assumes "max i j < length q"
  shows "Swap q i j ! k = q ! (if k = j then i else if k = i then j else k)"
  using assms by (auto simp: Swap_def nth_list_update)

definition heap_on :: "nat \<Rightarrow> 'a eventQueue \<Rightarrow> bool" where
  "heap_on n q \<longleftrightarrow> (\<forall>k. 0 < k \<longrightarrow> k < n \<longrightarrow> key (q ! par k) \<le> key (q ! k))"

abbreviation heap :: "'a eventQueue \<Rightarrow> bool" where
  "heap q \<equiv> heap_on (length q) q"

lemma heap_min: "heap_on n q \<Longrightarrow> k < n \<Longrightarrow> key (q ! 0) \<le> key (q ! k)"
proof (induction k rule: less_induct)
  case (less k)
  show ?case
  proof (cases "k = 0")
    case False
    then have "key (q ! 0) \<le> key (q ! par k)" using less par_less [of k] by simp
    also have "\<dots> \<le> key (q ! k)" using less.prems False by (simp add: heap_on_def)
    finally show ?thesis .
  qed simp
qed

text \<open>A heap but for the edge above \<open>j\<close>, and a heap but for the edges below \<open>i\<close>.\<close>

definition up_ok :: "nat \<Rightarrow> 'a eventQueue \<Rightarrow> nat \<Rightarrow> bool" where
  "up_ok n q j \<longleftrightarrow>
     (\<forall>k. 0 < k \<longrightarrow> k < n \<longrightarrow> k \<noteq> j \<longrightarrow> key (q ! par k) \<le> key (q ! k)) \<and>
     (\<forall>k. 0 < k \<longrightarrow> k < n \<longrightarrow> par k = j \<longrightarrow> 0 < j \<longrightarrow> key (q ! par j) \<le> key (q ! k))"

definition down_ok :: "nat \<Rightarrow> 'a eventQueue \<Rightarrow> nat \<Rightarrow> bool" where
  "down_ok n q i \<longleftrightarrow>
     (\<forall>k. 0 < k \<longrightarrow> k < n \<longrightarrow> par k \<noteq> i \<longrightarrow> key (q ! par k) \<le> key (q ! k)) \<and>
     (\<forall>k. 0 < k \<longrightarrow> k < n \<longrightarrow> par k = i \<longrightarrow> 0 < i \<longrightarrow> key (q ! par i) \<le> key (q ! k))"

lemma up_step:
  assumes ok: "up_ok n q j" and j: "0 < j" "j < n" "n \<le> length q" and less: "key (q ! j) < key (q ! par j)"
  shows "up_ok n (Swap q (par j) j) (par j)"
proof -
  let ?i = "par j" and ?q = "Swap q (par j) j"
  have ij: "?i < j" using j by (simp add: par_less)
  have nth: "?q ! k = (if k = ?i then q ! j else if k = j then q ! ?i else q ! k)" for k
    using ij j by (simp add: Swap_at)
  have up: "key (q ! par k) \<le> key (q ! k)" if "0 < k" "k < n" "k \<noteq> j" for k using ok that by (simp add: up_ok_def)
  have grand: "key (q ! ?i) \<le> key (q ! k)" if "0 < k" "k < n" "par k = j" for k using ok that j by (simp add: up_ok_def)
  have 1: "key (?q ! par k) \<le> key (?q ! k)" if k: "0 < k" "k < n" "k \<noteq> ?i" for k
  proof (cases "k = j")
    case True
    then show ?thesis using less ij by (simp add: nth)
  next
    case False
    show ?thesis
    proof (cases "par k = j")
      case True
      then show ?thesis using grand [of k] k False ij by (simp add: nth)
    next
      case parj: False
      show ?thesis
      proof (cases "par k = ?i")
        case True
        then show ?thesis using up [of k] k False less by (simp add: nth)
      next
        case False
        then show ?thesis using up [of k] k \<open>k \<noteq> j\<close> parj by (simp add: nth)
      qed
    qed
  qed
  have 2: "key (?q ! par ?i) \<le> key (?q ! k)" if k: "0 < k" "k < n" "par k = ?i" "0 < ?i" for k
  proof -
    have "par ?i < ?i" using k(4) by (rule par_less)
    moreover have "key (q ! par ?i) \<le> key (q ! ?i)" using up [of ?i] k(4) ij j by simp
    moreover have "k \<noteq> ?i" using k par_eq_self [of k] by auto
    ultimately show ?thesis using up [of k] k ij by (cases "k = j") (auto simp: nth)
  qed
  from 1 2 show ?thesis by (simp add: up_ok_def)
qed

lemma heap_up_ok:
  "up_ok (length q) q j \<Longrightarrow> j < length q \<Longrightarrow> heap (heap_up q j) \<and> mset (heap_up q j) = mset q \<and> length (heap_up q j) = length q"
proof (induction j arbitrary: q rule: less_induct)
  case (less j)
  show ?case
  proof (cases "j = 0 \<or> \<not> key (q ! j) < key (q ! par j)")
    case True
    have "key (q ! par k) \<le> key (q ! k)" if "0 < k" "k < length q" for k
      using True that less.prems(1) by (cases "k = j") (auto simp: up_ok_def not_less)
    moreover have "heap_up q j = q" using True by (subst heap_up_unfold) simp
    ultimately show ?thesis by (simp add: heap_on_def)
  next
    case False
    then have j: "0 < j" "key (q ! j) < key (q ! par j)" by auto
    then have i: "par j < j" by (simp add: par_less)
    have "up_ok (length q) (Swap q (par j) j) (par j)"
      by (rule up_step [OF less.prems(1) j(1) less.prems(2) order.refl j(2)])
    moreover have "heap_up q j = heap_up (Swap q (par j) j) (par j)" using False by (subst heap_up_unfold) simp
    ultimately show ?thesis using less.IH [OF i, of "Swap q (par j) j"] less.prems(2) i by auto
  qed
qed

lemma heap_down_unfold:
  "heap_down q i n =
     (if n \<le> 2 * i + 1 then q
      else let j = (if 2 * i + 2 < n \<and> key (q ! (2 * i + 2)) < key (q ! (2 * i + 1)) then 2 * i + 2 else 2 * i + 1)
           in if key (q ! j) < key (q ! i) then heap_down (Swap q i j) j n else q)"
  by (subst heap_down.simps) (simp add: Let_def ev_less_key)

lemma par_children: "0 < k \<Longrightarrow> par k = i \<longleftrightarrow> k = 2 * i + 1 \<or> k = 2 * i + 2"
  by (auto simp: par_def)

lemma down_step:
  assumes ok: "down_ok n q i" and j: "par j = i" "0 < j" "j < n" "n \<le> length q"
    and child: "\<And>k. 0 < k \<Longrightarrow> k < n \<Longrightarrow> par k = i \<Longrightarrow> key (q ! j) \<le> key (q ! k)"
    and less: "key (q ! j) < key (q ! i)"
  shows "down_ok n (Swap q i j) j"
proof -
  let ?q = "Swap q i j"
  have ij: "i < j" using j par_less [of j] by simp
  have nth: "?q ! k = (if k = i then q ! j else if k = j then q ! i else q ! k)" for k
    using ij j by (simp add: Swap_at)
  have up: "key (q ! par k) \<le> key (q ! k)" if "0 < k" "k < n" "par k \<noteq> i" for k using ok that by (simp add: down_ok_def)
  have grand: "key (q ! par i) \<le> key (q ! k)" if "0 < k" "k < n" "par k = i" "0 < i" for k using ok that by (simp add: down_ok_def)
  have 1: "key (?q ! par k) \<le> key (?q ! k)" if k: "0 < k" "k < n" "par k \<noteq> j" for k
  proof (cases "par k = i")
    case True
    then have "k \<noteq> i" using par_eq_self [of k] k by auto
    then show ?thesis using child [of k] k True less by (cases "k = j") (auto simp: nth)
  next
    case False
    then have "k \<noteq> j" using j by auto
    show ?thesis
    proof (cases "k = i")
      case True
      then have "par i \<noteq> i" using k par_eq_self [of i] by simp
      with True show ?thesis using grand [of j] j k ij by (simp add: nth)
    next
      case ki: False
      then show ?thesis using up [of k] k False \<open>k \<noteq> j\<close> by (simp add: nth)
    qed
  qed
  have 2: "key (?q ! par j) \<le> key (?q ! k)" if k: "0 < k" "k < n" "par k = j" "0 < j" for k
  proof -
    have "j < k" using par_less [of k] k by simp
    then show ?thesis using up [of k] k ij j by (simp add: nth)
  qed
  from 1 2 show ?thesis by (simp add: down_ok_def)
qed

lemma heap_down_ok:
  "down_ok n q i \<Longrightarrow> n \<le> length q \<Longrightarrow>
     heap_on n (heap_down q i n) \<and> mset (heap_down q i n) = mset q \<and> length (heap_down q i n) = length q \<and>
     (\<forall>k. n \<le> k \<longrightarrow> heap_down q i n ! k = q ! k)"
proof (induction "n - i" arbitrary: q i rule: less_induct)
  case less
  define j where "j = (if 2 * i + 2 < n \<and> key (q ! (2 * i + 2)) < key (q ! (2 * i + 1)) then 2 * i + 2 else 2 * i + 1)"
  have j: "par j = i" "0 < j" by (auto simp: j_def par_def)
  have unfold: "heap_down q i n = (if n \<le> 2 * i + 1 then q else if key (q ! j) < key (q ! i) then heap_down (Swap q i j) j n else q)"
    by (subst heap_down_unfold, unfold Let_def j_def [symmetric], rule refl)
  have child: "key (q ! j) \<le> key (q ! k)" if "0 < k" "k < n" "par k = i" for k
    using that par_children [of k i] by (auto simp: j_def)
  show ?case
  proof (cases "2 * i + 1 < n \<and> key (q ! j) < key (q ! i)")
    case True
    then have jn: "j < n" by (auto simp: j_def)
    have ij: "i < j" using j par_less [of j] by simp
    have eq: "heap_down q i n = heap_down (Swap q i j) j n"
      using True by (subst unfold) simp
    have "n - j < n - i" using ij jn by simp
    moreover have "down_ok n (Swap q i j) j"
      by (rule down_step [OF less.prems(1) j jn less.prems(2)]) (use True child in blast)+
    moreover have "n \<le> length (Swap q i j)" using less.prems(2) by simp
    ultimately have IH: "heap_on n (heap_down (Swap q i j) j n) \<and> mset (heap_down (Swap q i j) j n) = mset (Swap q i j) \<and>
        length (heap_down (Swap q i j) j n) = length (Swap q i j) \<and>
        (\<forall>k. n \<le> k \<longrightarrow> heap_down (Swap q i j) j n ! k = Swap q i j ! k)"
      by (rule less.hyps)
    have "Swap q i j ! k = q ! k" if "n \<le> k" for k using that ij jn less.prems(2) by (simp add: Swap_at)
    with IH ij jn less.prems(2) show ?thesis unfolding eq by simp
  next
    case False
    have "key (q ! par k) \<le> key (q ! k)" if k: "0 < k" "k < n" for k
    proof (cases "par k = i")
      case True
      then have "2 * i + 1 < n" using k par_children [of k i] by auto
      then show ?thesis using False child [OF k True] True by (simp add: not_less)
    qed (use less.prems(1) k in \<open>simp add: down_ok_def\<close>)
    moreover have "heap_down q i n = q"
      using False by (subst unfold) auto
    ultimately show ?thesis by (simp add: heap_on_def)
  qed
qed

section \<open>The queue\<close>

lemma queue_push_ok: "heap q \<Longrightarrow> heap (queue_push e q) \<and> mset (queue_push e q) = add_mset e (mset q)"
proof -
  assume q: "heap q"
  have below: "par k < length q" if "0 < k" "k < Suc (length q)" for k using par_less [of k] that by simp
  have "key ((q @ [e]) ! par k) \<le> key ((q @ [e]) ! k)" if "0 < k" "k < Suc (length q)" "k \<noteq> length q" for k
    using q that below [of k] by (simp add: heap_on_def nth_append)
  moreover have "par k \<noteq> length q" if "0 < k" "k < Suc (length q)" for k using below [OF that] by simp
  ultimately have "up_ok (length (q @ [e])) (q @ [e]) (length q)" by (simp add: up_ok_def)
  from heap_up_ok [OF this] show ?thesis by (auto simp: queue_push_def)
qed

lemma queue_pop_ok:
  assumes "heap q" and "queue_pop q = Some (e, q')"
  shows "heap q' \<and> mset q = add_mset e (mset q') \<and> (\<forall>x \<in> set q. key e \<le> key x) \<and> e = q ! 0"
proof -
  define n where "n = length q - 1"
  have n: "length q = Suc n" using assms(2) by (auto simp: n_def queue_pop_def split: if_split_asm)
  let ?s = "Swap q 0 n" and ?d = "heap_down (Swap q 0 n) 0 n"
  have nth: "?s ! k = (if k = 0 then q ! n else if k = n then q ! 0 else q ! k)" for k
    using n by (simp add: Swap_at)
  have "down_ok n ?s 0"
    unfolding down_ok_def
  proof (intro conjI allI impI)
    fix k assume k: "0 < k" "k < n" "par k \<noteq> 0"
    then have "par k < n" using par_less [of k] by simp
    then show "key (?s ! par k) \<le> key (?s ! k)" using assms(1) k n by (simp add: nth heap_on_def)
  qed simp
  from heap_down_ok [OF this] n have d: "heap_on n ?d" "mset ?d = mset q" "length ?d = Suc n" "?d ! n = ?s ! n"
    by simp_all
  have e: "e = ?d ! n" "q' = take n ?d" using assms(2) n by (simp_all add: queue_pop_def Let_def)
  have "?d = q' @ [e]" using d(3) e by (metis lessI take_Suc_conv_app_nth take_all order.refl)
  then have "mset ?d = mset (q' @ [e])" by (rule arg_cong)
  then have "mset q = add_mset e (mset q')" using d(2) by simp
  moreover have "heap_on n (take n ?d)"
    unfolding heap_on_def
  proof (intro allI impI)
    fix k assume k: "0 < k" "k < n"
    then have "par k < n" using par_less [of k] by simp
    with k d(1) show "key (take n ?d ! par k) \<le> key (take n ?d ! k)" by (simp add: heap_on_def)
  qed
  then have "heap q'" using d(3) e(2) by simp
  moreover from this have "e = q ! 0" using e(1) d(4) nth by simp
  moreover have "key (q ! 0) \<le> key x" if "x \<in> set q" for x
    using that heap_min [OF assms(1)] by (auto simp: in_set_conv_nth)
  ultimately show ?thesis by blast
qed

lemma queue_pop_nonempty: "queue_pop q = None \<longleftrightarrow> q = []"
  by (simp add: queue_pop_def Let_def)

lemma length_queue_pop: "queue_pop q = Some (e, q') \<Longrightarrow> heap q \<Longrightarrow> length q = Suc (length q')"
  by (metis queue_pop_ok size_add_mset size_mset)

text \<open>Popping until the queue is empty.\<close>

fun popAll :: "nat \<Rightarrow> 'a eventQueue \<Rightarrow> 'a event list" where
  "popAll 0 q = []"
| "popAll (Suc n) q = (case queue_pop q of None \<Rightarrow> [] | Some (e, q') \<Rightarrow> e # popAll n q')"

lemma popAll_sorted:
  "heap q \<Longrightarrow> length q \<le> n \<Longrightarrow> mset (popAll n q) = mset q \<and> sorted_wrt (\<lambda>a b. key a \<le> key b) (popAll n q)"
proof (induction n arbitrary: q)
  case (Suc n)
  show ?case
  proof (cases "queue_pop q")
    case None
    with iffD1 [OF queue_pop_nonempty None] show ?thesis by simp
  next
    case (Some eq)
    obtain e q' where eq: "eq = (e, q')" by fastforce
    have p: "heap q'" "mset q = add_mset e (mset q')" "\<forall>x \<in> set q. key e \<le> key x"
      using queue_pop_ok [OF Suc.prems(1)] Some eq by blast+
    have IH: "mset (popAll n q') = mset q'" "sorted_wrt (\<lambda>a b. key a \<le> key b) (popAll n q')"
      using Suc.IH [OF p(1)] length_queue_pop [of q e q'] Some eq Suc.prems by simp_all
    have "set (popAll n q') \<subseteq> set q" using IH(1) p(2) by (metis mset_eq_setD set_mset_add_mset_insert set_mset_mset subset_insertI)
    with IH p Some eq show ?thesis by auto
  qed
qed simp

inductive queue_run :: "'a eventQueue \<Rightarrow> 'a event multiset \<Rightarrow> bool" where
  qr_empty: "queue_run [] {#}"
| qr_push: "queue_run q M \<Longrightarrow> queue_run (queue_push e q) (add_mset e M)"
| qr_pop: "queue_run q M \<Longrightarrow> queue_pop q = Some (e, q') \<Longrightarrow> queue_run q' (M - {#e#})"

lemma queue_run_ok: "queue_run q M \<Longrightarrow> heap q \<and> mset q = M"
proof (induction rule: queue_run.induct)
  case (qr_pop q M e q')
  then show ?case using queue_pop_ok [of q e q'] by auto
next
  case (qr_push q M e)
  then show ?case using queue_push_ok [of q e] by simp
qed (simp add: heap_on_def)


definition sample_event :: "int \<Rightarrow> nat \<Rightarrow> nat event" where
  "sample_event at s = \<lparr>evAt = at, evSeq = s, evKind = ''tick'', evNode = 1, evDetail = [], evAction = s\<rparr>"


end
