(* ===== verification/Sim_Checker.thy ===== *)
theory Sim_Checker
  imports Sim_Storage Raft_Node KV_Machine "HOL-Library.AList"
begin

text \<open>
  The simulator's view of a node (\<open>nodeState\<close> in \<^verbatim>\<open>sim/node.go\<close>) and its invariant checker,
  \<^verbatim>\<open>sim/invariants.go\<close>.

  A node's storage is one object that both the simulator and the node's log point to. While
  the node is up it lives in the log (\<open>lStorage\<close>), while it is down in \<open>nsDisk\<close>; \<open>ns_storage\<close> reads
  it. The maps of the checker are association lists; the map of a node's marks is listed in
  index order, where the code's iteration order is unspecified (each index is checked on its
  own). An error is a value of \<open>violation\<close>, with the data of its message.
\<close>

section \<open>Nodes\<close>

record appliedRec =
  arIndex :: nat
  arTerm :: nat
  arDigest :: uint64

type_synonym tstore = "Storage trackedStorage"

abbreviation simOps :: "tstore LogStorage" where
  "simOps \<equiv> trackedOps memOps"

record nodeState =
  nsId :: nat
  nsDisk :: tstore
  nsNode :: "tstore Node option"
  nsSM :: "StateMachine option"
  nsApplied :: nat
  nsAppliedLog :: "appliedRec list"
  nsPendingReads :: "ReadState list"
  nsCrashed :: bool

definition ns_storage :: "nodeState \<Rightarrow> tstore" where
  "ns_storage ns = (case nsNode ns of None \<Rightarrow> nsDisk ns | Some n \<Rightarrow> lStorage (raftLog (nr n)))"

type_synonym nodes = "nat \<Rightarrow> nodeState option"

definition leaderTerm :: "nodeState option \<Rightarrow> nat" where
  "leaderTerm ns =
     (case ns of
        None \<Rightarrow> 0
      | Some ns \<Rightarrow> if nsCrashed ns then 0 else (case nsNode ns of None \<Rightarrow> 0 | Some n \<Rightarrow> Node_Term n))"

text \<open>A live leader: present, not crashed, running, and in the leader state.\<close>

definition liveLeaderNode :: "nodeState option \<Rightarrow> bool" where
  "liveLeaderNode ns =
     (case ns of
        None \<Rightarrow> False
      | Some ns \<Rightarrow> \<not> nsCrashed ns \<and> (case nsNode ns of None \<Rightarrow> False | Some n \<Rightarrow> Node_State n = StateLeader))"

section \<open>The checker's state\<close>

record logMark =
  lmTerm :: nat
  lmDigest :: uint64
  lmCommitTerm :: nat
  lmNode :: nat
  lmTermKnown :: bool
  lmDataKnown :: bool

record structuralState =
  ssPresent :: bool
  ssApplied :: nat
  ssAppliedEntries :: nat
  ssStorageGen :: nat
  ssCommittedEvents :: nat
  ssCrashed :: bool
  ssLeader :: bool
  ssLeaderTerm :: nat

record durableCache =
  dcGeneration :: nat
  dcMarks :: "(nat \<times> logMark) list"
  dcSnapshotIndex :: nat
  dcSnapshotTerm :: nat
  dcSnapshotData :: uint64

record leaderCheck =
  lcGeneration :: nat
  lcCommittedVersion :: nat
  lcTerm :: nat

record invariants =
  ivPeers :: "nat list"
  ivLeaderByTerm :: "(nat \<times> nat) list"
  ivCommitted :: "(nat \<times> logMark) list"
  ivMarkCache :: "(nat \<times> durableCache) list"
  ivCommitCursor :: "(nat \<times> nat) list"
  ivSortedCommitted :: "nat list"
  ivSortedCommittedLen :: nat
  ivCommittedVersion :: nat
  ivLeaderCheckState :: "(nat \<times> leaderCheck) list"
  ivLastStructural :: "structuralState list"

datatype violation =
    TwoLeaders nat nat nat
  | AppliedDivergence nat nat nat
  | SnapshotDisagreement nat nat nat
  | LogMismatch nat nat nat nat
  | CommittedDivergence nat nat nat
  | LeaderConflict nat nat nat
  | LeaderSnapshotConflict nat nat nat
  | LeaderMissing nat nat nat
  | ReadFailed nat raft_error

definition newInvariants :: "nat list \<Rightarrow> invariants" where
  "newInvariants ps =
     \<lparr>ivPeers = ps, ivLeaderByTerm = [], ivCommitted = [], ivMarkCache = [], ivCommitCursor = [],
      ivSortedCommitted = [], ivSortedCommittedLen = 0, ivCommittedVersion = 0, ivLeaderCheckState = [],
      ivLastStructural = []\<rparr>"

section \<open>Election safety\<close>

fun electionLoop :: "nodes \<Rightarrow> nat list \<Rightarrow> (nat \<times> nat) list \<Rightarrow> violation option \<times> (nat \<times> nat) list" where
  "electionLoop nodes [] byTerm = (None, byTerm)"
| "electionLoop nodes (i # is) byTerm =
     (if \<not> liveLeaderNode (nodes i) then electionLoop nodes is byTerm
      else
        let t = leaderTerm (nodes i)
        in if t = 0 then electionLoop nodes is byTerm
           else case map_of byTerm t of
             Some prev \<Rightarrow> if prev \<noteq> i then (Some (TwoLeaders prev i t), byTerm)
                           else electionLoop nodes is (AList.update t i byTerm)
           | None \<Rightarrow> electionLoop nodes is (AList.update t i byTerm))"

definition checkElectionSafety :: "nodes \<Rightarrow> invariants \<Rightarrow> violation option \<times> invariants" where
  "checkElectionSafety nodes iv =
     (let (e, byTerm) = electionLoop nodes (ivPeers iv) (ivLeaderByTerm iv) in (e, iv\<lparr>ivLeaderByTerm := byTerm\<rparr>))"

section \<open>What changed\<close>

definition structuralOf :: "nodeState option \<Rightarrow> structuralState" where
  "structuralOf ns =
     (case ns of
        None \<Rightarrow> \<lparr>ssPresent = False, ssApplied = 0, ssAppliedEntries = 0, ssStorageGen = 0, ssCommittedEvents = 0,
                 ssCrashed = False, ssLeader = False, ssLeaderTerm = 0\<rparr>
      | Some n \<Rightarrow>
          let st = \<lparr>ssPresent = True, ssApplied = nsApplied n, ssAppliedEntries = length (nsAppliedLog n),
                    ssStorageGen = storageGeneration (ns_storage n),
                    ssCommittedEvents = length (storageCommitted (ns_storage n)), ssCrashed = nsCrashed n,
                    ssLeader = False, ssLeaderTerm = 0\<rparr>
          in if liveLeaderNode ns then st\<lparr>ssLeader := True, ssLeaderTerm := leaderTerm ns\<rparr> else st)"

definition structuralChanged :: "nodes \<Rightarrow> invariants \<Rightarrow> bool \<times> invariants" where
  "structuralChanged nodes iv =
     (let current = map (\<lambda>i. structuralOf (nodes i)) (ivPeers iv)
      in if current = ivLastStructural iv then (False, iv) else (True, iv\<lparr>ivLastStructural := current\<rparr>))"

section \<open>Applied prefixes\<close>

type_synonym applied_mark = "nat \<times> uint64 \<times> nat"

fun appliedRecs :: "nat \<Rightarrow> appliedRec list \<Rightarrow> (nat \<times> applied_mark) list \<Rightarrow> violation + (nat \<times> applied_mark) list" where
  "appliedRecs i [] seen = Inr seen"
| "appliedRecs i (rec # recs) seen =
     (case map_of seen (arIndex rec) of
        Some (t, d, n) \<Rightarrow>
          if t \<noteq> arTerm rec \<or> d \<noteq> arDigest rec then Inl (AppliedDivergence (arIndex rec) n i)
          else appliedRecs i recs seen
      | None \<Rightarrow> appliedRecs i recs (AList.update (arIndex rec) (arTerm rec, arDigest rec, i) seen))"

fun appliedLoop :: "nodes \<Rightarrow> nat list \<Rightarrow> (nat \<times> applied_mark) list \<Rightarrow> violation option" where
  "appliedLoop nodes [] seen = None"
| "appliedLoop nodes (i # is) seen =
     (case nodes i of
        None \<Rightarrow> appliedLoop nodes is seen
      | Some ns \<Rightarrow>
          (case appliedRecs i (nsAppliedLog ns) seen of
             Inl v \<Rightarrow> Some v
           | Inr seen \<Rightarrow> appliedLoop nodes is seen))"

definition checkAppliedPrefix :: "nodes \<Rightarrow> invariants \<Rightarrow> violation option" where
  "checkAppliedPrefix nodes iv = appliedLoop nodes (ivPeers iv) []"

section \<open>Durable logs\<close>

definition markOf :: "nat \<Rightarrow> Entry \<Rightarrow> logMark" where
  "markOf i e = \<lparr>lmTerm = eTerm e, lmDigest = fnv64 (eData e), lmCommitTerm = 0, lmNode = i,
     lmTermKnown = True, lmDataKnown = True\<rparr>"

text \<open>Reading a storage: the part of \<open>durableMarks\<close> behind the cache.\<close>

definition readMarks :: "tstore \<Rightarrow> nat \<Rightarrow> violation + durableCache" where
  "readMarks st i =
     (case opSnapshot simOps st of
        Inl e \<Rightarrow> Inl (ReadFailed i e)
      | Inr snap \<Rightarrow>
          let view = \<lparr>dcGeneration = storageGeneration st, dcMarks = [], dcSnapshotIndex = snIndex snap,
                      dcSnapshotTerm = snTerm snap, dcSnapshotData = fnv64 (snData snap)\<rparr>
          in case opLastIndex simOps st of
               Inl e \<Rightarrow> Inl (ReadFailed i e)
             | Inr lst \<Rightarrow>
                 (case opFirstIndex simOps st of
                    Inl e \<Rightarrow> Inl (ReadFailed i e)
                  | Inr first \<Rightarrow>
                      if 0 < first \<and> first \<le> lst then
                        (case opEntries simOps st first (lst + 1) of
                           Inl e \<Rightarrow> Inl (ReadFailed i e)
                         | Inr entries \<Rightarrow>
                             Inr (view\<lparr>dcMarks := fold (\<lambda>e. AList.update (eIndex e) (markOf i e)) entries []\<rparr>))
                      else Inr view))"

definition durableMarks :: "nodeState option \<Rightarrow> nat \<Rightarrow> invariants \<Rightarrow> (violation + durableCache) \<times> invariants" where
  "durableMarks ns i iv =
     (case ns of
        None \<Rightarrow> (Inr \<lparr>dcGeneration = 0, dcMarks = [], dcSnapshotIndex = 0, dcSnapshotTerm = 0, dcSnapshotData = 0\<rparr>, iv)
      | Some ns \<Rightarrow>
          let st = ns_storage ns;
              read = (case readMarks st i of
                        Inl v \<Rightarrow> (Inl v, iv)
                      | Inr view \<Rightarrow> (Inr view, iv\<lparr>ivMarkCache := AList.update i view (ivMarkCache iv)\<rparr>))
          in case map_of (ivMarkCache iv) i of
               Some cached \<Rightarrow> if dcGeneration cached = storageGeneration st then (Inr cached, iv) else read
             | None \<Rightarrow> read)"

fun matchMarks :: "nat \<Rightarrow> (nat \<times> logMark) list \<Rightarrow> (nat \<times> logMark) list \<Rightarrow> violation + (nat \<times> logMark) list" where
  "matchMarks i [] seen = Inr seen"
| "matchMarks i ((idx, m) # ms) seen =
     (case map_of seen idx of
        None \<Rightarrow> matchMarks i ms (AList.update idx m seen)
      | Some prev \<Rightarrow>
          if lmTerm prev = lmTerm m \<and> lmDigest prev \<noteq> lmDigest m then Inl (LogMismatch idx (lmTerm m) (lmNode prev) i)
          else matchMarks i ms (if lmTerm prev < lmTerm m then AList.update idx m seen else seen))"

fun matchingLoop ::
  "nodes \<Rightarrow> nat list \<Rightarrow> (nat \<times> logMark) list \<Rightarrow> (nat \<times> logMark) list \<Rightarrow> invariants \<Rightarrow> violation option \<times> invariants" where
  "matchingLoop nodes [] seen snaps iv = (None, iv)"
| "matchingLoop nodes (i # is) seen snaps iv =
     (case durableMarks (nodes i) i iv of
        (Inl v, iv) \<Rightarrow> (Some v, iv)
      | (Inr view, iv) \<Rightarrow>
          let mark = \<lparr>lmTerm = dcSnapshotTerm view, lmDigest = dcSnapshotData view, lmCommitTerm = 0, lmNode = i,
                      lmTermKnown = True, lmDataKnown = True\<rparr>;
              clash = (0 < dcSnapshotIndex view \<and>
                 (case map_of snaps (dcSnapshotIndex view) of
                    None \<Rightarrow> False
                  | Some prev \<Rightarrow> lmTerm prev \<noteq> lmTerm mark \<or> lmDigest prev \<noteq> lmDigest mark))
          in if clash
             then (Some (SnapshotDisagreement (dcSnapshotIndex view) (lmNode (the (map_of snaps (dcSnapshotIndex view)))) i), iv)
             else
               let snaps = (if 0 < dcSnapshotIndex view then AList.update (dcSnapshotIndex view) mark snaps else snaps)
               in case matchMarks i (dcMarks view) seen of
                    Inl v \<Rightarrow> (Some v, iv)
                  | Inr seen \<Rightarrow> matchingLoop nodes is seen snaps iv)"

definition checkLogMatching :: "nodes \<Rightarrow> invariants \<Rightarrow> violation option \<times> invariants" where
  "checkLogMatching nodes iv = matchingLoop nodes (ivPeers iv) [] [] iv"

section \<open>Leader completeness\<close>

text \<open>One durable commit record folded into the run-wide set.\<close>

definition foldRec :: "nat \<Rightarrow> committedRec \<Rightarrow> invariants \<Rightarrow> violation option \<times> invariants" where
  "foldRec i rec iv =
     (case map_of (ivCommitted iv) (crIndex rec) of
        Some prev \<Rightarrow>
          if lmTermKnown prev \<and> crTermKnown rec \<and> lmTerm prev \<noteq> crTerm rec \<or>
             lmDataKnown prev \<and> crDataKnown rec \<and> lmDigest prev \<noteq> crDigest rec
          then (Some (CommittedDivergence (crIndex rec) (lmNode prev) i), iv)
          else
            let learnTerm = (\<not> lmTermKnown prev \<and> crTermKnown rec);
                learnData = (\<not> lmDataKnown prev \<and> crDataKnown rec);
                lower = (lmCommitTerm prev = 0 \<or> crCommitTerm rec \<noteq> 0 \<and> crCommitTerm rec < lmCommitTerm prev);
                mark = (if learnTerm then prev\<lparr>lmTerm := crTerm rec, lmTermKnown := True\<rparr> else prev);
                mark = (if learnData then mark\<lparr>lmDigest := crDigest rec, lmDataKnown := True\<rparr> else mark);
                mark = (if lower then mark\<lparr>lmCommitTerm := crCommitTerm rec\<rparr> else mark)
            in if learnTerm \<or> learnData \<or> lower
               then (None, iv\<lparr>ivCommitted := AList.update (crIndex rec) mark (ivCommitted iv),
                              ivCommittedVersion := ivCommittedVersion iv + 1\<rparr>)
               else (None, iv)
      | None \<Rightarrow>
          (None, iv\<lparr>ivCommitted := AList.update (crIndex rec)
                      \<lparr>lmTerm = crTerm rec, lmDigest = crDigest rec, lmCommitTerm = crCommitTerm rec, lmNode = i,
                       lmTermKnown = crTermKnown rec, lmDataKnown = crDataKnown rec\<rparr> (ivCommitted iv),
                    ivCommittedVersion := ivCommittedVersion iv + 1\<rparr>))"

fun foldRecs :: "nat \<Rightarrow> committedRec list \<Rightarrow> invariants \<Rightarrow> violation option \<times> invariants" where
  "foldRecs i [] iv = (None, iv)"
| "foldRecs i (rec # recs) iv =
     (case foldRec i rec iv of (Some v, iv) \<Rightarrow> (Some v, iv) | (None, iv) \<Rightarrow> foldRecs i recs iv)"

fun foldPeers :: "nodes \<Rightarrow> nat list \<Rightarrow> invariants \<Rightarrow> violation option \<times> invariants" where
  "foldPeers nodes [] iv = (None, iv)"
| "foldPeers nodes (i # is) iv =
     (case nodes i of
        None \<Rightarrow> foldPeers nodes is iv
      | Some ns \<Rightarrow>
          let records = storageCommitted (ns_storage ns);
              cur = (case map_of (ivCommitCursor iv) i of None \<Rightarrow> 0 | Some c \<Rightarrow> c);
              cur = (if length records < cur then 0 else cur)
          in case foldRecs i (drop cur records) iv of
               (Some v, iv) \<Rightarrow> (Some v, iv)
             | (None, iv) \<Rightarrow>
                 foldPeers nodes is (iv\<lparr>ivCommitCursor := AList.update i (length records) (ivCommitCursor iv)\<rparr>))"

definition sortCommitted :: "invariants \<Rightarrow> invariants" where
  "sortCommitted iv =
     (if length (ivCommitted iv) \<noteq> ivSortedCommittedLen iv
      then iv\<lparr>ivSortedCommitted := sort (map fst (ivCommitted iv)), ivSortedCommittedLen := length (ivCommitted iv)\<rparr>
      else iv)"

text \<open>The committed indices against one leader's durable log. Looking up an absent key gives the zero mark.\<close>

definition logMark0 :: logMark where
  "logMark0 = \<lparr>lmTerm = 0, lmDigest = 0, lmCommitTerm = 0, lmNode = 0, lmTermKnown = False, lmDataKnown = False\<rparr>"

fun completeLoop :: "nat \<Rightarrow> nat \<Rightarrow> durableCache \<Rightarrow> (nat \<times> logMark) list \<Rightarrow> nat list \<Rightarrow> violation option" where
  "completeLoop i t view committed [] = None"
| "completeLoop i t view committed (idx # idxs) =
     (let want = (case map_of committed idx of None \<Rightarrow> logMark0 | Some m \<Rightarrow> m)
      in  if lmCommitTerm want \<noteq> 0 \<and> t < lmCommitTerm want then completeLoop i t view committed idxs
          else case map_of (dcMarks view) idx of
            Some got \<Rightarrow>
              if lmTermKnown want \<and> lmTerm got \<noteq> lmTerm want \<or> lmDataKnown want \<and> lmDigest got \<noteq> lmDigest want
              then Some (LeaderConflict i t idx)
              else completeLoop i t view committed idxs
          | None \<Rightarrow>
              if idx \<le> dcSnapshotIndex view then
                (if dcSnapshotIndex view = idx \<and> lmTermKnown want \<and> dcSnapshotTerm view \<noteq> lmTerm want
                 then Some (LeaderSnapshotConflict i t idx)
                 else completeLoop i t view committed idxs)
              else Some (LeaderMissing i t idx))"

fun leaderLoop :: "nodes \<Rightarrow> nat list \<Rightarrow> invariants \<Rightarrow> violation option \<times> invariants" where
  "leaderLoop nodes [] iv = (None, iv)"
| "leaderLoop nodes (i # is) iv =
     (if \<not> liveLeaderNode (nodes i) \<or> leaderTerm (nodes i) = 0 then leaderLoop nodes is iv
      else case nodes i of
        None \<Rightarrow> leaderLoop nodes is iv
      | Some ns \<Rightarrow>
          let t = leaderTerm (nodes i);
              lc = \<lparr>lcGeneration = storageGeneration (ns_storage ns), lcCommittedVersion = ivCommittedVersion iv, lcTerm = t\<rparr>
          in if map_of (ivLeaderCheckState iv) i = Some lc then leaderLoop nodes is iv
             else case durableMarks (nodes i) i iv of
               (Inl v, iv) \<Rightarrow> (Some v, iv)
             | (Inr view, iv) \<Rightarrow>
                 (case completeLoop i t view (ivCommitted iv) (ivSortedCommitted iv) of
                    Some v \<Rightarrow> (Some v, iv)
                  | None \<Rightarrow>
                      leaderLoop nodes is (iv\<lparr>ivLeaderCheckState := AList.update i lc (ivLeaderCheckState iv)\<rparr>)))"

definition checkLeaderCompleteness :: "nodes \<Rightarrow> invariants \<Rightarrow> violation option \<times> invariants" where
  "checkLeaderCompleteness nodes iv =
     (case foldPeers nodes (ivPeers iv) iv of
        (Some v, iv) \<Rightarrow> (Some v, iv)
      | (None, iv) \<Rightarrow> leaderLoop nodes (ivPeers iv) (sortCommitted iv))"

section \<open>All checks\<close>

definition check :: "nodes \<Rightarrow> invariants \<Rightarrow> violation option \<times> invariants" where
  "check nodes iv =
     (case checkElectionSafety nodes iv of
        (Some v, iv) \<Rightarrow> (Some v, iv)
      | (None, iv) \<Rightarrow>
          (case structuralChanged nodes iv of
             (False, iv) \<Rightarrow> (None, iv)
           | (True, iv) \<Rightarrow>
               (case checkAppliedPrefix nodes iv of
                  Some v \<Rightarrow> (Some v, iv)
                | None \<Rightarrow>
                    (case checkLogMatching nodes iv of
                       (Some v, iv) \<Rightarrow> (Some v, iv)
                     | (None, iv) \<Rightarrow> checkLeaderCompleteness nodes iv))))"

section \<open>Election safety of a checked run\<close>

definition live_leads :: "nodes \<Rightarrow> nat \<Rightarrow> nat \<Rightarrow> bool" where
  "live_leads nodes i t \<longleftrightarrow> liveLeaderNode (nodes i) \<and> leaderTerm (nodes i) = t \<and> t \<noteq> 0"

lemma electionLoop_passes:
  assumes "electionLoop nodes is L = (None, L')"
  shows "(\<forall>t j. map_of L t = Some j \<longrightarrow> map_of L' t = Some j) \<and> (\<forall>i \<in> set is. \<forall>t. live_leads nodes i t \<longrightarrow> map_of L' t = Some i)"
  using assms
proof (induction "is" arbitrary: L)
  case (Cons i "is")
  show ?case
  proof (cases "live_leads nodes i (leaderTerm (nodes i))")
    case True
    then have "electionLoop nodes is (AList.update (leaderTerm (nodes i)) i L) = (None, L')"
      and "map_of L (leaderTerm (nodes i)) \<in> {None, Some i}"
      using Cons.prems by (auto simp: live_leads_def Let_def split: option.split_asm if_split_asm)
    with Cons.IH [of "AList.update (leaderTerm (nodes i)) i L"]
    have IH: "\<forall>t j. ((map_of L)(leaderTerm (nodes i) \<mapsto> i)) t = Some j \<longrightarrow> map_of L' t = Some j"
        "\<forall>i \<in> set is. \<forall>t. live_leads nodes i t \<longrightarrow> map_of L' t = Some i"
      and old: "map_of L (leaderTerm (nodes i)) \<in> {None, Some i}" by (simp_all only: update_conv', blast+)
    have "map_of L' t = Some j" if "map_of L t = Some j" for t j
      using IH(1) old that by (cases "t = leaderTerm (nodes i)") auto
    moreover have "map_of L' t = Some i" if "live_leads nodes i t" for t using IH(1) that by (simp add: live_leads_def)
    ultimately show ?thesis using IH(2) by auto
  next
    case False
    then have "electionLoop nodes is L = (None, L')" using Cons.prems by (auto simp: live_leads_def Let_def split: if_split_asm)
    with Cons.IH False show ?thesis by (auto simp: live_leads_def)
  qed
qed simp

lemma electionLoop_fails:
  "electionLoop nodes is L = (Some v, L') \<Longrightarrow>
     \<exists>p i t. v = TwoLeaders p i t \<and> p \<noteq> i \<and> i \<in> set is \<and> live_leads nodes i t \<and>
       (map_of L t = Some p \<or> p \<in> set is \<and> live_leads nodes p t)"
proof (induction "is" arbitrary: L)
  case (Cons i "is")
  show ?case
  proof (cases "live_leads nodes i (leaderTerm (nodes i))")
    case False
    then have "electionLoop nodes is L = (Some v, L')" using Cons.prems by (auto simp: live_leads_def Let_def split: if_split_asm)
    from Cons.IH [OF this] show ?thesis by auto
  next
    case lead: True
    show ?thesis
    proof (cases "map_of L (leaderTerm (nodes i)) \<in> {None, Some i}")
      case True
      then have "electionLoop nodes is (AList.update (leaderTerm (nodes i)) i L) = (Some v, L')"
        using Cons.prems lead by (auto simp: live_leads_def Let_def)
      from Cons.IH [OF this] lead show ?thesis by (auto simp: update_conv' live_leads_def split: if_split_asm)
    next
      case False
      then show ?thesis using Cons.prems lead by (auto simp: live_leads_def Let_def)
    qed
  qed
qed simp

text \<open>A run of the checker over the states a simulation goes through; it stops at the first error.\<close>

fun checks :: "nodes list \<Rightarrow> invariants \<Rightarrow> violation option \<times> invariants" where
  "checks [] iv = (None, iv)"
| "checks (ns # nss) iv = (case check ns iv of (Some v, iv) \<Rightarrow> (Some v, iv) | (None, iv) \<Rightarrow> checks nss iv)"

lemma durableMarks_frame:
  "durableMarks ns i iv = (r, iv') \<Longrightarrow> ivPeers iv' = ivPeers iv \<and> ivLeaderByTerm iv' = ivLeaderByTerm iv"
  by (auto simp: durableMarks_def Let_def split: option.split_asm sum.split_asm if_split_asm)

lemma matchingLoop_frame:
  "matchingLoop nodes is seen snaps iv = (r, iv') \<Longrightarrow> ivPeers iv' = ivPeers iv \<and> ivLeaderByTerm iv' = ivLeaderByTerm iv"
  by (induction "is" arbitrary: seen snaps iv)
    (auto simp: Let_def split: prod.split_asm sum.split_asm if_split_asm option.split_asm dest!: durableMarks_frame)

lemma foldRec_frame:
  "foldRec i rec iv = (r, iv') \<Longrightarrow> ivPeers iv' = ivPeers iv \<and> ivLeaderByTerm iv' = ivLeaderByTerm iv"
  by (auto simp: foldRec_def Let_def split: option.split_asm if_split_asm)

lemma foldRecs_frame:
  "foldRecs i recs iv = (r, iv') \<Longrightarrow> ivPeers iv' = ivPeers iv \<and> ivLeaderByTerm iv' = ivLeaderByTerm iv"
  by (induction recs arbitrary: iv) (auto split: prod.split_asm option.split_asm dest!: foldRec_frame)

lemma foldPeers_frame:
  "foldPeers nodes is iv = (r, iv') \<Longrightarrow> ivPeers iv' = ivPeers iv \<and> ivLeaderByTerm iv' = ivLeaderByTerm iv"
  by (induction "is" arbitrary: iv) (auto simp: Let_def split: prod.split_asm option.split_asm dest!: foldRecs_frame)

lemma leaderLoop_frame:
  "leaderLoop nodes is iv = (r, iv') \<Longrightarrow> ivPeers iv' = ivPeers iv \<and> ivLeaderByTerm iv' = ivLeaderByTerm iv"
  by (induction "is" arbitrary: iv)
    (auto simp: Let_def split: prod.split_asm sum.split_asm option.split_asm if_split_asm dest!: durableMarks_frame)

lemma check_frame:
  assumes "check nodes iv = (r, iv')"
  shows "ivPeers iv' = ivPeers iv \<and>
    ivLeaderByTerm iv' = snd (electionLoop nodes (ivPeers iv) (ivLeaderByTerm iv)) \<and>
    (r = None \<longrightarrow> fst (electionLoop nodes (ivPeers iv) (ivLeaderByTerm iv)) = None)"
  using assms
  by (auto simp: check_def checkElectionSafety_def structuralChanged_def checkLogMatching_def checkLeaderCompleteness_def
      sortCommitted_def Let_def
      split: prod.split_asm option.split_asm if_split_asm bool.split_asm
      dest!: matchingLoop_frame foldPeers_frame leaderLoop_frame)

lemma checks_pass:
  assumes "checks nss iv = (None, iv')"
  shows "ivPeers iv' = ivPeers iv \<and> (\<forall>t j. map_of (ivLeaderByTerm iv) t = Some j \<longrightarrow> map_of (ivLeaderByTerm iv') t = Some j) \<and>
    (\<forall>ns \<in> set nss. \<forall>i \<in> set (ivPeers iv). \<forall>t. live_leads ns i t \<longrightarrow> map_of (ivLeaderByTerm iv') t = Some i)"
  using assms
proof (induction nss arbitrary: iv)
  case (Cons ns nss)
  obtain iv1 where 1: "check ns iv = (None, iv1)" "checks nss iv1 = (None, iv')"
    using Cons.prems by (auto split: prod.split_asm option.split_asm)
  let ?L = "snd (electionLoop ns (ivPeers iv) (ivLeaderByTerm iv))"
  have f: "ivPeers iv1 = ivPeers iv" "ivLeaderByTerm iv1 = ?L" "electionLoop ns (ivPeers iv) (ivLeaderByTerm iv) = (None, ?L)"
    using check_frame [OF 1(1)] by (auto simp: prod_eq_iff)
  note p = electionLoop_passes [OF f(3)]
  from Cons.IH [OF 1(2)] f(1,2) p show ?case by auto
qed simp

lemma electionLoop_origin:
  "electionLoop nodes is L = (r, L') \<Longrightarrow> map_of L' t = Some j \<Longrightarrow> map_of L t = Some j \<or> live_leads nodes j t"
proof (induction "is" arbitrary: L)
  case (Cons i "is")
  consider "electionLoop nodes is L = (r, L')" | "L' = L"
    | "electionLoop nodes is (AList.update (leaderTerm (nodes i)) i L) = (r, L')" "live_leads nodes i (leaderTerm (nodes i))"
    using Cons.prems(1) by (auto simp: live_leads_def Let_def split: if_split_asm option.split_asm)
  then show ?case
  proof cases
    case 3
    from Cons.IH [OF 3(1) Cons.prems(2)] 3(2) show ?thesis by (auto simp: update_conv' split: if_split_asm)
  qed (use Cons in auto)
qed simp

lemma checks_origin:
  "checks nss iv = (None, iv') \<Longrightarrow> map_of (ivLeaderByTerm iv') t = Some j \<Longrightarrow>
     map_of (ivLeaderByTerm iv) t = Some j \<or> (\<exists>ns \<in> set nss. live_leads ns j t)"
proof (induction nss arbitrary: iv)
  case (Cons ns nss)
  obtain iv1 where 1: "check ns iv = (None, iv1)" "checks nss iv1 = (None, iv')"
    using Cons.prems by (auto split: prod.split_asm option.split_asm)
  have "ivLeaderByTerm iv1 = snd (electionLoop ns (ivPeers iv) (ivLeaderByTerm iv))" using check_frame [OF 1(1)] by blast
  with electionLoop_origin [of ns "ivPeers iv" "ivLeaderByTerm iv" _ "ivLeaderByTerm iv1" t j] Cons.IH [OF 1(2) Cons.prems(2)]
  show ?case by (metis list.set_intros prod.collapse)
qed simp

text \<open>
  C24. A run that the checker passes has election safety. If the checks after every step of a
  simulation report nothing, then no two nodes of the cluster ever led the same term, at the
  same or at different steps.
\<close>

theorem passed_run_election_safety:
  assumes "checks nss (newInvariants ps) = (None, iv)" and "a \<in> set nss" and "b \<in> set nss"
    and "i \<in> set ps" and "j \<in> set ps" and "live_leads a i t" and "live_leads b j t"
  shows "i = j"
proof -
  have "\<forall>ns \<in> set nss. \<forall>i \<in> set ps. \<forall>t. live_leads ns i t \<longrightarrow> map_of (ivLeaderByTerm iv) t = Some i"
    using checks_pass [OF assms(1)] by (simp add: newInvariants_def)
  with assms(2-7) have "map_of (ivLeaderByTerm iv) t = Some i" "map_of (ivLeaderByTerm iv) t = Some j" by blast+
  then show ?thesis by simp
qed

text \<open>
  The election check raises no false alarm: an error names two different nodes and a
  term, the second node leads that term now, and the first leads it now or led it at an
  earlier check.
\<close>

lemma election_alarm_is_real:
  assumes "checks nss (newInvariants ps) = (None, iv)" and "checkElectionSafety ns iv = (Some v, iv')"
  shows "\<exists>p i t. v = TwoLeaders p i t \<and> p \<noteq> i \<and> live_leads ns i t \<and> (\<exists>ns' \<in> set (nss @ [ns]). live_leads ns' p t)"
proof -
  obtain L' where "electionLoop ns (ivPeers iv) (ivLeaderByTerm iv) = (Some v, L')"
    using assms(2) by (auto simp: checkElectionSafety_def split: prod.split_asm)
  from electionLoop_fails [OF this] obtain p i t where v: "v = TwoLeaders p i t" "p \<noteq> i" "live_leads ns i t"
      "map_of (ivLeaderByTerm iv) t = Some p \<or> live_leads ns p t" by blast
  with checks_origin [OF assms(1), of t p] show ?thesis by (auto simp: newInvariants_def)
qed

definition sample_raft :: "nat \<Rightarrow> nat \<Rightarrow> StateType \<Rightarrow> tstore raft" where
  "sample_raft i t st = \<lparr>cfg = \<lparr>cfgID = i, cfgPeers = [1, 2, 3], cfgElectionTicks = 10, cfgHeartbeatTicks = 1, cfgMaxEntriesPerAppend = 0,
       cfgPreVote = True, cfgRand = None\<rparr>, rid = i, rTerm = t, rVote = 0,
     raftLog = \<lparr>lStorage = trackStorage mem_New, lUnstable = \<lparr>uSnapshot = None, uEntries = [], uOffset = 1\<rparr>, lCommitted = 0, lApplied = 0\<rparr>,
     rstate = st, lead = i, peers = [1, 2, 3], prs = Map.empty, votes = [], msgs = [], readStates = [], rReadOnly = newReadOnly,
     pendingReadIndexMessages = [], electionElapsed = 0, heartbeatElapsed = 0, heartbeatTimeout = 1,
     randomizedElectionTimeout = 10, prevHardSt = hardState0, rndPos = 0\<rparr>"

definition sample_node :: "nat \<Rightarrow> nat \<Rightarrow> StateType \<Rightarrow> nodeState" where
  "sample_node i t st = \<lparr>nsId = i, nsDisk = trackStorage mem_New, nsNode = Some \<lparr>nr = sample_raft i t st, pendingReady = None\<rparr>,
     nsSM = None, nsApplied = 0, nsAppliedLog = [], nsPendingReads = [], nsCrashed = False\<rparr>"

definition sample_nodes :: "StateType \<Rightarrow> StateType \<Rightarrow> nodes" where
  "sample_nodes a b = [1 \<mapsto> sample_node 1 4 a, 2 \<mapsto> sample_node 2 4 b]"

lemmas sample_defs = sample_nodes_def sample_node_def sample_raft_def liveLeaderNode_def leaderTerm_def live_leads_def
  Node_State_def Node_Term_def

lemma sample_checks:
  "\<exists>iv. checks [sample_nodes StateLeader StateFollower] (newInvariants [1, 2]) = (None, iv) \<and> ivLeaderByTerm iv = [(4, 1)] \<and> ivPeers iv = [1, 2]"
proof -
  have el: "electionLoop (sample_nodes StateLeader StateFollower) [1, 2] [] = (None, [(4, 1)])"
    by (simp add: sample_defs)
  obtain r iv where ch: "check (sample_nodes StateLeader StateFollower) (newInvariants [1, 2]) = (r, iv)" by fastforce
  have "r = None"
    using ch by (simp add: check_def checkElectionSafety_def structuralChanged_def structuralOf_def checkAppliedPrefix_def
        checkLogMatching_def checkLeaderCompleteness_def durableMarks_def readMarks_def newInvariants_def sortCommitted_def
        sample_defs ns_storage_def trackedOps_def trackStorage_def storageGeneration_def storageCommitted_def
        mem_Snapshot_def mem_LastIndex_def mem_FirstIndex_def mem_New_def snapshot0_def mem_offset_def Let_def)
  with check_frame [OF ch] ch el show ?thesis by (simp add: newInvariants_def)
qed

theorem passed_run_election_safety_witness:
  "\<exists>iv. checks [sample_nodes StateLeader StateFollower] (newInvariants [1, 2]) = (None, iv) \<and>
     live_leads (sample_nodes StateLeader StateFollower) 1 4 \<and> \<not> live_leads (sample_nodes StateLeader StateFollower) 2 4"
proof -
  obtain iv where iv: "checks [sample_nodes StateLeader StateFollower] (newInvariants [1, 2]) = (None, iv)"
    using sample_checks by blast
  have lead: "live_leads (sample_nodes StateLeader StateFollower) 1 4" by (simp add: sample_defs)
  have "\<not> live_leads (sample_nodes StateLeader StateFollower) 2 4"
    using passed_run_election_safety [OF iv, of _ _ 1 2] lead by auto
  with iv lead show ?thesis by blast
qed

lemma election_alarm_is_real_example:
  "\<exists>iv iv' p i t. checks [sample_nodes StateLeader StateFollower] (newInvariants [1, 2]) = (None, iv) \<and>
     checkElectionSafety (sample_nodes StateFollower StateLeader) iv = (Some (TwoLeaders p i t), iv') \<and> p \<noteq> i"
proof -
  obtain iv where iv: "checks [sample_nodes StateLeader StateFollower] (newInvariants [1, 2]) = (None, iv)"
      "ivLeaderByTerm iv = [(4, 1)]" "ivPeers iv = [1, 2]"
    using sample_checks by blast
  obtain v iv' where v: "checkElectionSafety (sample_nodes StateFollower StateLeader) iv = (Some v, iv')"
    using iv(2,3) by (simp add: checkElectionSafety_def sample_defs)
  from election_alarm_is_real [OF iv(1) v] v iv(1) show ?thesis by blast
qed

section \<open>Applied prefixes agree\<close>

definition same_rec :: "appliedRec \<Rightarrow> appliedRec \<Rightarrow> bool" where
  "same_rec a b \<longleftrightarrow> (arIndex a = arIndex b \<longrightarrow> arTerm a = arTerm b \<and> arDigest a = arDigest b)"

definition agreeing :: "appliedRec list \<Rightarrow> bool" where
  "agreeing R \<longleftrightarrow> (\<forall>a \<in> set R. \<forall>b \<in> set R. same_rec a b)"

text \<open>\<open>seen\<close> marks exactly the indices of the records met so far.\<close>

definition marks :: "(nat \<times> applied_mark) list \<Rightarrow> appliedRec list \<Rightarrow> bool" where
  "marks seen R \<longleftrightarrow> agreeing R \<and>
     (\<forall>x. map_option (\<lambda>(t, d, n). (t, d)) (map_of seen x) =
        map_option (\<lambda>r. (arTerm r, arDigest r)) (find (\<lambda>r. arIndex r = x) R))"

lemma same_rec_sym: "same_rec a b \<longleftrightarrow> same_rec b a"
  unfolding same_rec_def by metis

lemma agreeing_snoc: "agreeing (R @ [r]) \<longleftrightarrow> agreeing R \<and> (\<forall>q \<in> set R. same_rec q r)"
proof -
  have "same_rec r r" by (simp add: same_rec_def)
  then show ?thesis unfolding agreeing_def by (simp add: ball_Un) (meson same_rec_sym)
qed

lemma find_snoc: "find P (xs @ [x]) = (case find P xs of None \<Rightarrow> (if P x then Some x else None) | Some y \<Rightarrow> Some y)"
  by (induction xs) auto

lemma appliedRecs_marks:
  "marks seen R \<Longrightarrow>
     (case appliedRecs i recs seen of Inl v \<Rightarrow> \<not> agreeing (R @ recs) | Inr seen' \<Rightarrow> marks seen' (R @ recs))"
proof (induction recs arbitrary: seen R)
  case (Cons rec recs)
  note m = Cons.prems [unfolded marks_def, THEN conjunct2, rule_format, of "arIndex rec"]
  show ?case
  proof (cases "map_of seen (arIndex rec)")
    case None
    then have fresh: "find (\<lambda>r. arIndex r = arIndex rec) R = None" using m by simp
    have "agreeing (R @ [rec])"
      using Cons.prems fresh by (simp add: marks_def agreeing_snoc find_None_iff same_rec_def)
    moreover have "map_option (\<lambda>(t, d, n). (t, d)) (map_of (AList.update (arIndex rec) (arTerm rec, arDigest rec, i) seen) x) =
        map_option (\<lambda>r. (arTerm r, arDigest r)) (find (\<lambda>r. arIndex r = x) (R @ [rec]))" for x
      using Cons.prems fresh by (cases "x = arIndex rec") (simp_all add: marks_def update_conv' find_snoc split: option.split)
    ultimately have "marks (AList.update (arIndex rec) (arTerm rec, arDigest rec, i) seen) (R @ [rec])"
      by (simp add: marks_def)
    from Cons.IH [OF this] None show ?thesis by (simp split: sum.split sum.split_asm)
  next
    case (Some a)
    obtain t d n where a: "a = (t, d, n)" by (metis prod_cases3)
    with m Some obtain q where q: "find (\<lambda>r. arIndex r = arIndex rec) R = Some q" "arTerm q = t" "arDigest q = d"
      by (cases "find (\<lambda>r. arIndex r = arIndex rec) R") auto
    then have q': "q \<in> set R" "arIndex q = arIndex rec" by (auto simp: find_Some_iff)
    show ?thesis
    proof (cases "t = arTerm rec \<and> d = arDigest rec")
      case True
      have "agreeing (R @ [rec])"
        unfolding agreeing_snoc
      proof (intro conjI ballI)
        show ag: "agreeing R" using Cons.prems by (simp add: marks_def)
        fix p assume "p \<in> set R"
        then have "same_rec p q" using ag q'(1) by (simp add: agreeing_def)
        then show "same_rec p rec" using q q' True by (simp add: same_rec_def)
      qed
      moreover have "find (\<lambda>r. arIndex r = x) (R @ [rec]) = find (\<lambda>r. arIndex r = x) R" for x
        using q(1) by (cases "x = arIndex rec") (auto simp: find_snoc split: option.split)
      ultimately have "marks seen (R @ [rec])" using Cons.prems by (simp add: marks_def)
      from Cons.IH [OF this] Some a True show ?thesis by (simp split: sum.split sum.split_asm)
    next
      case False
      have "q \<in> set (R @ rec # recs)" "rec \<in> set (R @ rec # recs)" using q' by simp_all
      moreover have "\<not> same_rec q rec" using False q q' by (auto simp: same_rec_def)
      ultimately have "\<not> agreeing (R @ rec # recs)" unfolding agreeing_def by blast
      with Some a False show ?thesis by auto
    qed
  qed
qed simp

definition appliedOf :: "nodes \<Rightarrow> nat \<Rightarrow> appliedRec list" where
  "appliedOf nodes i = (case nodes i of None \<Rightarrow> [] | Some ns \<Rightarrow> nsAppliedLog ns)"

lemma agreeing_prefix: "\<not> agreeing R \<Longrightarrow> \<not> agreeing (R @ S)"
  by (auto simp: agreeing_def)

lemma appliedLoop_exact:
  "marks seen R \<Longrightarrow> appliedLoop nodes is seen = None \<longleftrightarrow> agreeing (R @ concat (map (appliedOf nodes) is))"
proof (induction "is" arbitrary: seen R)
  case Nil
  then show ?case by (simp add: marks_def)
next
  case (Cons i "is")
  show ?case
  proof (cases "nodes i")
    case None
    with Cons show ?thesis by (simp add: appliedOf_def)
  next
    case (Some ns)
    then have own: "appliedOf nodes i = nsAppliedLog ns" by (simp add: appliedOf_def)
    show ?thesis
    proof (cases "appliedRecs i (nsAppliedLog ns) seen")
      case (Inl v)
      then have "\<not> agreeing (R @ nsAppliedLog ns)" using appliedRecs_marks [OF Cons.prems, of "nsAppliedLog ns" i] by simp
      from agreeing_prefix [OF this, of "concat (map (appliedOf nodes) is)"] Inl Some show ?thesis by (simp add: own)
    next
      case (Inr seen')
      then have "marks seen' (R @ nsAppliedLog ns)" using appliedRecs_marks [OF Cons.prems, of "nsAppliedLog ns" i] by simp
      from Cons.IH [OF this] Inr Some show ?thesis by (simp add: own)
    qed
  qed
qed

text \<open>
  C25. The applied-prefix check is exact: it passes precisely when no two nodes of the cluster,
  crashed ones included, have applied records of one index that differ in term or digest.
\<close>

theorem applied_prefix_check_exact:
  "checkAppliedPrefix nodes iv = None \<longleftrightarrow>
     (\<forall>i \<in> set (ivPeers iv). \<forall>j \<in> set (ivPeers iv). \<forall>a \<in> set (appliedOf nodes i). \<forall>b \<in> set (appliedOf nodes j).
        arIndex a = arIndex b \<longrightarrow> arTerm a = arTerm b \<and> arDigest a = arDigest b)"
proof -
  have "marks [] []" by (simp add: marks_def agreeing_def)
  from appliedLoop_exact [OF this, of nodes "ivPeers iv"] show ?thesis
    unfolding checkAppliedPrefix_def by (simp add: agreeing_def same_rec_def) blast
qed

definition sample_applied :: nodes where
  "sample_applied = [1 \<mapsto> (sample_node 1 4 StateFollower)\<lparr>nsAppliedLog := [\<lparr>arIndex = 1, arTerm = 2, arDigest = 9\<rparr>]\<rparr>,
     2 \<mapsto> (sample_node 2 4 StateFollower)\<lparr>nsAppliedLog := [\<lparr>arIndex = 1, arTerm = 3, arDigest = 9\<rparr>]\<rparr>]"

theorem applied_prefix_check_exact_witness:
  "checkAppliedPrefix sample_applied (newInvariants [1, 2]) \<noteq> None"
  unfolding applied_prefix_check_exact by (simp add: newInvariants_def appliedOf_def sample_applied_def)

section \<open>What the log-matching check misses\<close>

definition gap_entry :: "nat \<Rightarrow> byte \<Rightarrow> Entry" where
  "gap_entry t b = \<lparr>eTerm = t, eIndex = 1, eType = EntryNormal, eData = [b]\<rparr>"

definition gap_node :: "nat \<Rightarrow> Entry \<Rightarrow> nodeState" where
  "gap_node i e = \<lparr>nsId = i, nsDisk = trackStorage (mem_New\<lparr>stEntries := [e]\<rparr>), nsNode = None, nsSM = None, nsApplied = 0,
     nsAppliedLog = [], nsPendingReads = [], nsCrashed = True\<rparr>"

definition gap_nodes :: nodes where
  "gap_nodes = [1 \<mapsto> gap_node 1 (gap_entry 3 0), 2 \<mapsto> gap_node 2 (gap_entry 2 1), 3 \<mapsto> gap_node 3 (gap_entry 2 2)]"

lemma readMarks_gap:
  "readMarks (trackStorage (mem_New\<lparr>stEntries := [gap_entry t b]\<rparr>)) i =
     Inr \<lparr>dcGeneration = 0, dcMarks = [(1, markOf i (gap_entry t b))], dcSnapshotIndex = 0, dcSnapshotTerm = 0, dcSnapshotData = fnv64 []\<rparr>"
  by (simp add: readMarks_def trackedOps_def trackStorage_def mem_New_def mem_Snapshot_def mem_LastIndex_def mem_FirstIndex_def
      mem_Entries_def mem_offset_def snapshot0_def storageGeneration_def gap_entry_def Let_def)

text \<open>
  C38. The log-matching check has a blind spot. Three durable logs, two of which hold different
  commands at the same index and term, pass the check when a node that is listed before them
  holds a higher term at that index: only the highest-term mark of an index is remembered.
\<close>

theorem log_matching_check_misses:
  "fst (checkLogMatching gap_nodes (newInvariants [1, 2, 3])) = None \<and>
   (\<exists>a b ea eb. a \<noteq> b \<and> stEntries (tsInner (ns_storage (the (gap_nodes a)))) = [ea] \<and>
      stEntries (tsInner (ns_storage (the (gap_nodes b)))) = [eb] \<and> eIndex ea = eIndex eb \<and> eTerm ea = eTerm eb \<and>
      eData ea \<noteq> eData eb \<and> fnv64 (eData ea) \<noteq> fnv64 (eData eb))"
proof
  have n: "gap_nodes 1 = Some (gap_node 1 (gap_entry 3 0))" "gap_nodes 2 = Some (gap_node 2 (gap_entry 2 1))"
      "gap_nodes 3 = Some (gap_node 3 (gap_entry 2 2))" by (simp_all add: gap_nodes_def)
  have st: "ns_storage (gap_node i e) = trackStorage (mem_New\<lparr>stEntries := [e]\<rparr>)" for i e by (simp add: ns_storage_def gap_node_def)
  have sel: "lmTerm (markOf i (gap_entry t b)) = t" for i t b by (simp add: markOf_def gap_entry_def)
  show "fst (checkLogMatching gap_nodes (newInvariants [1, 2, 3])) = None"
    by (simp add: checkLogMatching_def newInvariants_def durableMarks_def n n(1) [unfolded One_nat_def] st readMarks_gap sel Let_def)
  have "fnv64 [1] \<noteq> fnv64 [2]" by (simp add: fnv64_def)
  then show "\<exists>a b ea eb. a \<noteq> b \<and> stEntries (tsInner (ns_storage (the (gap_nodes a)))) = [ea] \<and>
      stEntries (tsInner (ns_storage (the (gap_nodes b)))) = [eb] \<and> eIndex ea = eIndex eb \<and> eTerm ea = eTerm eb \<and>
      eData ea \<noteq> eData eb \<and> fnv64 (eData ea) \<noteq> fnv64 (eData eb)"
    by (intro exI [of _ 2] exI [of _ 3] exI [of _ "gap_entry 2 1"] exI [of _ "gap_entry 2 2"])
      (simp add: n st trackStorage_def gap_entry_def)
qed

section \<open>The cache of durable marks\<close>

text \<open>Every cached view was read from a past state of the same storage.\<close>

definition cache_ok :: "nodes \<Rightarrow> invariants \<Rightarrow> bool" where
  "cache_ok nodes iv \<longleftrightarrow> (\<forall>i view ns. map_of (ivMarkCache iv) i = Some view \<longrightarrow> nodes i = Some ns \<longrightarrow>
     (\<exists>past. tracked_inv past \<and> tracked_step\<^sup>*\<^sup>* past (ns_storage ns) \<and> readMarks past i = Inr view))"

lemma tracked_steps_generation:
  assumes "tracked_step\<^sup>*\<^sup>* s s'" and "tracked_inv s"
  shows "tracked_inv s' \<and> tsGeneration s \<le> tsGeneration s' \<and> (tsGeneration s' = tsGeneration s \<longrightarrow> s' = s)"
  using assms(1)
proof (induction rule: rtranclp_induct)
  case (step u u')
  from step(2) have "tracked_inv u' \<and> (u' = u \<or> tsGeneration u' = tsGeneration u + 1)"
    using step.IH by (cases rule: tracked_step.cases) (auto dest: tracked_append_inv tracked_snapshot_inv tracked_hard_inv)
  with step.IH show ?case by auto
qed (simp add: assms(2))

lemma readMarks_generation: "readMarks st i = Inr view \<Longrightarrow> dcGeneration view = storageGeneration st"
  by (auto simp: readMarks_def Let_def split: sum.split_asm if_split_asm)

text \<open>
  The checker's cache is transparent: while every cached view was read from an earlier
  state of the node's storage, asking for a node's durable marks gives what reading the
  storage now gives. An in-place rewrite of the log cannot hide behind an unchanged length,
  since every mutation changes the generation.
\<close>

lemma durable_mark_cache_transparent:
  assumes "cache_ok nodes iv" and "nodes i = Some ns" and inv: "tracked_inv (ns_storage ns)"
  shows "fst (durableMarks (nodes i) i iv) = readMarks (ns_storage ns) i \<and> cache_ok nodes (snd (durableMarks (nodes i) i iv))"
proof -
  have hit: "readMarks (ns_storage ns) i = Inr view"
    if view: "map_of (ivMarkCache iv) i = Some view" "dcGeneration view = storageGeneration (ns_storage ns)" for view
  proof -
    obtain past where past: "tracked_inv past" "tracked_step\<^sup>*\<^sup>* past (ns_storage ns)" "readMarks past i = Inr view"
      using assms(1,2) view(1) unfolding cache_ok_def by blast
    have "tsGeneration (ns_storage ns) = tsGeneration past"
      using readMarks_generation [OF past(3)] view(2) by (simp add: storageGeneration_def)
    with tracked_steps_generation [OF past(2,1)] past(3) show ?thesis by simp
  qed
  have "cache_ok nodes (iv\<lparr>ivMarkCache := AList.update i view (ivMarkCache iv)\<rparr>)"
    if "readMarks (ns_storage ns) i = Inr view" for view
    using assms inv that unfolding cache_ok_def by (auto simp: update_conv' split: if_split_asm)
  with hit assms show ?thesis
    by (auto simp: durableMarks_def Let_def split: option.split sum.split)
qed

lemma durable_mark_cache_transparent_example:
  "fst (durableMarks (sample_nodes StateLeader StateFollower 1) 1 (newInvariants [1, 2])) = readMarks (trackStorage mem_New) 1"
proof -
  let ?ns = "sample_nodes StateLeader StateFollower"
  have "cache_ok ?ns (newInvariants [1, 2])" by (simp add: cache_ok_def newInvariants_def)
  moreover have "?ns 1 = Some (sample_node 1 4 StateLeader)" by (simp add: sample_nodes_def)
  moreover have "ns_storage (sample_node 1 4 StateLeader) = trackStorage mem_New"
    by (simp add: ns_storage_def sample_node_def sample_raft_def)
  moreover have "tracked_inv (trackStorage mem_New)"
    by (simp add: tracked_inv_def trackStorage_def mem_New_wf) (simp add: mem_offset_def mem_New_def snapshot0_def)
  ultimately show ?thesis using durable_mark_cache_transparent [of ?ns "newInvariants [1, 2]" 1] by metis
qed

end
