(* ===== verification/Lin_Model.thy ===== *)
theory Lin_Model
  imports KV_Machine "HOL-Library.Multiset"
begin

text \<open>
  The history recorder and the sequential model of \<^verbatim>\<open>sim/lin/lin.go\<close>, and what a verdict of the
  linearizability checker means.

  The search itself is Porcupine, a library the code only calls: it is the parameter \<open>porcupine\<close>
  of \<open>Check\<close>. The printers \<open>describeCommand\<close> and \<open>describeResult\<close> only feed its visualiser. Virtual
  times are integers; Go strings compared with \<open>string(b)\<close> are the bytes, with \<open>nil\<close> and empty
  identified (\<open>str\<close>).
\<close>

section \<open>Histories\<close>

record Operation =
  opClientID :: uint64
  opInput :: Command
  opOutput :: Result
  opCall :: int
  opReturn :: int

record History =
  hOps :: "Operation list"
  hPending :: "(nat, Operation) fmap"
  hNextID :: nat

definition NewHistory :: History where
  "NewHistory = \<lparr>hOps = [], hPending = fmempty, hNextID = 0\<rparr>"

definition Invoke :: "History \<Rightarrow> uint64 \<Rightarrow> Command \<Rightarrow> int \<Rightarrow> nat \<times> History" where
  "Invoke h clientID cmd at =
     (let i = hNextID h
      in (i, h\<lparr>hNextID := i + 1,
               hPending := fmupd i \<lparr>opClientID = clientID, opInput = cmd, opOutput = zeroResult,
                                    opCall = at, opReturn = -1\<rparr> (hPending h)\<rparr>))"

definition Complete :: "History \<Rightarrow> nat \<Rightarrow> Result \<Rightarrow> int \<Rightarrow> History" where
  "Complete h i res at =
     (case fmlookup (hPending h) i of
        None \<Rightarrow> h
      | Some oper \<Rightarrow> h\<lparr>hPending := fmdrop i (hPending h), hOps := hOps h @ [oper\<lparr>opOutput := res, opReturn := at\<rparr>]\<rparr>)"

definition Operations :: "History \<Rightarrow> Operation list" where
  "Operations h = hOps h"

definition Pending :: "History \<Rightarrow> Operation list" where
  "Pending h = List.map_filter (fmlookup (hPending h)) (sorted_list_of_fset (fmdom (hPending h)))"

section \<open>The sequential model of one key\<close>

record keyState =
  ksPresent :: bool
  ksValue :: bytes
  ksVersion :: uint64

abbreviation keyState0 :: keyState where
  "keyState0 \<equiv> \<lparr>ksPresent = False, ksValue = [], ksVersion = 0\<rparr>"

record outcome =
  ocKnown :: bool
  ocRes :: Result

definition str :: "bytes option \<Rightarrow> bytes" where
  "str b = (case b of None \<Rightarrow> [] | Some v \<Rightarrow> v)"

definition casMatches :: "keyState \<Rightarrow> Command \<Rightarrow> bool" where
  "casMatches st cmd =
     (if cmdExpect cmd = None then \<not> ksPresent st
      else ksPresent st \<and> ksValue st = str (cmdExpect cmd))"

definition applyOp :: "keyState \<Rightarrow> Command \<Rightarrow> keyState" where
  "applyOp st cmd =
     (if cmdOp cmd = OpPut then \<lparr>ksPresent = True, ksValue = str (cmdValue cmd), ksVersion = ksVersion st + 1\<rparr>
      else if cmdOp cmd = OpDelete then keyState0
      else if cmdOp cmd = OpCAS then
        (if casMatches st cmd
         then \<lparr>ksPresent = True, ksValue = str (cmdValue cmd), ksVersion = ksVersion st + 1\<rparr> else st)
      else st)"

definition stepKV :: "keyState \<Rightarrow> Command \<Rightarrow> outcome \<Rightarrow> keyState list" where
  "stepKV st cmd out =
     (if \<not> ocKnown out then
        (let after = applyOp st cmd in if after = st then [st] else [after, st])
      else
        let res = ocRes out;
            next = \<lparr>ksPresent = True, ksValue = str (cmdValue cmd), ksVersion = ksVersion st + 1\<rparr>
        in if cmdOp cmd = OpGet then
             (if ksPresent st then
                (if resStatus res = StatusOK \<and> str (resValue res) = ksValue st \<and> resVersion res = ksVersion st
                 then [st] else [])
              else if resStatus res = StatusNotFound then [st] else [])
           else if cmdOp cmd = OpPut then
             (if resStatus res = StatusOK \<and> resVersion res = ksVersion next then [next] else [])
           else if cmdOp cmd = OpDelete then
             (if ksPresent st then (if resStatus res = StatusOK then [keyState0] else [])
              else if resStatus res = StatusNotFound then [st] else [])
           else if cmdOp cmd = OpCAS then
             (if casMatches st cmd then
                (if resStatus res = StatusOK \<and> resVersion res = ksVersion next then [next] else [])
              else if ksPresent st then
                (if resStatus res = StatusCASMismatch \<and> str (resValue res) = ksValue st \<and> resVersion res = ksVersion st
                 then [st] else [])
              else if resStatus res = StatusCASMismatch then [st] else [])
           else [])"

section \<open>What is handed to the checker\<close>

record porcOp =
  pClientId :: int
  pInput :: Command
  pOutput :: outcome
  pCall :: int
  pReturn :: int

datatype CheckResult = Unknown | Ok | Illegal

record porcModel =
  mPartition :: "porcOp list \<Rightarrow> porcOp list list"
  mInit :: "keyState list"
  mStep :: "keyState \<Rightarrow> Command \<Rightarrow> outcome \<Rightarrow> keyState list"

definition maxInt64 :: int where
  "maxInt64 = 2 ^ 63 - 1"

abbreviation opKey :: "porcOp \<Rightarrow> bytes" where
  "opKey o1 \<equiv> cmdKey (pInput o1)"

definition Partition :: "porcOp list \<Rightarrow> porcOp list list" where
  "Partition history =
     map (\<lambda>k. filter (\<lambda>o1. opKey o1 = k) history) (sorted_list_of_set (set (map opKey history)))"

definition kvNondeterministicModel :: porcModel where
  "kvNondeterministicModel = \<lparr>mPartition = Partition, mInit = [keyState0], mStep = stepKV\<rparr>"

definition checkOps :: "History \<Rightarrow> porcOp list" where
  "checkOps h =
     map (\<lambda>o1. \<lparr>pClientId = sint (opClientID o1), pInput = opInput o1,
                pOutput = \<lparr>ocKnown = True, ocRes = opOutput o1\<rparr>, pCall = opCall o1, pReturn = opReturn o1\<rparr>) (Operations h) @
     map (\<lambda>o1. \<lparr>pClientId = sint (opClientID o1), pInput = opInput o1,
                pOutput = \<lparr>ocKnown = False, ocRes = zeroResult\<rparr>, pCall = opCall o1, pReturn = maxInt64\<rparr>) (Pending h)"

definition Check :: "(porcModel \<Rightarrow> porcOp list \<Rightarrow> CheckResult) \<Rightarrow> History \<Rightarrow> CheckResult" where
  "Check porcupine h = porcupine kvNondeterministicModel (checkOps h)"

section \<open>Linearizability\<close>

text \<open>
  A linearization orders all operations, never puts an operation before one that had returned
  before it was called, and is a path of the model. \<open>path\<close> runs the model of one key, \<open>jpath\<close>
  the whole store.
\<close>

fun path :: "('s \<Rightarrow> Command \<Rightarrow> outcome \<Rightarrow> 's list) \<Rightarrow> 's \<Rightarrow> porcOp list \<Rightarrow> bool" where
  "path step st [] = True"
| "path step st (x # xs) = (\<exists>st' \<in> set (step st (pInput x) (pOutput x)). path step st' xs)"

fun jpath :: "(bytes \<Rightarrow> keyState) \<Rightarrow> porcOp list \<Rightarrow> bool" where
  "jpath S [] = True"
| "jpath S (x # xs) =
     (\<exists>st' \<in> set (stepKV (S (opKey x)) (pInput x) (pOutput x)). jpath (S(opKey x := st')) xs)"

definition real_time :: "porcOp list \<Rightarrow> bool" where
  "real_time xs \<longleftrightarrow> sorted_wrt (\<lambda>a b. pCall a \<le> pReturn b) xs"

definition linearizable :: "(porcOp list \<Rightarrow> bool) \<Rightarrow> porcOp list \<Rightarrow> bool" where
  "linearizable legal ops \<longleftrightarrow> (\<exists>xs. mset xs = mset ops \<and> real_time xs \<and> legal xs)"

definition intervals :: "porcOp list \<Rightarrow> bool" where
  "intervals ops \<longleftrightarrow> (\<forall>x \<in> set ops. pCall x \<le> pReturn x)"

text \<open>What the checker promises for a model: each part has a linearization, or some part has none.\<close>

definition linearizable_parts :: "porcModel \<Rightarrow> porcOp list \<Rightarrow> bool" where
  "linearizable_parts M ops \<longleftrightarrow>
     (\<forall>part \<in> set (mPartition M ops). \<exists>st \<in> set (mInit M). linearizable (path (mStep M) st) part)"

text \<open>The store as the model sees it, and the part of a result that the model compares.\<close>

definition keyOf :: "StateMachine \<Rightarrow> bytes \<Rightarrow> keyState" where
  "keyOf m k = (case fmlookup (sm_data m) k of
     None \<Rightarrow> keyState0
   | Some rec \<Rightarrow> \<lparr>ksPresent = True, ksValue = str (vrValue rec), ksVersion = vrVersion rec\<rparr>)"

definition same_answer :: "bool \<Rightarrow> Command \<Rightarrow> Result \<Rightarrow> Result \<Rightarrow> bool" where
  "same_answer present cmd r r' \<longleftrightarrow> resStatus r' = resStatus r \<and>
     (cmdOp cmd \<in> {OpPut, OpCAS} \<and> resStatus r = StatusOK \<longrightarrow> resVersion r' = resVersion r) \<and>
     (present \<and> (cmdOp cmd = OpGet \<or> cmdOp cmd = OpCAS \<and> resStatus r = StatusCASMismatch) \<longrightarrow>
        str (resValue r') = str (resValue r) \<and> resVersion r' = resVersion r)"

text \<open>An order in which the store itself answers every completed operation as recorded.\<close>

fun serves :: "StateMachine \<Rightarrow> porcOp list \<Rightarrow> bool" where
  "serves m [] = True"
| "serves m (x # xs) =
     (case execute m (pInput x) of
        None \<Rightarrow> False
      | Some (r, m') \<Rightarrow> (ocKnown (pOutput x) \<longrightarrow> ocRes (pOutput x) = r) \<and> serves m' xs)"

text \<open>
  A history is explained by the store when some of its operations, among them all completed
  ones, can be ordered in real time so that the store serves them; the others, whose clients
  got no answer, were lost.
\<close>

definition explained :: "porcOp list \<Rightarrow> bool" where
  "explained ops \<longleftrightarrow> (\<exists>eff lost. mset (eff @ lost) = mset ops \<and> real_time eff \<and> serves NewStateMachine eff \<and>
     (\<forall>x \<in> set lost. \<not> ocKnown (pOutput x) \<and> pReturn x = maxInt64))"

text \<open>The histories that a run records, with its clock.\<close>

inductive recorded :: "int \<Rightarrow> History \<Rightarrow> bool" where
  rec_new: "recorded t NewHistory"
| rec_invoke: "recorded t h \<Longrightarrow> t \<le> t' \<Longrightarrow> recorded t' (snd (Invoke h c cmd t'))"
| rec_complete: "recorded t h \<Longrightarrow> t \<le> t' \<Longrightarrow> recorded t' (Complete h i res t')"

section \<open>The model of one key and the store\<close>

lemma executeE:
  assumes "execute m cmd = Some (r, m')"
  obtains "cmdOp cmd = OpGet" | "cmdOp cmd = OpPut" | "cmdOp cmd = OpDelete" | "cmdOp cmd = OpCAS"
  using assms by (auto simp: execute_def split: if_split_asm)

lemma execute_key:
  assumes "execute m cmd = Some (r, m')"
  shows "keyOf m' = (keyOf m)(cmdKey cmd := applyOp (keyOf m (cmdKey cmd)) cmd)"
  using assms
  by (cases rule: executeE; cases "fmlookup (sm_data m) (cmdKey cmd)"; cases "cmdExpect cmd")
    (auto simp: execute_def applyOp_def kv_cas_def casMatches_def fmget_def keyOf_def str_def Let_def fun_eq_iff
      split: if_split_asm)

lemmas step_defs = execute_def stepKV_def kv_get_def same_answer_def keyOf_def str_def Let_def

lemma kv_cas_cases:
  assumes "kv_cas m cmd = (r, m')"
  shows "if casMatches (keyOf m (cmdKey cmd)) cmd
    then resStatus r = StatusOK \<and> resVersion r = ksVersion (keyOf m (cmdKey cmd)) + 1 \<and>
      keyOf m' (cmdKey cmd) = \<lparr>ksPresent = True, ksValue = str (cmdValue cmd), ksVersion = resVersion r\<rparr>
    else m' = m \<and> resStatus r = StatusCASMismatch \<and>
      (ksPresent (keyOf m (cmdKey cmd)) \<longrightarrow>
         str (resValue r) = ksValue (keyOf m (cmdKey cmd)) \<and> resVersion r = ksVersion (keyOf m (cmdKey cmd)))"
  using assms
  by (cases "fmlookup (sm_data m) (cmdKey cmd)"; cases "cmdExpect cmd")
    (auto simp: kv_cas_def casMatches_def fmget_def keyOf_def str_def Let_def split: if_split_asm)

lemma stepKV_execute:
  assumes "execute m cmd = Some (r, m')"
  shows "stepKV (keyOf m (cmdKey cmd)) cmd \<lparr>ocKnown = True, ocRes = r'\<rparr> =
    (if same_answer (ksPresent (keyOf m (cmdKey cmd))) cmd r r' then [keyOf m' (cmdKey cmd)] else [])"
  using assms
proof (cases rule: executeE)
  case 4
  then have "kv_cas m cmd = (r, m')" using assms by (simp add: execute_def)
  from kv_cas_cases [OF this] 4 show ?thesis
    by (simp add: stepKV_def same_answer_def Let_def split: if_split_asm)
qed (use assms in \<open>cases "fmlookup (sm_data m) (cmdKey cmd)"; clarsimp simp: step_defs fmget_def\<close>)+

lemma stepKV_unknown: "\<not> ocKnown out \<Longrightarrow> st \<in> set (stepKV st cmd out)"
  by (auto simp: stepKV_def Let_def)

lemma stepKV_took_effect: "\<not> ocKnown out \<Longrightarrow> applyOp st cmd \<in> set (stepKV st cmd out)"
  by (auto simp: stepKV_def Let_def)

text \<open>
  C15. The checker's model is the store's semantics, key by key. If \<open>execute\<close> answers \<open>r\<close>,
  then the model admits an observed result exactly when it agrees with \<open>r\<close> in all that
  \<open>stepKV\<close> looks at, the successor state is then the key's new state, and no other key
  changes.
\<close>

theorem lin_model_exact:
  assumes "execute m cmd = Some (r, m')"
  shows "stepKV (keyOf m (cmdKey cmd)) cmd \<lparr>ocKnown = True, ocRes = r'\<rparr> =
      (if same_answer (ksPresent (keyOf m (cmdKey cmd))) cmd r r' then [keyOf m' (cmdKey cmd)] else []) \<and>
    (\<forall>k. k \<noteq> cmdKey cmd \<longrightarrow> keyOf m' k = keyOf m k)"
  using stepKV_execute [OF assms] execute_key [OF assms] by simp

theorem lin_model_exact_witness:
  "stepKV (keyOf NewStateMachine [107]) (sample_put 1 1)
     \<lparr>ocKnown = True, ocRes = \<lparr>resStatus = StatusOK, resValue = None, resVersion = 1\<rparr>\<rparr> =
   [\<lparr>ksPresent = True, ksValue = [1], ksVersion = 1\<rparr>]"
proof -
  let ?r = "\<lparr>resStatus = StatusOK, resValue = None, resVersion = 1\<rparr>"
  let ?m = "NewStateMachine\<lparr>sm_data := fmupd [107] \<lparr>vrValue = Some [1], vrVersion = 1\<rparr> fmempty\<rparr>"
  have "execute NewStateMachine (sample_put 1 1) = Some (?r, ?m)"
    by (simp add: execute_def sample_put_def NewStateMachine_def fmget_def)
  from lin_model_exact [OF this, of ?r] show ?thesis
    by (simp add: same_answer_def sample_put_def keyOf_def str_def)
qed

section \<open>Checking key by key\<close>

lemma all_upd: "(\<forall>k. P ((S(i := y)) k) k) \<longleftrightarrow> P y i \<and> (\<forall>k. k \<noteq> i \<longrightarrow> P (S k) k)"
  by (metis fun_upd_apply)

lemma jpath_iff: "jpath S xs \<longleftrightarrow> (\<forall>k. path stepKV (S k) (filter (\<lambda>x. opKey x = k) xs))"
proof (induction xs arbitrary: S)
  case (Cons x xs)
  have "jpath S (x # xs) \<longleftrightarrow> (\<exists>st' \<in> set (stepKV (S (opKey x)) (pInput x) (pOutput x)).
      path stepKV st' (filter (\<lambda>y. opKey y = opKey x) xs)) \<and>
      (\<forall>k. k \<noteq> opKey x \<longrightarrow> path stepKV (S k) (filter (\<lambda>y. opKey y = k) xs))"
    unfolding jpath.simps Cons.IH all_upd [where P = "\<lambda>st k. path stepKV st (filter (\<lambda>y. opKey y = k) xs)"]
    by blast
  also have "\<dots> \<longleftrightarrow> (\<forall>k. path stepKV (S k) (filter (\<lambda>y. opKey y = k) (x # xs)))"
    by (auto split: if_split_asm)
  finally show ?case .
qed simp

text \<open>A linearization has linearization points: instants inside the intervals, in order.\<close>

lemma points_exist:
  assumes "real_time xs" and "intervals xs" and "\<forall>x \<in> set xs. b \<le> pReturn x"
  shows "\<exists>ts. length ts = length xs \<and> sorted ts \<and> (\<forall>t \<in> set ts. b \<le> t) \<and>
    (\<forall>(x, t) \<in> set (zip xs ts). pCall x \<le> t \<and> t \<le> pReturn x)"
  using assms
proof (induction xs arbitrary: b)
  case (Cons x xs)
  let ?t = "max b (pCall x)"
  have "real_time xs" "intervals xs" "\<forall>y \<in> set xs. ?t \<le> pReturn y"
    using Cons.prems by (auto simp: real_time_def intervals_def)
  from Cons.IH [OF this] obtain ts where ts: "length ts = length xs" "sorted ts" "\<forall>t \<in> set ts. ?t \<le> t"
    "\<forall>(x, t) \<in> set (zip xs ts). pCall x \<le> t \<and> t \<le> pReturn x" by blast
  have "?t \<le> pReturn x" using Cons.prems by (simp add: intervals_def)
  with ts show ?case by (intro exI [of _ "?t # ts"]) auto
qed simp

lemma real_time_points:
  assumes "sorted (map snd zs)" and "\<forall>(x, t) \<in> set zs. pCall x \<le> t \<and> t \<le> pReturn x"
  shows "real_time (map fst zs)"
  using assms by (induction zs) (force simp: real_time_def)+

text \<open>Merging the linearizations of the keys at their points.\<close>

lemma filter_concat_key:
  assumes "distinct ks" and "k \<in> set ks" and "\<And>j z. j \<in> set ks \<Longrightarrow> z \<in> set (f j) \<Longrightarrow> key z = j"
  shows "filter (\<lambda>z. key z = k) (concat (map f ks)) = f k"
  using assms
proof (induction ks)
  case (Cons j ks)
  have own: "filter (\<lambda>z. key z = k) (f j) = (if j = k then f j else [])"
    using Cons.prems(3) [of j] by (auto simp: filter_empty_conv intro: filter_True)
  have rest: "filter (\<lambda>z. key z = k) (concat (map f ks)) = []" if "k \<notin> set ks"
    using that Cons.prems(3) by (auto simp: filter_empty_conv)
  show ?case using Cons.IH Cons.prems own rest by (cases "j = k") auto
qed simp

lemma merge_points:
  assumes "distinct ks"
    and f: "\<And>k. k \<in> set ks \<Longrightarrow> sorted (map snd (f k)) \<and>
      (\<forall>(x, t) \<in> set (f k). opKey x = k \<and> pCall x \<le> t \<and> t \<le> pReturn x)"
  obtains xs where "mset xs = mset (map fst (concat (map f ks)))" and "real_time xs"
    and "\<And>k. k \<in> set ks \<Longrightarrow> filter (\<lambda>x. opKey x = k) xs = map fst (f k)"
proof
  let ?zs = "concat (map f ks)" and ?ws = "sort_key snd (concat (map f ks))"
  show "mset (map fst ?ws) = mset (map fst ?zs)" by simp
  show "real_time (map fst ?ws)" by (rule real_time_points) (use f in auto)
  fix k assume k: "k \<in> set ks"
  have keys: "opKey (fst z) = j" if "j \<in> set ks" and "z \<in> set (f j)" for j z
    using f [OF that(1)] that(2) by auto
  have "filter (\<lambda>z. opKey (fst z) = k) ?ws = sort_key snd (filter (\<lambda>z. opKey (fst z) = k) ?zs)"
    by (rule filter_sort)
  also have "filter (\<lambda>z. opKey (fst z) = k) ?zs = f k"
    by (rule filter_concat_key [where key = "\<lambda>z. opKey (fst z)", OF assms(1) k keys])
  finally show "filter (\<lambda>x. opKey x = k) (map fst ?ws) = map fst (f k)"
    using f [OF k] by (simp add: filter_map o_def sorted_sort_id sort_key_id_if_sorted)
qed

lemma mset_by_key:
  "distinct ks \<Longrightarrow> opKey ` set ops \<subseteq> set ks \<Longrightarrow>
     (\<And>k. k \<in> set ks \<Longrightarrow> mset (g k) = mset (filter (\<lambda>x. opKey x = k) ops)) \<Longrightarrow>
     mset (concat (map g ks)) = mset ops"
proof (induction ks arbitrary: ops)
  case (Cons k ks)
  let ?o = "filter (\<lambda>x. opKey x \<noteq> k) ops"
  have "mset (concat (map g ks)) = mset ?o"
  proof (rule Cons.IH)
    fix j assume j: "j \<in> set ks"
    then have "j \<noteq> k" using Cons.prems(1) by auto
    then have "filter (\<lambda>x. opKey x = j) ?o = filter (\<lambda>x. opKey x = j) ops" by (auto intro: filter_cong)
    then show "mset (g j) = mset (filter (\<lambda>x. opKey x = j) ?o)" using Cons.prems(3) j by simp
  qed (use Cons.prems in auto)
  then show ?case using Cons.prems(3) [of k] by (simp add: multiset_partition [of "mset ops" "\<lambda>x. opKey x = k", symmetric])
qed simp

lemma real_time_filter: "real_time xs \<Longrightarrow> real_time (filter P xs)"
  by (simp add: real_time_def sorted_wrt_filter)

lemma set_Partition: "set (Partition ops) = (\<lambda>k. filter (\<lambda>x. opKey x = k) ops) ` (opKey ` set ops)"
  by (simp add: Partition_def)

lemma joint_by_key:
  assumes "linearizable (jpath S) ops"
  shows "linearizable (path stepKV (S k)) (filter (\<lambda>x. opKey x = k) ops)"
proof -
  obtain xs where xs: "mset xs = mset ops" "real_time xs" "jpath S xs"
    using assms by (auto simp: linearizable_def)
  then have "mset (filter (\<lambda>x. opKey x = k) xs) = mset (filter (\<lambda>x. opKey x = k) ops)" by simp
  with xs show ?thesis
    unfolding linearizable_def jpath_iff using real_time_filter by blast
qed

lemma path_Nil_filter: "k \<notin> opKey ` set xs \<Longrightarrow> path step st (filter (\<lambda>x. opKey x = k) xs)"
  by (subst filter_False) auto

lemma by_key_joint:
  assumes ints: "intervals ops"
    and lin: "\<And>k. k \<in> opKey ` set ops \<Longrightarrow> linearizable (path stepKV (S k)) (filter (\<lambda>x. opKey x = k) ops)"
  shows "linearizable (jpath S) ops"
proof -
  define ks where "ks = sorted_list_of_set (opKey ` set ops)"
  then have ks: "distinct ks" "set ks = opKey ` set ops" by simp_all
  have "\<exists>f. sorted (map snd f) \<and> (\<forall>(x, t) \<in> set f. opKey x = k \<and> pCall x \<le> t \<and> t \<le> pReturn x) \<and>
      mset (map fst f) = mset (filter (\<lambda>x. opKey x = k) ops) \<and> path stepKV (S k) (map fst f)" if k: "k \<in> set ks" for k
  proof -
    obtain xs where xs: "mset xs = mset (filter (\<lambda>x. opKey x = k) ops)" "real_time xs" "path stepKV (S k) xs"
      using lin [OF k [unfolded ks(2)]] by (auto simp: linearizable_def)
    then have set_xs: "set xs = {x \<in> set ops. opKey x = k}" by (metis set_filter set_mset_mset)
    then have "intervals xs" using ints by (simp add: intervals_def)
    moreover have "\<forall>x \<in> set xs. Min (insert 0 (pReturn ` set xs)) \<le> pReturn x" by simp
    ultimately obtain ts where "length ts = length xs" "sorted ts"
        "\<forall>(x, t) \<in> set (zip xs ts). pCall x \<le> t \<and> t \<le> pReturn x"
      using points_exist [OF xs(2)] by blast
    with xs set_xs show ?thesis
      by (intro exI [of _ "zip xs ts"]) (auto dest: set_zip_leftD)
  qed
  then have "\<forall>k \<in> set ks. \<exists>f. sorted (map snd f) \<and> (\<forall>(x, t) \<in> set f. opKey x = k \<and> pCall x \<le> t \<and> t \<le> pReturn x) \<and>
      mset (map fst f) = mset (filter (\<lambda>x. opKey x = k) ops) \<and> path stepKV (S k) (map fst f)" ..
  then obtain f where f_all: "\<forall>k \<in> set ks. sorted (map snd (f k)) \<and>
      (\<forall>(x, t) \<in> set (f k). opKey x = k \<and> pCall x \<le> t \<and> t \<le> pReturn x) \<and>
      mset (map fst (f k)) = mset (filter (\<lambda>x. opKey x = k) ops) \<and> path stepKV (S k) (map fst (f k))"
    unfolding bchoice_iff by blast
  then have f: "\<And>k. k \<in> set ks \<Longrightarrow> sorted (map snd (f k)) \<and>
      (\<forall>(x, t) \<in> set (f k). opKey x = k \<and> pCall x \<le> t \<and> t \<le> pReturn x)"
    and f': "\<And>k. k \<in> set ks \<Longrightarrow> mset (map fst (f k)) = mset (filter (\<lambda>x. opKey x = k) ops) \<and> path stepKV (S k) (map fst (f k))"
    by blast+
  obtain xs where xs: "mset xs = mset (map fst (concat (map f ks)))" "real_time xs"
      "\<And>k. k \<in> set ks \<Longrightarrow> filter (\<lambda>x. opKey x = k) xs = map fst (f k)"
    using merge_points [OF ks(1) f] by blast
  have "mset (concat (map (\<lambda>k. map fst (f k)) ks)) = mset ops"
    by (rule mset_by_key [OF ks(1)]) (use ks(2) f' in auto)
  then have perm: "mset xs = mset ops" using xs(1) by (simp add: map_concat o_def)
  then have "set xs = set ops" by (metis set_mset_mset)
  then have "path stepKV (S k) (filter (\<lambda>x. opKey x = k) xs)" for k
    using xs(3) f' ks(2) path_Nil_filter [of k xs] by (cases "k \<in> set ks") simp_all
  with perm xs(2) show ?thesis unfolding linearizable_def jpath_iff by blast
qed

lemma parts_iff_joint:
  assumes "intervals ops"
  shows "linearizable_parts kvNondeterministicModel ops \<longleftrightarrow> linearizable (jpath (\<lambda>_. keyState0)) ops"
proof -
  have "linearizable_parts kvNondeterministicModel ops \<longleftrightarrow>
      (\<forall>k \<in> opKey ` set ops. linearizable (path stepKV keyState0) (filter (\<lambda>x. opKey x = k) ops))"
    by (simp add: linearizable_parts_def kvNondeterministicModel_def set_Partition)
  then show ?thesis using by_key_joint [OF assms, of "\<lambda>_. keyState0"] joint_by_key [of "\<lambda>_. keyState0" ops] by blast
qed

text \<open>
  C14. Checking key by key is exact. A history of operations with non-empty intervals has a
  linearization of the whole store exactly when every part that \<open>Partition\<close> makes has a
  linearization in the model of one key.
\<close>

theorem by_key_check_exact:
  assumes "intervals ops"
  shows "linearizable (jpath (\<lambda>_. keyState0)) ops \<longleftrightarrow>
    (\<forall>part \<in> set (Partition ops). linearizable (path stepKV keyState0) part)"
  using parts_iff_joint [OF assms] by (simp add: linearizable_parts_def kvNondeterministicModel_def)

definition sample_op :: "int \<Rightarrow> int \<Rightarrow> bytes \<Rightarrow> uint64 \<Rightarrow> porcOp" where
  "sample_op c r k v = \<lparr>pClientId = 1, pInput = (sample_put 1 1)\<lparr>cmdKey := k\<rparr>,
     pOutput = \<lparr>ocKnown = True, ocRes = \<lparr>resStatus = StatusOK, resValue = None, resVersion = v\<rparr>\<rparr>,
     pCall = c, pReturn = r\<rparr>"

lemma sample_ops_linearizable:
  "linearizable (jpath (\<lambda>_. keyState0)) [sample_op 0 9 [1] 2, sample_op 1 2 [1] 1, sample_op 3 4 [2] 1]"
  unfolding linearizable_def
  by (rule exI [of _ "[sample_op 1 2 [1] 1, sample_op 0 9 [1] 2, sample_op 3 4 [2] 1]"])
    (simp add: sample_op_def real_time_def stepKV_def sample_put_def)

theorem by_key_check_exact_witness:
  "list_all (linearizable (path stepKV keyState0))
     (Partition [sample_op 0 9 [1] 2, sample_op 1 2 [1] 1, sample_op 3 4 [2] 1])"
proof -
  have "intervals [sample_op 0 9 [1] 2, sample_op 1 2 [1] 1, sample_op 3 4 [2] 1]"
    by (simp add: intervals_def sample_op_def)
  from by_key_check_exact [OF this] sample_ops_linearizable show ?thesis by (simp add: list_all_iff)
qed

section \<open>Recorded histories\<close>

definition pending_ok :: "int \<Rightarrow> History \<Rightarrow> bool" where
  "pending_ok t h \<longleftrightarrow> (\<forall>i oper. fmlookup (hPending h) i = Some oper \<longrightarrow> i < hNextID h \<and> opCall oper \<le> t)"

lemma length_Pending: "length (Pending h) = fcard (fmdom (hPending h))"
proof -
  let ?is = "sorted_list_of_fset (fmdom (hPending h))"
  have "Pending h = map (\<lambda>i. the (fmlookup (hPending h) i)) ?is"
    unfolding Pending_def List.map_filter_def
    by (subst filter_True) (auto simp: fmlookup_dom_iff intro!: map_cong)
  then show ?thesis by (simp add: length_sorted_list_of_fset)
qed

lemma set_Pending: "set (Pending h) \<subseteq> {oper. \<exists>i. fmlookup (hPending h) i = Some oper}"
  by (auto simp: Pending_def List.map_filter_def)

lemma recorded_inv:
  assumes "recorded t h"
  shows "pending_ok t h \<and> (\<forall>oper \<in> set (hOps h). opCall oper \<le> opReturn oper \<and> opReturn oper \<le> t) \<and>
    length (hOps h) + fcard (fmdom (hPending h)) = hNextID h"
  using assms
proof induction
  case (rec_invoke t h t' c cmd)
  then have "hNextID h |\<notin>| fmdom (hPending h)"
    by (metis pending_ok_def fmlookup_dom_iff nat_less_le)
  with rec_invoke show ?case
    by (fastforce simp: Invoke_def Let_def pending_ok_def fcard_finsert_disjoint)
next
  case (rec_complete t h t' i res)
  show ?case
  proof (cases "fmlookup (hPending h) i")
    case None
    with rec_complete show ?thesis by (fastforce simp: Complete_def pending_ok_def)
  next
    case (Some oper)
    then have i: "i |\<in>| fmdom (hPending h)" by (simp add: fmlookup_dom_iff)
    then have "fcard (fmdom (hPending h)) = Suc (fcard (fmdom (fmdrop i (hPending h))))"
      by (metis fcard_Suc_fminus1 fmdom_drop)
    with Some rec_complete show ?thesis
      by (auto simp: Complete_def pending_ok_def split: if_split_asm) fastforce+
  qed
qed (simp add: NewHistory_def pending_ok_def)

text \<open>
  What a recorder hands over. After any calls of \<open>Invoke\<close> and \<open>Complete\<close> under a clock that
  never runs backwards (completions of unknown or already completed operations included),
  every invoked operation is either completed or pending and is handed to the checker once,
  and every interval handed over is non-empty.
\<close>

lemma recorded_history:
  assumes "recorded t h" and "t \<le> maxInt64"
  shows "length (Operations h) + length (Pending h) = hNextID h \<and> length (checkOps h) = hNextID h \<and>
    intervals (checkOps h)"
proof -
  note inv = recorded_inv [OF assms(1)]
  then have "\<forall>oper \<in> set (Pending h). opCall oper \<le> maxInt64"
    using set_Pending assms(2) by (fastforce simp: pending_ok_def)
  with inv show ?thesis
    by (auto simp: Operations_def length_Pending checkOps_def intervals_def)
qed

definition sample_history :: History where
  "sample_history = Complete (snd (Invoke (snd (Invoke NewHistory 1 (sample_put 1 1) 3)) 2 (sample_put 2 1) 5))
     0 \<lparr>resStatus = StatusOK, resValue = None, resVersion = 1\<rparr> 7"

lemma sample_history_recorded: "recorded 7 sample_history"
  unfolding sample_history_def
  by (rule rec_complete [where t = 5], rule rec_invoke [where t = 3], rule rec_invoke [where t = 0], rule rec_new) simp_all

lemma recorded_history_example:
  "length (checkOps sample_history) = 2 \<and> intervals (checkOps sample_history)"
  using recorded_history [OF sample_history_recorded]
  by (simp add: maxInt64_def sample_history_def Complete_def Invoke_def NewHistory_def)

section \<open>The verdict\<close>

lemma jpath_lost: "\<forall>x \<in> set xs. \<not> ocKnown (pOutput x) \<Longrightarrow> jpath S xs"
proof (induction xs arbitrary: S)
  case (Cons x xs)
  then have "jpath (S(opKey x := S (opKey x))) xs" by simp
  moreover have "S (opKey x) \<in> set (stepKV (S (opKey x)) (pInput x) (pOutput x))"
    using Cons.prems by (simp add: stepKV_unknown)
  ultimately show ?case unfolding jpath.simps by blast
qed simp

lemma jpath_serves:
  "serves m xs \<Longrightarrow> \<forall>x \<in> set ys. \<not> ocKnown (pOutput x) \<Longrightarrow> jpath (keyOf m) (xs @ ys)"
proof (induction xs arbitrary: m)
  case (Cons x xs)
  then obtain r m' where ex: "execute m (pInput x) = Some (r, m')"
      "ocKnown (pOutput x) \<longrightarrow> ocRes (pOutput x) = r" "serves m' xs"
    by (auto split: option.split_asm)
  have "keyOf m' (opKey x) \<in> set (stepKV (keyOf m (opKey x)) (pInput x) (pOutput x))"
  proof (cases "ocKnown (pOutput x)")
    case True
    with ex(2) have "pOutput x = \<lparr>ocKnown = True, ocRes = r\<rparr>" by simp
    then show ?thesis using stepKV_execute [OF ex(1), of r] by (simp add: same_answer_def)
  next
    case False
    then show ?thesis using stepKV_took_effect execute_key [OF ex(1)] by simp
  qed
  moreover have upd: "(keyOf m)(opKey x := keyOf m' (opKey x)) = keyOf m'"
    using execute_key [OF ex(1)] by simp
  have "jpath ((keyOf m)(opKey x := keyOf m' (opKey x))) (xs @ ys)"
    unfolding upd by (rule Cons.IH [OF ex(3) Cons.prems(2)])
  ultimately show ?case unfolding append_Cons jpath.simps by blast
qed (simp add: jpath_lost)

lemma explained_linearizable:
  assumes "explained ops" and "\<forall>x \<in> set ops. pCall x \<le> maxInt64"
  shows "linearizable (jpath (\<lambda>_. keyState0)) ops"
proof -
  obtain eff lost where e: "mset (eff @ lost) = mset ops" "real_time eff" "serves NewStateMachine eff"
      "\<forall>x \<in> set lost. \<not> ocKnown (pOutput x) \<and> pReturn x = maxInt64"
    using assms(1) unfolding explained_def by blast
  have "set (eff @ lost) = set ops" using e(1) by (metis set_mset_mset)
  then have calls: "\<forall>x \<in> set (eff @ lost). pCall x \<le> maxInt64" using assms(2) by simp
  have "sorted_wrt (\<lambda>a b. pCall a \<le> pReturn b) lost"
    using e(4) calls by (induction lost) auto
  with e(2,4) calls have "real_time (eff @ lost)"
    by (auto simp: real_time_def sorted_wrt_append)
  moreover have "keyOf NewStateMachine = (\<lambda>_. keyState0)"
    by (rule ext) (simp add: keyOf_def NewStateMachine_def)
  ultimately show ?thesis
    using jpath_serves [OF e(3), of lost] e(1,4) unfolding linearizable_def by metis
qed

text \<open>A checker by exhaustive search.\<close>

fun inserts :: "'a \<Rightarrow> 'a list \<Rightarrow> 'a list list" where
  "inserts x [] = [[x]]"
| "inserts x (y # ys) = (x # y # ys) # map ((#) y) (inserts x ys)"

fun perms :: "'a list \<Rightarrow> 'a list list" where
  "perms [] = [[]]"
| "perms (x # xs) = concat (map (inserts x) (perms xs))"

lemma mset_inserts: "ys \<in> set (inserts x xs) \<Longrightarrow> mset ys = add_mset x (mset xs)"
  by (induction xs arbitrary: ys) auto

lemma inserts_split: "us @ x # vs \<in> set (inserts x (us @ vs))"
  by (induction us) (cases vs; simp)+

lemma set_perms: "ys \<in> set (perms xs) \<longleftrightarrow> mset ys = mset xs"
proof (induction xs arbitrary: ys)
  case (Cons x xs)
  show ?case
  proof
    assume ys: "mset ys = mset (x # xs)"
    then have "x \<in> set ys" by (metis list.set_intros(1) set_mset_mset)
    then obtain us vs where uv: "ys = us @ x # vs" by (meson split_list)
    with ys have "us @ vs \<in> set (perms xs)" by (simp add: Cons.IH)
    with uv inserts_split show "ys \<in> set (perms (x # xs))" by fastforce
  qed (use Cons.IH in \<open>auto dest: mset_inserts\<close>)
qed simp

definition bruteForce :: "porcModel \<Rightarrow> porcOp list \<Rightarrow> CheckResult" where
  "bruteForce M ops =
     (if \<forall>part \<in> set (mPartition M ops). \<exists>st \<in> set (mInit M). \<exists>xs \<in> set (perms part). real_time xs \<and> path (mStep M) st xs
      then Ok else Illegal)"

lemma bruteForce_iff: "bruteForce M ops = (if linearizable_parts M ops then Ok else Illegal)"
  unfolding bruteForce_def linearizable_parts_def linearizable_def Bex_def set_perms by auto

text \<open>
  What a verdict says about the store. Let the checker answer \<open>Ok\<close> only for histories
  whose parts all have a linearization, and \<open>Illegal\<close> only where some part has none. Then \<open>Ok\<close>
  on a recorded history means that the whole history has a linearization, and a history that
  the store itself can explain (every answer it gave, operations without an answer having
  taken effect or not) is never reported \<open>Illegal\<close>.
\<close>

lemma Check_verdict:
  assumes "recorded t h" and "t \<le> maxInt64"
    and "\<And>M ops. porcupine M ops = Ok \<Longrightarrow> linearizable_parts M ops"
    and "\<And>M ops. porcupine M ops = Illegal \<Longrightarrow> \<not> linearizable_parts M ops"
  shows "(Check porcupine h = Ok \<longrightarrow> linearizable (jpath (\<lambda>_. keyState0)) (checkOps h)) \<and>
    (explained (checkOps h) \<longrightarrow> Check porcupine h \<noteq> Illegal)"
proof -
  note inv = recorded_inv [OF assms(1)]
  have pend: "\<forall>oper \<in> set (Pending h). opCall oper \<le> maxInt64"
    using inv set_Pending assms(2) by (fastforce simp: pending_ok_def)
  have ints: "intervals (checkOps h)"
    using inv pend by (auto simp: checkOps_def intervals_def Operations_def)
  have "\<forall>x \<in> set (checkOps h). pCall x \<le> maxInt64"
    using inv pend assms(2) by (fastforce simp: checkOps_def Operations_def)
  with explained_linearizable parts_iff_joint [OF ints] assms(3,4) show ?thesis
    unfolding Check_def by blast
qed

lemma explained_not_illegal:
  "explained (checkOps sample_history) \<and> Check bruteForce sample_history \<noteq> Illegal"
proof -
  have left: "{Suc 0, 0} - {0} = {Suc 0}" by auto
  have ops: "checkOps sample_history =
      [\<lparr>pClientId = 1, pInput = sample_put 1 1,
        pOutput = \<lparr>ocKnown = True, ocRes = \<lparr>resStatus = StatusOK, resValue = None, resVersion = 1\<rparr>\<rparr>, pCall = 3, pReturn = 7\<rparr>,
       \<lparr>pClientId = 2, pInput = sample_put 2 1, pOutput = \<lparr>ocKnown = False, ocRes = zeroResult\<rparr>,
        pCall = 5, pReturn = maxInt64\<rparr>]"
    by (simp add: checkOps_def Operations_def Pending_def sample_history_def Complete_def Invoke_def NewHistory_def
        List.map_filter_def sorted_list_of_fset.rep_eq left)
  have "explained (checkOps sample_history)"
    unfolding explained_def
    by (intro exI [of _ "checkOps sample_history"] exI [of _ "[]"])
      (simp add: ops real_time_def maxInt64_def execute_def sample_put_def NewStateMachine_def fmget_def)
  moreover have "linearizable_parts M ops" if "bruteForce M ops = Ok" for M ops
    using that by (simp add: bruteForce_iff split: if_split_asm)
  moreover have "\<not> linearizable_parts M ops" if "bruteForce M ops = Illegal" for M ops
    using that by (simp add: bruteForce_iff split: if_split_asm)
  moreover have "7 \<le> maxInt64" by (simp add: maxInt64_def)
  ultimately show ?thesis using Check_verdict [OF sample_history_recorded, of bruteForce] by blast
qed

end
