(* ===== verification/Sim_State.thy ===== *)
theory Sim_State
  imports Sim_Network Sim_Trace Sim_Queue Sim_Checker Lin_Model
begin

text \<open>
  The state of the simulator (\<^verbatim>\<open>sim/sim.go\<close>), its scheduling primitives (\<^verbatim>\<open>sim/loop.go\<close>,
  \<^verbatim>\<open>sim/deliver.go\<close>), the workload's random draws (\<^verbatim>\<open>sim/gen.go\<close>) and its clients
  (\<^verbatim>\<open>sim/workload.go\<close>).

  A closure on the event queue is a value of \<open>action\<close> that names what the closure captured: nodes
  and clients by their number, a message, a sequence number and an attempt. The fault programs
  of \<^verbatim>\<open>sim/scenario.go\<close> are values of \<open>fault\<close>. Go's \<open>int\<close> and \<open>int64\<close> are unbounded here.

  All nodes draw from the run's one generator: \<open>shareRng\<close> hands a node the rest of the run's
  sequence before a call that may draw, \<open>takeRng\<close> advances the run by what the node drew.

  An operation returns \<open>None\<close> where the code panics.
\<close>

section \<open>Configuration\<close>

record WorkloadConfig =
  wlClients :: int
  wlKeys :: int
  wlThinkMin :: VirtualTime
  wlThinkMax :: VirtualTime
  wlPutRatio :: rat
  wlDeleteRatio :: rat
  wlCasRatio :: rat

record SimConfig =
  cfSeed :: nat
  cfNodes :: int
  cfElectionTicks :: int
  cfHeartbeatTicks :: int
  cfTickEvery :: VirtualTime
  cfSnapshotEntries :: nat
  cfNet :: NetworkConfig
  cfWorkload :: WorkloadConfig

datatype sim_config_error =
    BadNodes
  | BadElectionTicks
  | BadHeartbeatTicks
  | BadTickEvery
  | BadDropRate
  | BadDupRate
  | BadRatios

definition sim_validate :: "SimConfig \<Rightarrow> sim_config_error option" where
  "sim_validate c =
     (if cfNodes c \<le> 0 then Some BadNodes
      else if cfElectionTicks c \<le> cfHeartbeatTicks c then Some BadElectionTicks
      else if cfHeartbeatTicks c \<le> 0 then Some BadHeartbeatTicks
      else if cfTickEvery c \<le> 0 then Some BadTickEvery
      else if ncDropRate (cfNet c) < 0 \<or> ncDropRate (cfNet c) > 1 then Some BadDropRate
      else if ncDupRate (cfNet c) < 0 \<or> ncDupRate (cfNet c) > 1 then Some BadDupRate
      else
        let r = wlPutRatio (cfWorkload c) + wlDeleteRatio (cfWorkload c) + wlCasRatio (cfWorkload c)
        in if r < 0 \<or> r > 1 then Some BadRatios else None)"

section \<open>State\<close>

record client =
  ctId :: uint64
  ctSeq :: uint64
  ctLeaderHint :: nat
  ctPending :: bool
  ctCmd :: Command
  ctHistID :: nat
  ctAttempt :: nat

abbreviation command0 :: Command where
  "command0 \<equiv> \<lparr>cmdClientID = 0, cmdSeq = 0, cmdOp = OpInvalid, cmdKey = [], cmdValue = None, cmdExpect = None\<rparr>"

definition client0 :: "uint64 \<Rightarrow> client" where
  "client0 i = \<lparr>ctId = i, ctSeq = 0, ctLeaderHint = 0, ctPending = False, ctCmd = command0, ctHistID = 0, ctAttempt = 0\<rparr>"

datatype fault =
    LeaderCutCycle
  | LeaderCutHeal
  | HalfCutCycle
  | HalfCutHeal
  | LeaderCrashCycle
  | LeaderCrashRestart nat
  | ChaosCutCycle
  | ChaosCutHeal
  | ChaosCrashCycle
  | ChaosCrashRestart nat
  | SnapshotCutCycle
  | SnapshotCutHeal

datatype action =
    ActTick nat
  | ActDeliver nat Message
  | ActIssue nat
  | ActRetry nat uint64 nat
  | ActFault fault

datatype start_error = StartNodeError "config_error + raft_error" | StartRestoreError kv_error

datatype sim_error =
    Violated VirtualTime violation
  | RestartFailed nat start_error
  | PersistSnapshotFailed nat raft_error
  | PersistEntriesFailed nat raft_error
  | PersistHardStateFailed nat raft_error
  | RestoreFailed nat kv_error
  | ReadSnapshotFailed nat raft_error
  | CompactionFailed nat raft_error
  | DecodeFailed nat nat kv_error
  | NotLinearizable
  | Inconclusive

text \<open>An error with the scenario and the seed that replay it.\<close>

type_synonym replay = "sim_error \<times> string \<times> nat"

record Simulator =
  siCfg :: SimConfig
  siRng :: rng
  siNow :: VirtualTime
  siSeq :: nat
  siQueue :: "action eventQueue"
  siScenario :: string
  siPeers :: "nat list"
  siNodes :: nodes
  siNet :: network
  siRec :: recorder
  siHist :: History
  siClients :: "client list"
  siChecker :: invariants
  siFirstErr :: "replay option"

definition withReplay :: "Simulator \<Rightarrow> sim_error \<Rightarrow> replay" where
  "withReplay s e = (e, siScenario s, cfSeed (siCfg s))"

definition sim_fail :: "sim_error \<Rightarrow> Simulator \<Rightarrow> Simulator" where
  "sim_fail e s = (if siFirstErr s = None then s\<lparr>siFirstErr := Some (withReplay s e)\<rparr> else s)"

section \<open>Tracing and scheduling\<close>

definition recordControl :: "string \<Rightarrow> nat \<Rightarrow> string \<Rightarrow> Simulator \<Rightarrow> Simulator" where
  "recordControl kind node detail s =
     (let s = s\<lparr>siSeq := siSeq s + 1\<rparr>
      in s\<lparr>siRec := rec_record (siRec s)
              \<lparr>teAt = siNow s, teSeq = siSeq s, teKind = kind, teNode = node, teDetail = detail\<rparr>\<rparr>)"

definition nextSeq :: "Simulator \<Rightarrow> nat \<times> Simulator" where
  "nextSeq s = (siSeq s + 1, s\<lparr>siSeq := siSeq s + 1\<rparr>)"

definition schedule :: "VirtualTime \<Rightarrow> string \<Rightarrow> nat \<Rightarrow> string \<Rightarrow> action \<Rightarrow> Simulator \<Rightarrow> Simulator" where
  "schedule after kind node detail act s =
     (let (k, s) = nextSeq s
      in s\<lparr>siQueue := queue_push
              \<lparr>evAt = siNow s + after, evSeq = k, evKind = kind, evNode = node, evDetail = detail, evAction = act\<rparr>
              (siQueue s)\<rparr>)"

definition scheduleTick :: "nat \<Rightarrow> VirtualTime \<Rightarrow> Simulator \<Rightarrow> Simulator" where
  "scheduleTick i after s = schedule after ''tick'' i [] (ActTick i) s"

definition scheduleDeliver :: "VirtualTime \<Rightarrow> nat \<Rightarrow> Message \<Rightarrow> Simulator \<Rightarrow> Simulator" where
  "scheduleDeliver delay to m s = schedule delay ''deliver'' to (renderMessage m) (ActDeliver to m) s"

definition sendMessage :: "nat \<Rightarrow> Message \<Rightarrow> Simulator \<Rightarrow> Simulator" where
  "sendMessage from m s =
     (let to = mTo m
      in if to = from then scheduleDeliver 0 to m s
         else
           let (d, g) = route (siNet s) (siRng s) from to m;
               s = s\<lparr>siRng := g\<rparr>
           in if \<not> dlDeliver d \<and> \<not> dlDuplicate d then recordControl ''drop'' from (renderMessage m) s
              else
                let s = (if dlDeliver d then scheduleDeliver (dlDelay d) to m s
                         else recordControl ''drop'' from (renderMessage m) s)
                in if dlDuplicate d then scheduleDeliver (dlDupDelay d) to m s else s)"

section \<open>Workload draws\<close>

definition simIntn :: "int \<Rightarrow> Simulator \<Rightarrow> int \<times> Simulator" where
  "simIntn n s = (let (v, g) = Intn (siRng s) n in (v, s\<lparr>siRng := g\<rparr>))"

definition simFloat64 :: "Simulator \<Rightarrow> rat \<times> Simulator" where
  "simFloat64 s = (let (v, g) = Float64 (siRng s) in (v, s\<lparr>siRng := g\<rparr>))"

definition valueFor :: "client \<Rightarrow> bytes" where
  "valueFor c = textBytes (''v-'' @ decimal (unat (ctId c)) @ ''-'' @ decimal (unat (ctSeq c)))"

definition drawKey :: "Simulator \<Rightarrow> bytes \<times> Simulator" where
  "drawKey s =
     (let n = wlKeys (cfWorkload (siCfg s))
      in if n \<le> 1 then (textBytes ''k0'', s)
         else let (v, s) = simIntn n s in (textBytes (''k'' @ decimalInt v), s))"

definition genCommand :: "client \<Rightarrow> Simulator \<Rightarrow> Command \<times> Simulator" where
  "genCommand c s =
     (let w = cfWorkload (siCfg s);
          (key, s) = drawKey s;
          cmd = command0\<lparr>cmdClientID := ctId c, cmdSeq := ctSeq c, cmdKey := key\<rparr>;
          (r, s) = simFloat64 s
      in if r < wlPutRatio w then (cmd\<lparr>cmdOp := OpPut, cmdValue := Some (valueFor c)\<rparr>, s)
         else if r < wlPutRatio w + wlDeleteRatio w then (cmd\<lparr>cmdOp := OpDelete\<rparr>, s)
         else if r < wlPutRatio w + wlDeleteRatio w + wlCasRatio w then
           let cmd = cmd\<lparr>cmdOp := OpCAS, cmdValue := Some (valueFor c)\<rparr>;
               (q, s) = simFloat64 s
           in if q < 1 / 2 then (cmd\<lparr>cmdExpect := Some (textBytes (''v-'' @ decimal (unat (ctId c))))\<rparr>, s)
              else (cmd, s)
         else (cmd\<lparr>cmdOp := OpGet\<rparr>, s))"

definition drawDur :: "VirtualTime \<Rightarrow> VirtualTime \<Rightarrow> Simulator \<Rightarrow> VirtualTime \<times> Simulator" where
  "drawDur lo hi s = (if hi \<le> lo then (lo, s) else let (v, s) = simIntn (hi - lo + 1) s in (lo + v, s))"

definition drawThink :: "Simulator \<Rightarrow> VirtualTime \<times> Simulator" where
  "drawThink s =
     (let lo = wlThinkMin (cfWorkload (siCfg s)); hi = wlThinkMax (cfWorkload (siCfg s))
      in if hi \<le> lo then (if 0 < lo then (lo, s) else (cfTickEvery (siCfg s), s))
         else let (v, s) = simIntn (hi - lo + 1) s in (lo + v, s))"

definition retryTimeout :: "Simulator \<Rightarrow> VirtualTime" where
  "retryTimeout s = cfElectionTicks (siCfg s) * 4 * cfTickEvery (siCfg s)"

section \<open>Clients\<close>

definition upd_client :: "nat \<Rightarrow> (client \<Rightarrow> client) \<Rightarrow> Simulator \<Rightarrow> Simulator" where
  "upd_client ci f s = s\<lparr>siClients := (siClients s)[ci := f (siClients s ! ci)]\<rparr>"

definition scheduleClientOp :: "nat \<Rightarrow> VirtualTime \<Rightarrow> Simulator \<Rightarrow> Simulator" where
  "scheduleClientOp ci after s = schedule after ''client'' (unat (ctId (siClients s ! ci))) [] (ActIssue ci) s"

definition finish :: "nat \<Rightarrow> Result \<Rightarrow> Simulator \<Rightarrow> Simulator" where
  "finish ci res s =
     (let c = siClients s ! ci;
          s = s\<lparr>siHist := Complete (siHist s) (ctHistID c) res (siNow s)\<rparr>;
          s = recordControl ''return'' (unat (ctId c)) (renderResult res) s;
          s = upd_client ci (\<lambda>c. c\<lparr>ctPending := False\<rparr>) s;
          (d, s) = drawThink s
      in scheduleClientOp ci d s)"

fun workloadLoop :: "nat \<Rightarrow> nat \<Rightarrow> Simulator \<Rightarrow> Simulator" where
  "workloadLoop i 0 s = s"
| "workloadLoop i (Suc k) s =
     (let s = s\<lparr>siClients := siClients s @ [client0 (word_of_nat (i + 1))]\<rparr>;
          (d, s) = drawThink s
      in workloadLoop (i + 1) k (scheduleClientOp i d s))"

text \<open>\<open>make\<close> panics on a negative capacity.\<close>

definition startWorkload :: "Simulator \<Rightarrow> Simulator option" where
  "startWorkload s =
     (let n = wlClients (cfWorkload (siCfg s))
      in if n < 0 then None else Some (workloadLoop 0 (nat n) (s\<lparr>siClients := []\<rparr>)))"

section \<open>Nodes\<close>

definition upd_node :: "nat \<Rightarrow> (nodeState \<Rightarrow> nodeState) \<Rightarrow> Simulator \<Rightarrow> Simulator" where
  "upd_node i f s = s\<lparr>siNodes := (siNodes s)(i := map_option f (siNodes s i))\<rparr>"

text \<open>The raft node of a simulated node that is present, up and running.\<close>

definition running :: "Simulator \<Rightarrow> nat \<Rightarrow> tstore Node option" where
  "running s i =
     (case siNodes s i of
        None \<Rightarrow> None
      | Some ns \<Rightarrow> if nsCrashed ns then None else nsNode ns)"

definition shareRng :: "rng \<Rightarrow> tstore Node \<Rightarrow> tstore Node" where
  "shareRng g n =
     n\<lparr>nr := (nr n)\<lparr>cfg := (cfg (nr n))\<lparr>cfgRand := Some (\<lambda>k. rgRaw g (rgPos g + k))\<rparr>, rndPos := 0\<rparr>\<rparr>"

definition takeRng :: "tstore Node \<Rightarrow> rng \<Rightarrow> rng" where
  "takeRng n g = g\<lparr>rgPos := rgPos g + rndPos (nr n)\<rparr>"

definition setStorage :: "tstore \<Rightarrow> nodeState \<Rightarrow> nodeState" where
  "setStorage st ns =
     (case nsNode ns of
        None \<Rightarrow> ns\<lparr>nsDisk := st\<rparr>
      | Some n \<Rightarrow> ns\<lparr>nsNode := Some (n\<lparr>nr := (nr n)\<lparr>raftLog := (raftLog (nr n))\<lparr>lStorage := st\<rparr>\<rparr>\<rparr>)\<rparr>)"

definition startNode :: "nodeState \<Rightarrow> Simulator \<Rightarrow> (start_error option \<times> nodeState \<times> Simulator) option" where
  "startNode ns s = do {
     let g = siRng s;
     r \<leftarrow> NewNode simOps
            \<lparr>cfgID = nsId ns, cfgPeers = siPeers s, cfgElectionTicks = cfElectionTicks (siCfg s),
             cfgHeartbeatTicks = cfHeartbeatTicks (siCfg s), cfgMaxEntriesPerAppend = 0, cfgPreVote = True,
             cfgRand = Some (\<lambda>k. rgRaw g (rgPos g + k))\<rparr> (Some (ns_storage ns));
     case r of
       Inl e \<Rightarrow> Some (Some (StartNodeError e), ns, s)
     | Inr n \<Rightarrow>
         let s = s\<lparr>siRng := takeRng n g\<rparr>;
             ns = ns\<lparr>nsNode := Some n, nsSM := Some NewStateMachine, nsApplied := 0, nsAppliedLog := []\<rparr>
         in Some (case opSnapshot simOps (ns_storage ns) of
              Inl _ \<Rightarrow> (None, ns, s)
            | Inr snap \<Rightarrow>
                if 0 < snIndex snap then
                  (if 0 < length (snData snap) then
                     (case Restore NewStateMachine (snData snap) of
                        (Some e, sm) \<Rightarrow> (Some (StartRestoreError e), ns\<lparr>nsSM := Some sm\<rparr>, s)
                      | (None, sm) \<Rightarrow> (None, ns\<lparr>nsSM := Some sm, nsApplied := snIndex snap\<rparr>, s))
                   else (None, ns\<lparr>nsApplied := snIndex snap\<rparr>, s))
                else (None, ns, s)) }"

end
