(* ===== verification/Sim_Loop.thy ===== *)
theory Sim_Loop
  imports Sim_State
begin

text \<open>
  The simulator's drive loop (\<^verbatim>\<open>sim/loop.go\<close>), its clients' requests (\<^verbatim>\<open>sim/workload.go\<close>), the
  fault primitives, the dispatch of events and the construction of a run (\<^verbatim>\<open>sim/sim.go\<close>), and the
  fault programs (\<^verbatim>\<open>sim/scenario.go\<close>).

  \<open>None\<close> is a panic, or a loop that never ends: \<open>sim_drain\<close> runs while its node has output and
  \<open>RunUntil\<close> while events are due. A step of \<open>sim_drain\<close> that fails returns early with \<open>Inl\<close>.
\<close>

section \<open>Answering clients\<close>

definition is_leader :: "nodeState \<Rightarrow> bool" where
  "is_leader ns = (case nsNode ns of None \<Rightarrow> False | Some n \<Rightarrow> Node_State n = StateLeader)"

definition completeIfLeader :: "nodeState \<Rightarrow> Command \<Rightarrow> Result \<Rightarrow> Simulator \<Rightarrow> Simulator" where
  "completeIfLeader ns cmd res s =
     (if \<not> is_leader ns then s
      else if cmdClientID cmd = 0 \<or> unat (cmdClientID cmd) > length (siClients s) then s
      else
        let ci = unat (cmdClientID cmd) - 1; c = siClients s ! ci
        in if \<not> ctPending c \<or> cmdOp (ctCmd c) = OpGet \<or> ctSeq c \<noteq> cmdSeq cmd then s
           else finish ci res s)"

text \<open>A running node has a state machine; without one \<open>Read\<close> would dereference nil.\<close>

definition sim_serveRead :: "nodeState \<Rightarrow> ReadState \<Rightarrow> Simulator \<Rightarrow> Simulator option" where
  "sim_serveRead ns rs s =
     (if \<not> is_leader ns then Some s
      else if length (rsRequestCtx rs) \<noteq> 16 then Some s
      else
        let clientID = be_nat (take 8 (rsRequestCtx rs));
            seq = be_nat (drop 8 (rsRequestCtx rs))
        in if clientID = 0 \<or> clientID > length (siClients s) then Some s
           else
             let ci = clientID - 1; c = siClients s ! ci
             in if \<not> ctPending c \<or> cmdOp (ctCmd c) \<noteq> OpGet \<or> unat (ctSeq c) \<noteq> seq then Some s
                else do {
                  sm \<leftarrow> nsSM ns;
                  Some (finish ci (Read sm (cmdKey (ctCmd c))) s) })"

fun sim_servePendingLoop ::
  "nodeState \<Rightarrow> ReadState list \<Rightarrow> Simulator \<Rightarrow> (ReadState list \<times> Simulator) option" where
  "sim_servePendingLoop ns [] s = Some ([], s)"
| "sim_servePendingLoop ns (rs # rss) s =
     (if rsIndex rs \<le> nsApplied ns then do {
        s \<leftarrow> sim_serveRead ns rs s;
        sim_servePendingLoop ns rss s }
      else do {
        (kept, s) \<leftarrow> sim_servePendingLoop ns rss s;
        Some (rs # kept, s) })"

definition sim_servePendingReads :: "nat \<Rightarrow> Simulator \<Rightarrow> Simulator option" where
  "sim_servePendingReads i s = do {
     ns \<leftarrow> siNodes s i;
     if length (nsPendingReads ns) = 0 then Some s
     else do {
       (kept, s) \<leftarrow> sim_servePendingLoop ns (nsPendingReads ns) s;
       Some (upd_node i (\<lambda>ns. ns\<lparr>nsPendingReads := kept\<rparr>) s) } }"

definition sim_releaseRead :: "nat \<Rightarrow> ReadState \<Rightarrow> Simulator \<Rightarrow> Simulator option" where
  "sim_releaseRead i rs s = do {
     ns \<leftarrow> siNodes s i;
     if rsIndex rs \<le> nsApplied ns then sim_serveRead ns rs s
     else Some (upd_node i (\<lambda>ns. ns\<lparr>nsPendingReads := nsPendingReads ns @ [rs]\<rparr>) s) }"

definition sim_applyEntry :: "nat \<Rightarrow> Entry \<Rightarrow> Simulator \<Rightarrow> Simulator option" where
  "sim_applyEntry i e s = do {
     ns \<leftarrow> siNodes s i;
     if eIndex e \<le> nsApplied ns then Some s
     else do {
       let s = upd_node i (\<lambda>ns. ns\<lparr>nsApplied := eIndex e,
                 nsAppliedLog := nsAppliedLog ns @ [\<lparr>arIndex = eIndex e, arTerm = eTerm e, arDigest = fnv64 (eData e)\<rparr>]\<rparr>) s;
       if eType e = EntryNormal \<and> 0 < length (eData e) then
         (case DecodeCommand (eData e) of
            Inl err \<Rightarrow> Some (sim_fail (DecodeFailed (nsId ns) (eIndex e) err) s)
          | Inr cmd \<Rightarrow> do {
              sm \<leftarrow> nsSM ns;
              (res, sm) \<leftarrow> Apply sm cmd;
              let s = upd_node i (\<lambda>ns. ns\<lparr>nsSM := Some sm\<rparr>) s;
              ns \<leftarrow> siNodes s i;
              sim_servePendingReads i (completeIfLeader ns cmd res s) })
       else sim_servePendingReads i s } }"

section \<open>Draining a node\<close>

definition simPersistSnapshot :: "nat \<Rightarrow> Ready \<Rightarrow> Simulator \<Rightarrow> (Simulator + Simulator) option" where
  "simPersistSnapshot i rd s =
     (case rdSnapshot rd of
        None \<Rightarrow> Some (Inr s)
      | Some snap \<Rightarrow> do {
          ns \<leftarrow> siNodes s i;
          let (e, st) = opApplySnapshot simOps (ns_storage ns) snap;
          let s = upd_node i (setStorage st) s;
          case e of
            Some err \<Rightarrow> Some (Inl (sim_fail (PersistSnapshotFailed (nsId ns) err) s))
          | None \<Rightarrow> Some (Inr s) })"

definition simPersistEntries :: "nat \<Rightarrow> Ready \<Rightarrow> Simulator \<Rightarrow> (Simulator + Simulator) option" where
  "simPersistEntries i rd s =
     (if 0 < length (rdEntries rd) then do {
        ns \<leftarrow> siNodes s i;
        (e, st) \<leftarrow> opAppendEntries simOps (ns_storage ns) (rdEntries rd);
        let s = upd_node i (setStorage st) s;
        case e of
          Some err \<Rightarrow> Some (Inl (sim_fail (PersistEntriesFailed (nsId ns) err) s))
        | None \<Rightarrow> Some (Inr s) }
      else Some (Inr s))"

definition simPersistHardState :: "nat \<Rightarrow> Ready \<Rightarrow> Simulator \<Rightarrow> (Simulator + Simulator) option" where
  "simPersistHardState i rd s =
     (case rdHardState rd of
        None \<Rightarrow> Some (Inr s)
      | Some hs \<Rightarrow> do {
          ns \<leftarrow> siNodes s i;
          let (e, st) = opSetHardState simOps (ns_storage ns) hs;
          let s = upd_node i (setStorage st) s;
          case e of
            Some err \<Rightarrow> Some (Inl (sim_fail (PersistHardStateFailed (nsId ns) err) s))
          | None \<Rightarrow> Some (Inr s) })"

definition simSend :: "nat \<Rightarrow> Ready \<Rightarrow> Simulator \<Rightarrow> Simulator" where
  "simSend i rd s = fold (sendMessage i) (rdMessages rd) s"

definition simInstall :: "nat \<Rightarrow> Ready \<Rightarrow> Simulator \<Rightarrow> (Simulator + Simulator) option" where
  "simInstall i rd s =
     (case rdSnapshot rd of
        None \<Rightarrow> Some (Inr s)
      | Some snap \<Rightarrow> do {
          ns \<leftarrow> siNodes s i;
          sm \<leftarrow> nsSM ns;
          let (e, sm) = (if 0 < length (snData snap) then Restore sm (snData snap) else (None, sm));
          let s = upd_node i (\<lambda>ns. ns\<lparr>nsSM := Some sm\<rparr>) s;
          case e of
            Some err \<Rightarrow> Some (Inl (sim_fail (RestoreFailed (nsId ns) err) s))
          | None \<Rightarrow> Some (Inr (if snIndex snap > nsApplied ns
                               then upd_node i (\<lambda>ns. ns\<lparr>nsApplied := snIndex snap\<rparr>) s else s)) })"

definition simAdvance :: "nat \<Rightarrow> Simulator \<Rightarrow> Simulator option" where
  "simAdvance i s = do {
     n \<leftarrow> running s i;
     n \<leftarrow> Advance n;
     Some (upd_node i (\<lambda>ns. ns\<lparr>nsNode := Some n\<rparr>) s) }"

definition maybeCompact :: "nat \<Rightarrow> Simulator \<Rightarrow> Simulator option" where
  "maybeCompact i s = do {
     ns \<leftarrow> siNodes s i;
     if cfSnapshotEntries (siCfg s) = 0 \<or> nsCrashed ns \<or> nsSM ns = None then Some s
     else
       (case opSnapshot simOps (ns_storage ns) of
          Inl err \<Rightarrow> Some (sim_fail (ReadSnapshotFailed (nsId ns) err) s)
        | Inr snap \<Rightarrow>
            let base = snIndex snap
            in if nsApplied ns \<le> base \<or> nsApplied ns - base < cfSnapshotEntries (siCfg s) then Some s
               else
                 (case opTerm simOps (ns_storage ns) (nsApplied ns) of
                    Inl _ \<Rightarrow> Some s
                  | Inr t \<Rightarrow>
                      let (e, st) = opApplySnapshot simOps (ns_storage ns)
                            \<lparr>snMetadata = \<lparr>smIndex = nsApplied ns, smTerm = t\<rparr>, snData = Snapshot (the (nsSM ns))\<rparr>;
                          s = upd_node i (setStorage st) s
                      in if e \<noteq> None \<and> e \<noteq> Some ErrCompacted
                         then Some (sim_fail (CompactionFailed (nsId ns) (the e)) s)
                         else Some (recordControl ''compact'' (nsId ns)
                                 (''index='' @ decimal (nsApplied ns) @ '' term='' @ decimal t) s))) }"

definition stage ::
  "(Simulator + Simulator) option \<Rightarrow> (Simulator \<Rightarrow> (Simulator + Simulator) option) \<Rightarrow> (Simulator + Simulator) option" where
  "stage x f = do { r \<leftarrow> x; case r of Inl s \<Rightarrow> Some (Inl s) | Inr s \<Rightarrow> f s }"

definition sim_drainOnce :: "nat \<Rightarrow> Simulator \<Rightarrow> (Simulator + Simulator) option" where
  "sim_drainOnce i s = do {
     n \<leftarrow> running s i;
     (rd, n) \<leftarrow> Node_Ready simOps n;
     let s = upd_node i (\<lambda>ns. ns\<lparr>nsNode := Some n\<rparr>) s;
     stage (simPersistSnapshot i rd s) (\<lambda>s.
     stage (simPersistEntries i rd s) (\<lambda>s.
     stage (simPersistHardState i rd s) (\<lambda>s.
     stage (simInstall i rd (simSend i rd s)) (\<lambda>s. do {
       s \<leftarrow> fold_opt (sim_applyEntry i) (rdCommittedEntries rd) s;
       s \<leftarrow> fold_opt (sim_releaseRead i) (rdReadStates rd) s;
       s \<leftarrow> simAdvance i s;
       s \<leftarrow> maybeCompact i s;
       Some (Inr s) })))) }"

partial_function (option) sim_drainLoop :: "nat \<Rightarrow> Simulator \<Rightarrow> Simulator option" where
  "sim_drainLoop i s = do {
     n \<leftarrow> running s i;
     more \<leftarrow> HasReady simOps n;
     if more then do {
       r \<leftarrow> sim_drainOnce i s;
       (case r of Inl s \<Rightarrow> Some s | Inr s \<Rightarrow> sim_drainLoop i s) }
     else Some s }"

definition sim_drain :: "nat \<Rightarrow> Simulator \<Rightarrow> Simulator option" where
  "sim_drain i s = (case running s i of None \<Rightarrow> Some s | Some _ \<Rightarrow> sim_drainLoop i s)"

section \<open>Ticks, messages and requests\<close>

definition nodeTick :: "nat \<Rightarrow> tstore Node \<Rightarrow> Simulator \<Rightarrow> Simulator option" where
  "nodeTick i n s = do {
     n \<leftarrow> Tick simOps (shareRng (siRng s) n);
     Some (upd_node i (\<lambda>ns. ns\<lparr>nsNode := Some n\<rparr>) (s\<lparr>siRng := takeRng n (siRng s)\<rparr>)) }"

definition nodeStep :: "nat \<Rightarrow> tstore Node \<Rightarrow> Message \<Rightarrow> Simulator \<Rightarrow> (raft_error option \<times> Simulator) option" where
  "nodeStep i n m s = do {
     (e, n) \<leftarrow> Node_Step simOps m (shareRng (siRng s) n);
     Some (e, upd_node i (\<lambda>ns. ns\<lparr>nsNode := Some n\<rparr>) (s\<lparr>siRng := takeRng n (siRng s)\<rparr>)) }"

definition doTick :: "nat \<Rightarrow> Simulator \<Rightarrow> Simulator option" where
  "doTick i s =
     (case running s i of
        None \<Rightarrow> Some s
      | Some n \<Rightarrow> do {
          s \<leftarrow> nodeTick i n s;
          s \<leftarrow> sim_drain i s;
          Some (scheduleTick i (cfTickEvery (siCfg s)) s) })"

definition sim_step :: "nat \<Rightarrow> Message \<Rightarrow> Simulator \<Rightarrow> Simulator option" where
  "sim_step i m s =
     (case running s i of
        None \<Rightarrow> Some s
      | Some n \<Rightarrow> do {
          (e, s) \<leftarrow> nodeStep i n m s;
          sim_drain i s })"

definition candidateOrder :: "client \<Rightarrow> Simulator \<Rightarrow> nat list" where
  "candidateOrder c s =
     (if ctLeaderHint c \<noteq> 0 then [ctLeaderHint c] else []) @ filter (\<lambda>i. i \<noteq> ctLeaderHint c) (siPeers s)"

fun offer :: "nat \<Rightarrow> Message \<Rightarrow> nat list \<Rightarrow> Simulator \<Rightarrow> Simulator option" where
  "offer ci m [] s = Some s"
| "offer ci m (i # is) s =
     (case running s i of
        None \<Rightarrow> offer ci m is s
      | Some n \<Rightarrow> do {
          (e, s) \<leftarrow> nodeStep i n m s;
          if e = None then sim_drain i (upd_client ci (\<lambda>c. c\<lparr>ctLeaderHint := i\<rparr>) s)
          else do {
            n \<leftarrow> running s i;
            let lh = Node_Leader n;
            offer ci m is (if lh \<noteq> 0 then upd_client ci (\<lambda>c. c\<lparr>ctLeaderHint := lh\<rparr>) s else s) } })"

definition submitWrite :: "nat \<Rightarrow> Simulator \<Rightarrow> Simulator option" where
  "submitWrite ci s =
     (let c = siClients s ! ci
      in offer ci (message0\<lparr>mType := MsgPropose,
            mEntries := [\<lparr>eTerm = 0, eIndex = 0, eType = EntryNormal, eData = EncodeCommand (ctCmd c)\<rparr>]\<rparr>)
          (candidateOrder c s) s)"

definition submitRead :: "nat \<Rightarrow> Simulator \<Rightarrow> Simulator option" where
  "submitRead ci s =
     (let c = siClients s ! ci;
          token = be_bytes 8 (unat (ctId c)) @ be_bytes 8 (unat (ctSeq c))
      in offer ci (message0\<lparr>mType := MsgReadIndex, mContext := token\<rparr>) (candidateOrder c s) s)"

definition sim_submit :: "nat \<Rightarrow> Simulator \<Rightarrow> Simulator option" where
  "sim_submit ci s = do {
     let s = upd_client ci (\<lambda>c. c\<lparr>ctAttempt := ctAttempt c + 1\<rparr>) s;
     s \<leftarrow> (if cmdOp (ctCmd (siClients s ! ci)) = OpGet then submitRead ci s else submitWrite ci s);
     let c = siClients s ! ci;
     Some (schedule (retryTimeout s) ''client-retry'' (unat (ctId c)) [] (ActRetry ci (ctSeq c) (ctAttempt c)) s) }"

definition beginOp :: "nat \<Rightarrow> Simulator \<Rightarrow> Simulator" where
  "beginOp ci s =
     (let s = upd_client ci (\<lambda>c. c\<lparr>ctSeq := ctSeq c + 1, ctAttempt := 0\<rparr>) s;
          c = siClients s ! ci;
          (cmd, s) = genCommand c s;
          (h, hist) = Invoke (siHist s) (ctId c) cmd (siNow s);
          s = upd_client ci (\<lambda>c. c\<lparr>ctCmd := cmd, ctHistID := h, ctPending := True\<rparr>) (s\<lparr>siHist := hist\<rparr>)
      in recordControl ''invoke'' (unat (ctId c)) (renderCommand cmd) s)"

definition issue :: "nat \<Rightarrow> Simulator \<Rightarrow> Simulator option" where
  "issue ci s = (if ctPending (siClients s ! ci) then Some s else sim_submit ci (beginOp ci s))"

definition doRetry :: "nat \<Rightarrow> uint64 \<Rightarrow> nat \<Rightarrow> Simulator \<Rightarrow> Simulator option" where
  "doRetry ci seqAtSubmit attemptAtSubmit s =
     (let c = siClients s ! ci
      in if ctPending c \<and> ctSeq c = seqAtSubmit \<and> ctAttempt c = attemptAtSubmit then sim_submit ci s else Some s)"

end
