(* ===== verification/Sim_Run.thy ===== *)
theory Sim_Run
  imports Sim_Loop
begin

text \<open>
  Running a simulation: the fault primitives, event dispatch, construction and verdict of
  \<^verbatim>\<open>sim/sim.go\<close>, and the named fault programs of \<^verbatim>\<open>sim/scenario.go\<close>.
\<close>

section \<open>Fault primitives\<close>

definition sim_Partition :: "nat list list \<Rightarrow> Simulator \<Rightarrow> Simulator" where
  "sim_Partition groups s =
     recordControl ''partition'' 0 (renderGroups groups) (s\<lparr>siNet := setPartition groups (siNet s)\<rparr>)"

definition Heal :: "Simulator \<Rightarrow> Simulator" where
  "Heal s = recordControl ''heal'' 0 [] (s\<lparr>siNet := heal (siNet s)\<rparr>)"

definition Crash :: "nat \<Rightarrow> Simulator \<Rightarrow> Simulator" where
  "Crash i s =
     (case siNodes s i of
        None \<Rightarrow> s
      | Some ns \<Rightarrow>
          if nsCrashed ns then s
          else
            recordControl ''crash'' i []
              (upd_node i (\<lambda>ns. ns\<lparr>nsCrashed := True, nsDisk := ns_storage ns, nsNode := None, nsSM := None,
                                 nsApplied := 0, nsAppliedLog := []\<rparr>) s))"

definition Restart :: "nat \<Rightarrow> Simulator \<Rightarrow> Simulator option" where
  "Restart i s =
     (case siNodes s i of
        None \<Rightarrow> Some s
      | Some ns \<Rightarrow>
          if \<not> nsCrashed ns then Some s
          else do {
            (e, ns, s) \<leftarrow> startNode (ns\<lparr>nsCrashed := False\<rparr>) s;
            let s = upd_node i (\<lambda>_. ns) s;
            case e of
              Some err \<Rightarrow> Some (s\<lparr>siFirstErr := Some (withReplay s (RestartFailed i err))\<rparr>)
            | None \<Rightarrow>
                sim_drain i (scheduleTick i (cfTickEvery (siCfg s)) (recordControl ''restart'' i [] s)) })"

definition SetMessageHook :: "MessageHook option \<Rightarrow> Simulator \<Rightarrow> Simulator" where
  "SetMessageHook h s = s\<lparr>siNet := (siNet s)\<lparr>nwHook := h\<rparr>\<rparr>"

section \<open>Fault programs\<close>

definition scheduleFault :: "VirtualTime \<Rightarrow> fault \<Rightarrow> Simulator \<Rightarrow> Simulator" where
  "scheduleFault after f s = schedule after [] 0 [] (ActFault f) s"

text \<open>\<open>scheduleFault(drawDur(lo, hi), f)\<close>, with the bounds in milliseconds.\<close>

definition faultIn :: "int \<Rightarrow> int \<Rightarrow> fault \<Rightarrow> Simulator \<Rightarrow> Simulator" where
  "faultIn lo hi f s = (let (d, s) = drawDur (lo * Millisecond) (hi * Millisecond) s in scheduleFault d f s)"

definition liveLeader :: "Simulator \<Rightarrow> nat" where
  "liveLeader s = (case find (\<lambda>i. liveLeaderNode (siNodes s i)) (siPeers s) of None \<Rightarrow> 0 | Some i \<Rightarrow> i)"

definition aLiveFollower :: "Simulator \<Rightarrow> nat" where
  "aLiveFollower s =
     (case find (\<lambda>i. running s i \<noteq> None \<and> i \<noteq> liveLeader s) (siPeers s) of None \<Rightarrow> 0 | Some i \<Rightarrow> i)"

definition liveNodes :: "Simulator \<Rightarrow> nat list" where
  "liveNodes s = filter (\<lambda>i. running s i \<noteq> None) (siPeers s)"

definition sim_quorum :: "Simulator \<Rightarrow> nat" where
  "sim_quorum s = length (siPeers s) div 2 + 1"

definition isolate :: "nat \<Rightarrow> Simulator \<Rightarrow> Simulator" where
  "isolate i s = sim_Partition [[i], filter (\<lambda>j. j \<noteq> i) (siPeers s)] s"

definition leaderCutCycle :: "Simulator \<Rightarrow> Simulator" where
  "leaderCutCycle s =
     (let lead = liveLeader s
      in if lead = 0 then faultIn 100 300 LeaderCutCycle s
         else faultIn 400 900 LeaderCutHeal (isolate lead s))"

definition drawHalf :: "Simulator \<Rightarrow> nat list \<times> Simulator" where
  "drawHalf s =
     (let maxIso = sim_quorum s - 1;
          maxIso = (if maxIso < 1 then 1 else maxIso);
          (v, s) = simIntn (int maxIso) s;
          k = 1 + nat v;
          (perm, g) = Perm (siRng s) (length (siPeers s));
          s = s\<lparr>siRng := g\<rparr>
      in (sort (map (\<lambda>idx. siPeers s ! idx) (take k perm)), s))"

definition halfCutCycle :: "Simulator \<Rightarrow> Simulator" where
  "halfCutCycle s =
     (if length (liveNodes s) < 2 then faultIn 100 300 HalfCutCycle s
      else
        let (iso, s) = drawHalf s;
            rest = filter (\<lambda>i. i \<notin> set iso) (siPeers s)
        in faultIn 400 900 HalfCutHeal (sim_Partition [iso, rest] s))"

definition leaderCrashCycle :: "Simulator \<Rightarrow> Simulator" where
  "leaderCrashCycle s =
     (let target = liveLeader s
      in if target = 0 then faultIn 100 300 LeaderCrashCycle s
         else faultIn 300 700 (LeaderCrashRestart target) (Crash target s))"

definition chaosCutCycle :: "Simulator \<Rightarrow> Simulator" where
  "chaosCutCycle s =
     (let lead = liveLeader s
      in if lead = 0 then faultIn 100 300 ChaosCutCycle s
         else faultIn 300 700 ChaosCutHeal (isolate lead s))"

definition chaosCrashCycle :: "Simulator \<Rightarrow> Simulator" where
  "chaosCrashCycle s =
     (let target = liveLeader s
      in if target = 0 then faultIn 100 300 ChaosCrashCycle s
         else faultIn 300 700 (ChaosCrashRestart target) (Crash target s))"

definition snapshotCutCycle :: "Simulator \<Rightarrow> Simulator" where
  "snapshotCutCycle s =
     (let victim = aLiveFollower s
      in if victim = 0 then faultIn 100 300 SnapshotCutCycle s
         else faultIn 1500 2500 SnapshotCutHeal (isolate victim s))"

fun runFault :: "fault \<Rightarrow> Simulator \<Rightarrow> Simulator option" where
  "runFault LeaderCutCycle s = Some (leaderCutCycle s)"
| "runFault LeaderCutHeal s = Some (faultIn 300 700 LeaderCutCycle (Heal s))"
| "runFault HalfCutCycle s = Some (halfCutCycle s)"
| "runFault HalfCutHeal s = Some (faultIn 300 700 HalfCutCycle (Heal s))"
| "runFault LeaderCrashCycle s = Some (leaderCrashCycle s)"
| "runFault (LeaderCrashRestart i) s = do { s \<leftarrow> Restart i s; Some (faultIn 300 700 LeaderCrashCycle s) }"
| "runFault ChaosCutCycle s = Some (chaosCutCycle s)"
| "runFault ChaosCutHeal s = Some (faultIn 300 600 ChaosCrashCycle (Heal s))"
| "runFault ChaosCrashCycle s = Some (chaosCrashCycle s)"
| "runFault (ChaosCrashRestart i) s = do { s \<leftarrow> Restart i s; Some (faultIn 300 600 ChaosCutCycle s) }"
| "runFault SnapshotCutCycle s = Some (snapshotCutCycle s)"
| "runFault SnapshotCutHeal s = Some (faultIn 500 1000 SnapshotCutCycle (Heal s))"

section \<open>Dispatch\<close>

fun perform :: "action \<Rightarrow> Simulator \<Rightarrow> Simulator option" where
  "perform (ActTick i) s = doTick i s"
| "perform (ActDeliver i m) s = sim_step i m s"
| "perform (ActIssue ci) s = issue ci s"
| "perform (ActRetry ci q a) s = doRetry ci q a s"
| "perform (ActFault f) s = runFault f s"

definition runChecker :: "Simulator \<Rightarrow> Simulator" where
  "runChecker s =
     (if siFirstErr s = None then
        let (e, iv) = check (siNodes s) (siChecker s);
            s = s\<lparr>siChecker := iv\<rparr>
        in case e of
             None \<Rightarrow> s
           | Some v \<Rightarrow> s\<lparr>siFirstErr := Some (withReplay s (Violated (siNow s) v))\<rparr>
      else s)"

definition sim_Step :: "Simulator \<Rightarrow> (bool \<times> Simulator) option" where
  "sim_Step s =
     (case queue_pop (siQueue s) of
        None \<Rightarrow> Some (False, s)
      | Some (e, q) \<Rightarrow> do {
          let s = s\<lparr>siQueue := q, siNow := evAt e\<rparr>;
          let s = (if evDetail e \<noteq> [] \<or> evKind e \<noteq> []
                   then s\<lparr>siRec := rec_record (siRec s)
                            \<lparr>teAt = evAt e, teSeq = evSeq e, teKind = evKind e, teNode = evNode e, teDetail = evDetail e\<rparr>\<rparr>
                   else s);
          s \<leftarrow> perform (evAction e) s;
          Some (True, runChecker s) })"

partial_function (option) RunUntil :: "VirtualTime \<Rightarrow> Simulator \<Rightarrow> (replay option \<times> Simulator) option" where
  "RunUntil t s =
     (if siFirstErr s \<noteq> None then Some (siFirstErr s, s)
      else
        (case queue_peek (siQueue s) of
           None \<Rightarrow> Some (siFirstErr s, s)
         | Some next \<Rightarrow>
             if evAt next > t then Some (siFirstErr s, s)
             else do { (_, s) \<leftarrow> sim_Step s; RunUntil t s }))"

section \<open>Construction\<close>

datatype sim_new_error =
    BadSimConfig sim_config_error
  | StartingNode nat start_error
  | UnknownScenario string

fun startNodes :: "nat list \<Rightarrow> Simulator \<Rightarrow> (sim_new_error + Simulator) option" where
  "startNodes [] s = Some (Inr s)"
| "startNodes (i # is) s = do {
     let ns = \<lparr>nsId = i, nsDisk = trackStorage mem_New, nsNode = None, nsSM = None, nsApplied = 0, nsAppliedLog = [],
               nsPendingReads = [], nsCrashed = False\<rparr>;
     (e, ns, s) \<leftarrow> startNode ns s;
     case e of
       Some err \<Rightarrow> Some (Inl (StartingNode i err))
     | None \<Rightarrow> startNodes is (s\<lparr>siNodes := (siNodes s)(i \<mapsto> ns)\<rparr>) }"

definition sim_base :: "(nat \<Rightarrow> nat \<Rightarrow> nat) \<Rightarrow> SimConfig \<Rightarrow> Simulator" where
  "sim_base source c =
     (let peers = [1..<nat (cfNodes c) + 1]
      in \<lparr>siCfg = c, siRng = \<lparr>rgRaw = source (cfSeed c), rgPos = 0\<rparr>, siNow = 0, siSeq = 0, siQueue = [],
          siScenario = [], siPeers = peers, siNodes = Map.empty, siNet = newNetwork (cfNet c), siRec = newRecorder,
          siHist = NewHistory, siClients = [], siChecker = newInvariants peers, siFirstErr = None\<rparr>)"

definition sim_New :: "(nat \<Rightarrow> nat \<Rightarrow> nat) \<Rightarrow> SimConfig \<Rightarrow> (sim_new_error + Simulator) option" where
  "sim_New source c =
     (case sim_validate c of
        Some e \<Rightarrow> Some (Inl (BadSimConfig e))
      | None \<Rightarrow> do {
          r \<leftarrow> startNodes (siPeers (sim_base source c)) (sim_base source c);
          case r of
            Inl e \<Rightarrow> Some (Inl e)
          | Inr s \<Rightarrow> do {
              s \<leftarrow> startWorkload (fold (\<lambda>i. scheduleTick i (cfTickEvery c)) (siPeers s) s);
              Some (Inr s) } })"

section \<open>Verdict\<close>

definition linearizabilityVerdictError :: "Simulator \<Rightarrow> CheckResult \<Rightarrow> replay option" where
  "linearizabilityVerdictError s r =
     (case r of
        Ok \<Rightarrow> None
      | Illegal \<Rightarrow> Some (withReplay s NotLinearizable)
      | Unknown \<Rightarrow> Some (withReplay s Inconclusive))"

definition CheckLinearizability :: "(porcModel \<Rightarrow> porcOp list \<Rightarrow> CheckResult) \<Rightarrow> Simulator \<Rightarrow> replay option" where
  "CheckLinearizability porcupine s = linearizabilityVerdictError s (Check porcupine (siHist s))"

definition TraceHash :: "(bytes \<Rightarrow> bytes) \<Rightarrow> Simulator \<Rightarrow> string" where
  "TraceHash sha256 s = trace_hash sha256 (siRec s)"

section \<open>Scenarios\<close>

definition ScenarioNames :: "string list" where
  "ScenarioNames = [''partition-leader'', ''partition-random-half'', ''crash-leader-loop'', ''30pct-loss'',
     ''dup+delay'', ''mixed-chaos'', ''snapshot-under-partition'']"

definition ScenarioBaseConfig :: "nat \<Rightarrow> SimConfig" where
  "ScenarioBaseConfig seed =
     \<lparr>cfSeed = seed, cfNodes = 3, cfElectionTicks = 10, cfHeartbeatTicks = 1, cfTickEvery = 10 * Millisecond,
      cfSnapshotEntries = 0,
      cfNet = \<lparr>ncDelayMin = 1 * Millisecond, ncDelayMax = 5 * Millisecond, ncDropRate = 2 / 100, ncDupRate = 2 / 100\<rparr>,
      cfWorkload = \<lparr>wlClients = 6, wlKeys = 4, wlThinkMin = 1 * Millisecond, wlThinkMax = 15 * Millisecond,
                    wlPutRatio = 5 / 10, wlDeleteRatio = 1 / 10, wlCasRatio = 2 / 10\<rparr>\<rparr>"

text \<open>The \<open>config\<close> and \<open>arm\<close> halves of the registry; \<open>None\<close> is a name it does not have.\<close>

definition scenarioConfig :: "string \<Rightarrow> (SimConfig \<Rightarrow> SimConfig) option" where
  "scenarioConfig name =
     (if name \<in> set [''partition-leader'', ''partition-random-half'', ''crash-leader-loop''] then Some id
      else if name = ''30pct-loss'' then Some (\<lambda>c. c\<lparr>cfNet := (cfNet c)\<lparr>ncDropRate := 30 / 100, ncDupRate := 2 / 100\<rparr>\<rparr>)
      else if name = ''dup+delay'' then
        Some (\<lambda>c. c\<lparr>cfNet := \<lparr>ncDelayMin = 1 * Millisecond, ncDelayMax = 30 * Millisecond, ncDropRate = 2 / 100, ncDupRate = 30 / 100\<rparr>\<rparr>)
      else if name = ''mixed-chaos'' then
        Some (\<lambda>c. c\<lparr>cfNet := \<lparr>ncDelayMin = 1 * Millisecond, ncDelayMax = 20 * Millisecond, ncDropRate = 10 / 100, ncDupRate = 10 / 100\<rparr>\<rparr>)
      else if name = ''snapshot-under-partition'' then Some (\<lambda>c. c\<lparr>cfSnapshotEntries := 16\<rparr>)
      else None)"

definition scenarioArm :: "string \<Rightarrow> Simulator \<Rightarrow> Simulator" where
  "scenarioArm name s =
     (if name = ''partition-leader'' then faultIn 300 700 LeaderCutCycle s
      else if name = ''partition-random-half'' then faultIn 300 700 HalfCutCycle s
      else if name = ''crash-leader-loop'' then faultIn 300 700 LeaderCrashCycle s
      else if name = ''mixed-chaos'' then faultIn 300 700 ChaosCutCycle s
      else if name = ''snapshot-under-partition'' then faultIn 300 700 SnapshotCutCycle s
      else s)"

definition NewScenario :: "(nat \<Rightarrow> nat \<Rightarrow> nat) \<Rightarrow> string \<Rightarrow> nat \<Rightarrow> (sim_new_error + Simulator) option" where
  "NewScenario source name seed =
     (case scenarioConfig name of
        None \<Rightarrow> Some (Inl (UnknownScenario name))
      | Some config \<Rightarrow> do {
          r \<leftarrow> sim_New source (config (ScenarioBaseConfig seed));
          case r of
            Inl e \<Rightarrow> Some (Inl e)
          | Inr s \<Rightarrow> Some (Inr (scenarioArm name (s\<lparr>siScenario := name\<rparr>))) })"

end
