(* ===== verification/Sim_Contract.thy ===== *)
theory Sim_Contract
  imports Sim_Run
begin

text \<open>
  What every operation of the simulator keeps, given that the primitives keep it.

  The bookkeeping of a run (time, queue, trace, history, clients) changes only through a few
  primitives: recording a control event, scheduling an event, starting and finishing a client's
  operation. The locale \<open>sim_contract\<close> states what an invariant promises of these; inside it the
  invariant is carried through draining, ticks, deliveries, requests and fault programs, so that
  a particular invariant has to look at the primitives only.
\<close>

section \<open>Bookkeeping\<close>

definition books where
  "books s = (siNow s, siSeq s, siQueue s, siCfg s, nwCfg (siNet s), nwHook (siNet s), siRec s, siHist s, siClients s)"

definition delays_ok :: "Simulator \<Rightarrow> bool" where
  "delays_ok s \<longleftrightarrow>
     0 \<le> ncDelayMin (nwCfg (siNet s)) \<and>
     (\<forall>h f t m. nwHook (siNet s) = Some h \<longrightarrow> 0 \<le> vdExtraDelay (h f t m)) \<and>
     0 < cfTickEvery (siCfg s) \<and> 0 \<le> cfElectionTicks (siCfg s) \<and> 0 \<le> wlThinkMin (cfWorkload (siCfg s))"

fun act_ok :: "nat \<Rightarrow> action \<Rightarrow> bool" where
  "act_ok n (ActIssue ci) = (ci < n)"
| "act_ok n (ActRetry ci q a) = (ci < n)"
| "act_ok n act = True"

lemma books_simps [simp]:
  "books (s\<lparr>siRng := g\<rparr>) = books s" "books (s\<lparr>siNodes := ns\<rparr>) = books s" "books (s\<lparr>siPeers := ps\<rparr>) = books s"
  "books (s\<lparr>siFirstErr := e\<rparr>) = books s" "books (s\<lparr>siChecker := iv\<rparr>) = books s" "books (s\<lparr>siScenario := nm\<rparr>) = books s"
  "books (upd_node i f s) = books s" "books (sim_fail err s) = books s"
  "books (s\<lparr>siNet := setPartition gs (siNet s)\<rparr>) = books s" "books (s\<lparr>siNet := heal (siNet s)\<rparr>) = books s"
  by (simp_all add: books_def upd_node_def sim_fail_def setPartition_def heal_def)

lemma books_simIntn [simp]: "books (snd (simIntn k s)) = books s"
  by (simp add: simIntn_def split: prod.split)

lemma books_simFloat64 [simp]: "books (snd (simFloat64 s)) = books s"
  by (simp add: simFloat64_def split: prod.split)

lemma books_draws [simp]:
  "books (snd (drawThink s)) = books s" "books (snd (drawDur lo hi s)) = books s" "books (snd (drawHalf s)) = books s"
  using books_simIntn [of _ s]
  by (auto simp: drawThink_def drawDur_def drawHalf_def Let_def simp del: books_simIntn split: prod.split)
     (metis books_simIntn snd_conv)+

lemma books_sel:
  assumes "books s' = books s"
  shows "siNow s' = siNow s" "siQueue s' = siQueue s" "siSeq s' = siSeq s" "siCfg s' = siCfg s" "siHist s' = siHist s"
    "siClients s' = siClients s" "siRec s' = siRec s" "delays_ok s' = delays_ok s"
  using assms by (simp_all add: books_def delays_ok_def)

lemma drawDur_nonneg: "0 \<le> lo \<Longrightarrow> 0 \<le> fst (drawDur lo hi s)"
  using Intn_range [of "hi - lo + 1" "siRng s"]
  by (auto simp: drawDur_def simIntn_def Let_def split: prod.split)

lemma drawThink_nonneg: "delays_ok s \<Longrightarrow> 0 \<le> fst (drawThink s)"
  using Intn_range [of "wlThinkMax (cfWorkload (siCfg s)) - wlThinkMin (cfWorkload (siCfg s)) + 1" "siRng s"]
  by (auto simp: drawThink_def simIntn_def delays_ok_def Let_def split: prod.split)

lemma retryTimeout_nonneg: "delays_ok s \<Longrightarrow> 0 \<le> retryTimeout s"
  by (simp add: retryTimeout_def delays_ok_def)

lemma route_nonneg:
  assumes "delays_ok s" and "route (siNet s) g from to m = (d, g')"
  shows "0 \<le> dlDelay d \<and> 0 \<le> dlDupDelay d"
proof -
  have "0 \<le> fst (drawDelay (siNet s) g)" for g
    using drawDelay_range [of "siNet s" g] assms(1) by (auto simp: delays_ok_def)
  then have dd: "drawDelay (siNet s) g = (v, g') \<Longrightarrow> 0 \<le> v" for g v g' by (metis fst_conv)
  have ah: "0 \<le> dlDelay (applyHook v d) \<and> 0 \<le> dlDupDelay (applyHook v d)"
    if "0 \<le> dlDelay d" "0 \<le> dlDupDelay d" "0 \<le> vdExtraDelay v" for v d
    using that by (simp add: applyHook_def Let_def)
  have "0 \<le> vdExtraDelay (h from to m)" if "nwHook (siNet s) = Some h" for h using assms(1) that by (simp add: delays_ok_def)
  with assms(2) show ?thesis
    by (auto simp: route_def Let_def dest!: dd split: if_split_asm prod.split_asm option.split_asm intro!: ah [THEN conjunct1] ah [THEN conjunct2])
qed

section \<open>The contract\<close>

locale sim_contract =
  fixes inv :: "Simulator \<Rightarrow> bool" and n :: nat
  assumes frame: "\<And>s s'. inv s \<Longrightarrow> books s' = books s \<Longrightarrow> inv s'"
    and clients: "\<And>s. inv s \<Longrightarrow> length (siClients s) = n"
    and delays: "\<And>s. inv s \<Longrightarrow> delays_ok s"
    and control: "\<And>s k i d. inv s \<Longrightarrow> inv (recordControl k i d s)"
    and sched: "\<And>s t k i d act. inv s \<Longrightarrow> 0 \<le> t \<Longrightarrow> act_ok n act \<Longrightarrow> inv (schedule t k i d act s)"
    and finished: "\<And>s ci r. inv s \<Longrightarrow> ci < n \<Longrightarrow> ctPending (siClients s ! ci) \<Longrightarrow> inv (finish ci r s)"
    and begun: "\<And>s ci. inv s \<Longrightarrow> ci < n \<Longrightarrow> \<not> ctPending (siClients s ! ci) \<Longrightarrow> inv (beginOp ci s)"
    and hinted: "\<And>s ci i. inv s \<Longrightarrow> ci < n \<Longrightarrow> inv (upd_client ci (\<lambda>c. c\<lparr>ctLeaderHint := i\<rparr>) s)"
    and retried: "\<And>s ci. inv s \<Longrightarrow> ci < n \<Longrightarrow> inv (upd_client ci (\<lambda>c. c\<lparr>ctAttempt := ctAttempt c + 1\<rparr>) s)"
begin

lemma books_iff: "books s' = books s \<Longrightarrow> inv s' \<longleftrightarrow> inv s"
  by (metis frame)

lemma framed [simp]:
  "inv (s\<lparr>siRng := g\<rparr>) = inv s" "inv (s\<lparr>siNodes := ns\<rparr>) = inv s" "inv (s\<lparr>siFirstErr := e\<rparr>) = inv s"
  "inv (s\<lparr>siChecker := iv\<rparr>) = inv s" "inv (upd_node i f s) = inv s" "inv (sim_fail err s) = inv s"
  "inv (s\<lparr>siNet := setPartition gs (siNet s)\<rparr>) = inv s" "inv (s\<lparr>siNet := heal (siNet s)\<rparr>) = inv s"
  by (rule books_iff, simp)+

lemma deliver_inv: "inv s \<Longrightarrow> 0 \<le> t \<Longrightarrow> inv (scheduleDeliver t i m s)"
  by (simp add: scheduleDeliver_def sched)

lemma tick_inv: "inv s \<Longrightarrow> inv (scheduleTick i (cfTickEvery (siCfg s)) s)"
  using delays [of s] by (simp add: scheduleTick_def sched delays_ok_def)

lemma send_inv: "inv s \<Longrightarrow> inv (sendMessage i m s)"
proof -
  assume s: "inv s"
  obtain d g where r: "route (siNet s) (siRng s) i (mTo m) m = (d, g)" by force
  from route_nonneg [OF delays [OF s] r] s show ?thesis
    by (auto simp: sendMessage_def r Let_def intro!: deliver_inv control)
qed

lemma sends_inv: "inv s \<Longrightarrow> inv (simSend i rd s)"
  unfolding simSend_def by (rule fold_invariant [where P = inv and Q = "\<lambda>_. True"]) (simp_all add: send_inv)

lemma complete_inv: "inv s \<Longrightarrow> inv (completeIfLeader ns cmd r s)"
  using clients [of s] by (auto simp: completeIfLeader_def Let_def intro!: finished dest: unat_gt_0 [THEN iffD2])

lemma serve_inv: "sim_serveRead ns rs s = Some s' \<Longrightarrow> inv s \<Longrightarrow> inv s'"
  using clients [of s]
  by (auto simp: sim_serveRead_def Let_def intro!: finished split: if_split_asm elim!: bind_SomeE)

lemma serves_inv: "sim_servePendingLoop ns rss s = Some (kept, s') \<Longrightarrow> inv s \<Longrightarrow> inv s'"
  by (induction rss arbitrary: s kept s') (auto split: if_split_asm elim!: bind_SomeE dest!: serve_inv)

lemma pending_inv: "sim_servePendingReads i s = Some s' \<Longrightarrow> inv s \<Longrightarrow> inv s'"
  by (auto simp: sim_servePendingReads_def split: if_split_asm elim!: bind_SomeE dest!: serves_inv)

lemma release_inv: "sim_releaseRead i rs s = Some s' \<Longrightarrow> inv s \<Longrightarrow> inv s'"
  by (auto simp: sim_releaseRead_def split: if_split_asm elim!: bind_SomeE dest!: serve_inv)

lemma apply_inv: "sim_applyEntry i e s = Some s' \<Longrightarrow> inv s \<Longrightarrow> inv s'"
  by (auto simp: sim_applyEntry_def Let_def split: if_split_asm sum.split_asm elim!: bind_SomeE
      dest!: pending_inv intro!: complete_inv)

lemma persist_inv:
  assumes "inv s"
  shows "simPersistSnapshot i rd s = Some r \<Longrightarrow> inv (case_sum id id r)"
    and "simPersistEntries i rd s = Some r \<Longrightarrow> inv (case_sum id id r)"
    and "simPersistHardState i rd s = Some r \<Longrightarrow> inv (case_sum id id r)"
    and "simInstall i rd s = Some r \<Longrightarrow> inv (case_sum id id r)"
  using assms
  by (auto simp: simPersistSnapshot_def simPersistEntries_def simPersistHardState_def simInstall_def Let_def
      split: option.split_asm if_split_asm prod.split_asm elim!: bind_SomeE)

lemma advance_inv: "simAdvance i s = Some s' \<Longrightarrow> inv s \<Longrightarrow> inv s'"
  by (auto simp: simAdvance_def elim!: bind_SomeE)

lemma compact_inv: "maybeCompact i s = Some s' \<Longrightarrow> inv s \<Longrightarrow> inv s'"
  by (auto simp: maybeCompact_def Let_def split: sum.split_asm if_split_asm prod.split_asm elim!: bind_SomeE intro!: control)

lemma stage_inv:
  assumes "stage x f = Some r" and "\<And>r. x = Some r \<Longrightarrow> inv (case_sum id id r)"
    and "\<And>s r. inv s \<Longrightarrow> f s = Some r \<Longrightarrow> inv (case_sum id id r)"
  shows "inv (case_sum id id r)"
proof -
  from assms(1) obtain y where x: "x = Some y" and y: "(case y of Inl s \<Rightarrow> Some (Inl s) | Inr s \<Rightarrow> f s) = Some r"
    unfolding stage_def by (rule bind_SomeE)
  have "inv (case_sum id id y)" by (rule assms(2) [OF x])
  with y assms(3) show ?thesis by (cases y) auto
qed

lemma finish_drain_inv:
  assumes "inv s" and "fold_opt (sim_applyEntry i) es s = Some s1" and "fold_opt (sim_releaseRead i) rss s1 = Some s2"
    and "simAdvance i s2 = Some s3" and "maybeCompact i s3 = Some s4"
  shows "inv s4"
proof -
  have "inv s1" using fold_opt_inv [where P = inv, OF assms(2,1)] apply_inv by blast
  then have "inv s2" using fold_opt_inv [where P = inv, OF assms(3)] release_inv by blast
  then show ?thesis using assms(4,5) by (blast dest: compact_inv advance_inv)
qed

lemma drainOnce_inv: "sim_drainOnce i s = Some r \<Longrightarrow> inv s \<Longrightarrow> inv (case_sum id id r)"
  unfolding sim_drainOnce_def Let_def
  by (elim bind_SomeE, clarsimp)
    (erule stage_inv, erule persist_inv(1) [rotated], simp, erule stage_inv, erule (1) persist_inv(2),
     erule stage_inv, erule (1) persist_inv(3), erule stage_inv, erule persist_inv(4) [rotated], erule sends_inv,
     auto elim!: bind_SomeE intro: finish_drain_inv)

lemma drainLoop_inv:
  assumes "sim_drainLoop i s = Some s'"
  shows "inv s \<longrightarrow> inv s'"
proof (rule sim_drainLoop.raw_induct [where P = "\<lambda>i s s'. inv s \<longrightarrow> inv s'", OF _ assms])
  fix f i s s'
  assume IH: "\<And>i s s'. f i s = Some s' \<Longrightarrow> inv s \<longrightarrow> inv s'"
    and body: "running s i \<bind> (\<lambda>nd. HasReady simOps nd \<bind> (\<lambda>more.
      if more then sim_drainOnce i s \<bind> (\<lambda>r. case r of Inl s \<Rightarrow> Some s | Inr s \<Rightarrow> f i s) else Some s)) = Some s'"
  from body show "inv s \<longrightarrow> inv s'"
    by (auto split: if_split_asm sum.split_asm elim!: bind_SomeE dest!: IH drainOnce_inv)
qed

lemma drain_inv: "sim_drain i s = Some s' \<Longrightarrow> inv s \<Longrightarrow> inv s'"
  by (auto simp: sim_drain_def split: option.split_asm dest: drainLoop_inv)

lemma nodeTick_inv: "nodeTick i nd s = Some s' \<Longrightarrow> inv s \<Longrightarrow> inv s'"
  by (auto simp: nodeTick_def elim!: bind_SomeE)

lemma nodeStep_inv: "nodeStep i nd m s = Some (e, s') \<Longrightarrow> inv s \<Longrightarrow> inv s'"
  by (auto simp: nodeStep_def elim!: bind_SomeE)

lemma doTick_inv: "doTick i s = Some s' \<Longrightarrow> inv s \<Longrightarrow> inv s'"
  by (auto simp: doTick_def split: option.split_asm elim!: bind_SomeE dest!: nodeTick_inv drain_inv intro: tick_inv)

lemma step_inv: "sim_step i m s = Some s' \<Longrightarrow> inv s \<Longrightarrow> inv s'"
  by (auto simp: sim_step_def split: option.split_asm elim!: bind_SomeE dest!: nodeStep_inv drain_inv)

lemma offer_inv: "offer ci m is s = Some s' \<Longrightarrow> inv s \<Longrightarrow> ci < n \<Longrightarrow> inv s'"
proof (induction "is" arbitrary: s)
  case (Cons i "is")
  show ?case
  proof (cases "running s i")
    case None
    with Cons show ?thesis by simp
  next
    case (Some nd)
    with Cons.prems(1) obtain e t where t: "nodeStep i nd m s = Some (e, t)"
      and rest: "(if e = None then sim_drain i (upd_client ci (\<lambda>c. c\<lparr>ctLeaderHint := i\<rparr>) t)
          else running t i \<bind> (\<lambda>nd. let lh = Node_Leader nd
            in offer ci m is (if lh \<noteq> 0 then upd_client ci (\<lambda>c. c\<lparr>ctLeaderHint := lh\<rparr>) t else t))) = Some s'"
      by (auto elim!: bind_SomeE)
    have "inv t" by (rule nodeStep_inv [OF t Cons.prems(2)])
    with rest Cons.prems(3) show ?thesis
      by (auto simp: Let_def split: if_split_asm elim!: bind_SomeE intro: hinted dest!: drain_inv Cons.IH)
  qed
qed simp

lemma submit_inv: "sim_submit ci s = Some s' \<Longrightarrow> inv s \<Longrightarrow> ci < n \<Longrightarrow> inv s'"
proof -
  assume ci: "ci < n" and s: "inv s" and eq: "sim_submit ci s = Some s'"
  let ?s = "upd_client ci (\<lambda>c. c\<lparr>ctAttempt := ctAttempt c + 1\<rparr>) s"
  from eq [unfolded sim_submit_def Let_def] obtain t
    where t: "(if cmdOp (ctCmd (siClients ?s ! ci)) = OpGet then submitRead ci ?s else submitWrite ci ?s) = Some t"
      and s': "Some (schedule (retryTimeout t) ''client-retry'' (unat (ctId (siClients t ! ci))) []
        (ActRetry ci (ctSeq (siClients t ! ci)) (ctAttempt (siClients t ! ci))) t) = Some s'"
    by (rule bind_SomeE)
  have "inv t" using t offer_inv [OF _ retried [OF s ci] ci]
    by (auto simp: submitRead_def submitWrite_def Let_def split: if_split_asm)
  then show "inv s'" using ci s' by (auto simp: sched retryTimeout_nonneg delays)
qed

lemma issue_inv: "issue ci s = Some s' \<Longrightarrow> inv s \<Longrightarrow> ci < n \<Longrightarrow> inv s'"
  by (auto simp: issue_def split: if_split_asm intro: begun dest!: submit_inv)

lemma fault_inv: "inv s \<Longrightarrow> 0 \<le> lo \<Longrightarrow> inv (faultIn lo hi f s)"
proof -
  assume s: "inv s" and lo: "0 \<le> lo"
  obtain d t where d: "drawDur (lo * Millisecond) (hi * Millisecond) s = (d, t)" by force
  have "0 \<le> d" using drawDur_nonneg [of "lo * Millisecond" "hi * Millisecond" s] lo d by (simp add: Millisecond_def)
  moreover have "inv t" using s frame [of s t] books_draws(2) [of "lo * Millisecond" "hi * Millisecond" s] d by simp
  ultimately show ?thesis by (simp add: faultIn_def d scheduleFault_def sched)
qed

lemma topology_inv [simp]: "inv s \<Longrightarrow> inv (sim_Partition gs s)" "inv s \<Longrightarrow> inv (isolate i s)" "inv s \<Longrightarrow> inv (Heal s)"
  "inv s \<Longrightarrow> inv (Crash i s)"
  by (auto simp: sim_Partition_def isolate_def Heal_def Crash_def control split: option.split)

lemma start_inv: "startNode ns s = Some (e, ns', s') \<Longrightarrow> inv s \<Longrightarrow> inv s'"
  by (auto simp: startNode_def Let_def split: sum.split_asm option.split_asm prod.split_asm if_split_asm elim!: bind_SomeE)

lemma restart_inv: "Restart i s = Some s' \<Longrightarrow> inv s \<Longrightarrow> inv s'"
proof -
  assume eq: "Restart i s = Some s'" and s: "inv s"
  show ?thesis
  proof (cases "siNodes s i")
    case None
    with eq s show ?thesis by (simp add: Restart_def)
  next
    case (Some ns)
    show ?thesis
    proof (cases "nsCrashed ns")
      case True
      with eq Some obtain e ns' t where t: "startNode (ns\<lparr>nsCrashed := False\<rparr>) s = Some (e, ns', t)"
        and rest: "(case e of
            Some err \<Rightarrow> Some (upd_node i (\<lambda>_. ns') t\<lparr>siFirstErr := Some (withReplay (upd_node i (\<lambda>_. ns') t) (RestartFailed i err))\<rparr>)
          | None \<Rightarrow> sim_drain i (scheduleTick i (cfTickEvery (siCfg (upd_node i (\<lambda>_. ns') t)))
              (recordControl ''restart'' i [] (upd_node i (\<lambda>_. ns') t)))) = Some s'"
        by (auto simp: Restart_def Let_def elim!: bind_SomeE)
      have "inv (recordControl ''restart'' i [] (upd_node i (\<lambda>_. ns') t))" using start_inv [OF t s] by (simp add: control)
      from tick_inv [OF this, of i] rest start_inv [OF t s] show ?thesis
        by (auto simp: recordControl_def Let_def split: option.split_asm dest!: drain_inv)
    next
      case False
      with eq s Some show ?thesis by (simp add: Restart_def)
    qed
  qed
qed

lemma cycles_inv:
  assumes "inv s"
  shows "inv (leaderCutCycle s)" "inv (halfCutCycle s)" "inv (leaderCrashCycle s)" "inv (chaosCutCycle s)"
    "inv (chaosCrashCycle s)" "inv (snapshotCutCycle s)"
proof -
  have "inv (snd (drawHalf s))" using assms frame [of s "snd (drawHalf s)"] by simp
  with assms show "inv (leaderCutCycle s)" "inv (halfCutCycle s)" "inv (leaderCrashCycle s)" "inv (chaosCutCycle s)"
    "inv (chaosCrashCycle s)" "inv (snapshotCutCycle s)"
    by (auto simp: leaderCutCycle_def halfCutCycle_def leaderCrashCycle_def chaosCutCycle_def chaosCrashCycle_def
        snapshotCutCycle_def Let_def split: prod.split intro!: fault_inv)
qed

lemma runFault_inv: "runFault f s = Some s' \<Longrightarrow> inv s \<Longrightarrow> inv s'"
  by (cases f) (auto intro!: cycles_inv fault_inv elim!: bind_SomeE dest!: restart_inv)

lemma perform_inv: "perform act s = Some s' \<Longrightarrow> inv s \<Longrightarrow> act_ok n act \<Longrightarrow> inv s'"
  by (cases act) (auto simp: doRetry_def Let_def split: if_split_asm
      dest!: doTick_inv step_inv issue_inv submit_inv runFault_inv)

lemma checker_inv: "inv s \<Longrightarrow> inv (runChecker s)"
  by (auto simp: runChecker_def Let_def split: prod.split option.split)

end

end
