(* ===== verification/Sim_Timeline.thy ===== *)
theory Sim_Timeline
  imports Sim_Contract
begin

text \<open>
  Two invariants of a simulation, proved through the contract of its operations: the order of
  virtual time, and the closed loop of the clients. From the second and the meaning of the
  linearizability verdict follows what a passing run says about its recorded history.
\<close>

section \<open>The order of events\<close>

definition stamps :: "Simulator \<Rightarrow> nat multiset" where
  "stamps s = image_mset evSeq (mset (siQueue s)) + image_mset teSeq (mset (rcEvents (siRec s)))"

definition timeline :: "Simulator \<Rightarrow> bool" where
  "timeline s \<longleftrightarrow> delays_ok s \<and> heap (siQueue s) \<and>
     (\<forall>e \<in> set (siQueue s). siNow s \<le> evAt e \<and> act_ok (length (siClients s)) (evAction e)) \<and>
     (\<forall>x \<in># stamps s. x \<le> siSeq s) \<and> (\<forall>x. count (stamps s) x \<le> 1) \<and>
     sorted (map teAt (rcEvents (siRec s))) \<and> (\<forall>e \<in> set (rcEvents (siRec s)). teAt e \<le> siNow s)"

lemma timeline_books: "books s' = books s \<Longrightarrow> timeline s' = timeline s"
proof -
  assume "books s' = books s"
  from books_sel [OF this] show ?thesis by (simp add: timeline_def stamps_def)
qed

lemma timeline_hist [simp]: "timeline (s\<lparr>siHist := h\<rparr>) = timeline s"
  by (simp add: timeline_def stamps_def delays_ok_def)

lemma timeline_client [simp]: "timeline (upd_client ci f s) = timeline s"
  by (simp add: timeline_def stamps_def delays_ok_def upd_client_def)

lemma fresh_stamp:
  assumes "\<forall>x \<in># M. x \<le> k" and "\<forall>x. count M x \<le> 1"
  shows "(\<forall>x \<in># add_mset (Suc k) M. x \<le> Suc k) \<and> (\<forall>x. count (add_mset (Suc k) M) x \<le> 1)"
proof -
  have "Suc k \<notin># M" using assms(1) by (metis Suc_n_not_le_n)
  then have "count M (Suc k) = 0" by (simp add: count_eq_zero_iff)
  with assms show ?thesis by (auto simp: le_Suc_eq)
qed

lemma timeline_control:
  assumes "timeline s"
  shows "timeline (recordControl k i d s)"
proof -
  have "stamps (recordControl k i d s) = add_mset (Suc (siSeq s)) (stamps s)"
    by (simp add: stamps_def recordControl_def rec_record_def)
  moreover note fresh_stamp [of "stamps s" "siSeq s"]
  ultimately show ?thesis
    using assms by (auto simp: timeline_def delays_ok_def recordControl_def rec_record_def Let_def sorted_append)
qed

lemma timeline_schedule:
  assumes "timeline s" and "0 \<le> t" and "act_ok (length (siClients s)) act"
  shows "timeline (schedule t k i d act s)"
proof -
  let ?e = "\<lparr>evAt = siNow s + t, evSeq = Suc (siSeq s), evKind = k, evNode = i, evDetail = d, evAction = act\<rparr>"
  have q: "heap (queue_push ?e (siQueue s))" "mset (queue_push ?e (siQueue s)) = add_mset ?e (mset (siQueue s))"
    using queue_push_ok [of "siQueue s" ?e] assms(1) by (simp_all add: timeline_def)
  from q(2) have set: "set (queue_push ?e (siQueue s)) = insert ?e (set (siQueue s))"
    by (metis set_mset_add_mset_insert set_mset_mset)
  have s': "schedule t k i d act s = s\<lparr>siSeq := Suc (siSeq s), siQueue := queue_push ?e (siQueue s)\<rparr>"
    by (simp add: schedule_def nextSeq_def)
  have "stamps (schedule t k i d act s) = add_mset (Suc (siSeq s)) (stamps s)"
    by (simp add: stamps_def s' q(2))
  moreover note fresh_stamp [of "stamps s" "siSeq s"]
  ultimately show ?thesis
    using assms q(1) by (auto simp: timeline_def delays_ok_def s' set)
qed

lemma now_simps [simp]: "siNow (recordControl k i d s) = siNow s" "siNow (schedule t k i d act s) = siNow s"
  "siNow (upd_client ci f s) = siNow s" "siClients (recordControl k i d s) = siClients s"
  "siClients (schedule t k i d act s) = siClients s" "siHist (recordControl k i d s) = siHist s"
  "siHist (schedule t k i d act s) = siHist s" "siHist (upd_client ci f s) = siHist s"
  "siClients (upd_client ci f s) = (siClients s)[ci := f (siClients s ! ci)]"
  "delays_ok (recordControl k i d s) = delays_ok s" "delays_ok (schedule t k i d act s) = delays_ok s"
  "delays_ok (upd_client ci f s) = delays_ok s" "delays_ok (s\<lparr>siHist := h\<rparr>) = delays_ok s"
  by (simp_all add: recordControl_def schedule_def nextSeq_def upd_client_def delays_ok_def)

text \<open>\<open>finish\<close> and \<open>beginOp\<close>, with the draws named.\<close>

lemma finish_eq:
  obtains d t where "books t = books (upd_client ci (\<lambda>c. c\<lparr>ctPending := False\<rparr>) (recordControl ''return''
        (unat (ctId (siClients s ! ci))) (renderResult r)
        (s\<lparr>siHist := Complete (siHist s) (ctHistID (siClients s ! ci)) r (siNow s)\<rparr>)))"
    and "delays_ok s \<Longrightarrow> 0 \<le> d"
    and "finish ci r s = scheduleClientOp ci d t"
proof -
  let ?s = "upd_client ci (\<lambda>c. c\<lparr>ctPending := False\<rparr>) (recordControl ''return''
        (unat (ctId (siClients s ! ci))) (renderResult r)
        (s\<lparr>siHist := Complete (siHist s) (ctHistID (siClients s ! ci)) r (siNow s)\<rparr>))"
  obtain d t where d: "drawThink ?s = (d, t)" by force
  show ?thesis
  proof (rule that)
    show "books t = books ?s" using books_draws(1) [of ?s] by (simp only: d snd_conv)
    show "0 \<le> d" if "delays_ok s" using drawThink_nonneg [of ?s] that d by simp
    show "finish ci r s = scheduleClientOp ci d t" using d by (simp add: finish_def Let_def)
  qed
qed

lemma draw_books: "simIntn k s = (v, t) \<Longrightarrow> books t = books s" "simFloat64 s = (r, t) \<Longrightarrow> books t = books s"
  using books_simIntn [of k s] books_simFloat64 [of s] by auto

lemma key_books: "drawKey s = (k, t) \<Longrightarrow> books t = books s"
  by (auto simp: drawKey_def Let_def split: if_split_asm prod.split_asm dest!: draw_books)

lemma books_genCommand: "books (snd (genCommand c s)) = books s"
  by (auto simp: genCommand_def Let_def split: prod.split dest!: draw_books key_books)

lemma beginOp_eq:
  obtains cmd t where "books t = books (upd_client ci (\<lambda>c. c\<lparr>ctSeq := ctSeq c + 1, ctAttempt := 0\<rparr>) s)"
    and "beginOp ci s = recordControl ''invoke'' (unat (ctId (siClients t ! ci))) (renderCommand cmd)
      (upd_client ci (\<lambda>c. c\<lparr>ctCmd := cmd, ctHistID := hNextID (siHist s), ctPending := True\<rparr>)
        (t\<lparr>siHist := snd (Invoke (siHist s) (ctId (siClients t ! ci)) cmd (siNow s))\<rparr>))"
proof -
  let ?s = "upd_client ci (\<lambda>c. c\<lparr>ctSeq := ctSeq c + 1, ctAttempt := 0\<rparr>) s"
  obtain cmd t where g: "genCommand (siClients ?s ! ci) ?s = (cmd, t)" by force
  have b: "books t = books ?s" using books_genCommand [of "siClients ?s ! ci" ?s] by (simp only: g snd_conv)
  with books_sel [OF b] g show ?thesis
    by (intro that [OF b]) (simp add: beginOp_def Let_def Invoke_def)
qed

lemma timeline_finish: "timeline s \<Longrightarrow> ci < length (siClients s) \<Longrightarrow> timeline (finish ci r s)"
proof -
  assume s: "timeline s" and ci: "ci < length (siClients s)"
  obtain d t where t: "books t = books (upd_client ci (\<lambda>c. c\<lparr>ctPending := False\<rparr>) (recordControl ''return''
        (unat (ctId (siClients s ! ci))) (renderResult r)
        (s\<lparr>siHist := Complete (siHist s) (ctHistID (siClients s ! ci)) r (siNow s)\<rparr>)))"
    and "delays_ok s \<Longrightarrow> 0 \<le> d" and f: "finish ci r s = scheduleClientOp ci d t" by (rule finish_eq [of ci s r]) blast
  then have "0 \<le> d" using s by (simp add: timeline_def)
  moreover have "timeline t" using timeline_books [OF t] s by (simp add: timeline_control)
  moreover have "length (siClients t) = length (siClients s)" using books_sel(6) [OF t] by simp
  ultimately show ?thesis using ci by (simp add: f scheduleClientOp_def timeline_schedule)
qed

lemma finish_frame: "siNow (finish ci r s) = siNow s" "length (siClients (finish ci r s)) = length (siClients s)"
  by (rule finish_eq [of ci s r], drule books_sel(1), simp add: scheduleClientOp_def)
    (rule finish_eq [of ci s r], drule books_sel(6), simp add: scheduleClientOp_def)

lemma timeline_beginOp: "timeline s \<Longrightarrow> timeline (beginOp ci s)"
  by (rule beginOp_eq [of ci s], drule timeline_books) (simp add: timeline_control)

lemma beginOp_frame: "siNow (beginOp ci s) = siNow s" "length (siClients (beginOp ci s)) = length (siClients s)"
  by (rule beginOp_eq [of ci s], drule books_sel(1), simp) (rule beginOp_eq [of ci s], drule books_sel(6), simp)

interpretation tl: sim_contract "\<lambda>s. timeline s \<and> siNow s = t \<and> length (siClients s) = n" n for t n
proof
  fix s s' :: Simulator
  assume "timeline s \<and> siNow s = t \<and> length (siClients s) = n" and b: "books s' = books s"
  with books_sel [OF b] timeline_books [OF b] show "timeline s' \<and> siNow s' = t \<and> length (siClients s') = n" by simp
qed (simp_all add: timeline_control timeline_schedule timeline_finish finish_frame timeline_beginOp beginOp_frame,
     simp add: timeline_def)

section \<open>The closed loop\<close>

definition loop_ok :: "client list \<Rightarrow> (nat, Operation) fmap \<Rightarrow> bool" where
  "loop_ok cs p \<longleftrightarrow>
     (\<forall>ci < length cs. ctId (cs ! ci) = word_of_nat (ci + 1)) \<and>
     (\<forall>ci < length cs. ctPending (cs ! ci) \<longrightarrow>
        (\<exists>oper. fmlookup p (ctHistID (cs ! ci)) = Some oper \<and> opClientID oper = ctId (cs ! ci) \<and> opInput oper = ctCmd (cs ! ci))) \<and>
     (\<forall>h. fmlookup p h \<noteq> None \<longrightarrow> (\<exists>ci < length cs. ctPending (cs ! ci) \<and> ctHistID (cs ! ci) = h)) \<and>
     (\<forall>ci < length cs. \<forall>cj < length cs. ctPending (cs ! ci) \<longrightarrow> ctPending (cs ! cj) \<longrightarrow>
        ctHistID (cs ! ci) = ctHistID (cs ! cj) \<longrightarrow> ci = cj)"

lemma loop_okI:
  assumes "\<And>ci. ci < length cs \<Longrightarrow> ctId (cs ! ci) = word_of_nat (ci + 1)"
    and "\<And>ci. ci < length cs \<Longrightarrow> ctPending (cs ! ci) \<Longrightarrow>
      \<exists>oper. fmlookup p (ctHistID (cs ! ci)) = Some oper \<and> opClientID oper = ctId (cs ! ci) \<and> opInput oper = ctCmd (cs ! ci)"
    and "\<And>h. fmlookup p h \<noteq> None \<Longrightarrow> \<exists>ci < length cs. ctPending (cs ! ci) \<and> ctHistID (cs ! ci) = h"
    and "\<And>ci cj. ci < length cs \<Longrightarrow> cj < length cs \<Longrightarrow> ctPending (cs ! ci) \<Longrightarrow> ctPending (cs ! cj) \<Longrightarrow>
      ctHistID (cs ! ci) = ctHistID (cs ! cj) \<Longrightarrow> ci = cj"
  shows "loop_ok cs p"
  unfolding loop_ok_def using assms by blast

lemma loop_okD:
  assumes "loop_ok cs p"
  shows "ci < length cs \<Longrightarrow> ctId (cs ! ci) = word_of_nat (ci + 1)"
    and "ci < length cs \<Longrightarrow> ctPending (cs ! ci) \<Longrightarrow>
      \<exists>oper. fmlookup p (ctHistID (cs ! ci)) = Some oper \<and> opClientID oper = ctId (cs ! ci) \<and> opInput oper = ctCmd (cs ! ci)"
    and "fmlookup p h = Some x \<Longrightarrow> \<exists>ci < length cs. ctPending (cs ! ci) \<and> ctHistID (cs ! ci) = h"
    and "ci < length cs \<Longrightarrow> cj < length cs \<Longrightarrow> ctPending (cs ! ci) \<Longrightarrow> ctPending (cs ! cj) \<Longrightarrow>
      ctHistID (cs ! ci) = ctHistID (cs ! cj) \<Longrightarrow> ci = cj"
  using assms unfolding loop_ok_def by blast+

lemma loop_complete:
  assumes ok: "loop_ok cs p" and ci: "ci < length cs" and pend: "ctPending (cs ! ci)"
  shows "loop_ok (cs[ci := (cs ! ci)\<lparr>ctPending := False\<rparr>]) (fmdrop (ctHistID (cs ! ci)) p)"
proof (rule loop_okI)
  fix cj assume cj: "cj < length (cs[ci := (cs ! ci)\<lparr>ctPending := False\<rparr>])"
    "ctPending (cs[ci := (cs ! ci)\<lparr>ctPending := False\<rparr>] ! cj)"
  then have ne: "cj \<noteq> ci" using ci by auto
  then have "ctHistID (cs ! cj) \<noteq> ctHistID (cs ! ci)" using loop_okD(4) [OF ok _ ci _ pend, of cj] cj by auto
  with loop_okD(2) [OF ok, of cj] cj ne
  show "\<exists>oper. fmlookup (fmdrop (ctHistID (cs ! ci)) p) (ctHistID (cs[ci := (cs ! ci)\<lparr>ctPending := False\<rparr>] ! cj)) = Some oper \<and>
      opClientID oper = ctId (cs[ci := (cs ! ci)\<lparr>ctPending := False\<rparr>] ! cj) \<and>
      opInput oper = ctCmd (cs[ci := (cs ! ci)\<lparr>ctPending := False\<rparr>] ! cj)" by auto
next
  fix h assume "fmlookup (fmdrop (ctHistID (cs ! ci)) p) h \<noteq> None"
  then obtain x where "fmlookup p h = Some x" and h: "h \<noteq> ctHistID (cs ! ci)" by (auto split: if_split_asm)
  from loop_okD(3) [OF ok this(1)] obtain cj where "cj < length cs" "ctPending (cs ! cj)" "ctHistID (cs ! cj) = h" by blast
  with h show "\<exists>cj < length (cs[ci := (cs ! ci)\<lparr>ctPending := False\<rparr>]). ctPending (cs[ci := (cs ! ci)\<lparr>ctPending := False\<rparr>] ! cj) \<and>
      ctHistID (cs[ci := (cs ! ci)\<lparr>ctPending := False\<rparr>] ! cj) = h"
    by (intro exI [of _ cj]) (cases "cj = ci"; auto)
qed (use ci in \<open>auto simp: nth_list_update loop_okD(1) [OF ok] split: if_split_asm intro: loop_okD(4) [OF ok]\<close>)

lemma loop_invoke:
  assumes ok: "loop_ok cs p" and ci: "ci < length cs" and pend: "\<not> ctPending (cs ! ci)" and k: "fmlookup p k = None"
    and x: "opClientID x = ctId (cs ! ci)" "opInput x = cmd"
  shows "loop_ok (cs[ci := (cs ! ci)\<lparr>ctCmd := cmd, ctHistID := k, ctPending := True\<rparr>]) (fmupd k x p)"
proof -
  let ?cs = "cs[ci := (cs ! ci)\<lparr>ctCmd := cmd, ctHistID := k, ctPending := True\<rparr>]"
  have other: "ctHistID (cs ! cj) \<noteq> k" if "cj < length cs" "ctPending (cs ! cj)" for cj
    using loop_okD(2) [OF ok that] k by auto
  show ?thesis
  proof (rule loop_okI)
    fix cj assume "cj < length ?cs" "ctPending (?cs ! cj)"
    then show "\<exists>oper. fmlookup (fmupd k x p) (ctHistID (?cs ! cj)) = Some oper \<and> opClientID oper = ctId (?cs ! cj) \<and>
        opInput oper = ctCmd (?cs ! cj)"
      using x ci other [of cj] loop_okD(2) [OF ok, of cj] by (cases "cj = ci") auto
  next
    fix h assume h: "fmlookup (fmupd k x p) h \<noteq> None"
    show "\<exists>cj < length ?cs. ctPending (?cs ! cj) \<and> ctHistID (?cs ! cj) = h"
    proof (cases "h = k")
      case True
      with ci show ?thesis by (intro exI [of _ ci]) simp
    next
      case False
      with h obtain y where "fmlookup p h = Some y" by (auto split: if_split_asm)
      from loop_okD(3) [OF ok this] obtain cj where "cj < length cs" "ctPending (cs ! cj)" "ctHistID (cs ! cj) = h" by blast
      with pend show ?thesis by (intro exI [of _ cj]) (cases "cj = ci"; auto)
    qed
  next
    fix ca cb assume "ca < length ?cs" "cb < length ?cs" "ctPending (?cs ! ca)" "ctPending (?cs ! cb)"
      "ctHistID (?cs ! ca) = ctHistID (?cs ! cb)"
    then show "ca = cb"
      using ci other [of ca] other [of cb] loop_okD(4) [OF ok, of ca cb] by (cases "ca = ci"; cases "cb = ci") auto
  qed (use ci in \<open>auto simp: nth_list_update loop_okD(1) [OF ok]\<close>)
qed

lemma loop_hint:
  assumes ok: "loop_ok cs p"
    and f: "\<And>c. ctId (f c) = ctId c \<and> ctPending (f c) = ctPending c \<and> ctHistID (f c) = ctHistID c \<and> ctCmd (f c) = ctCmd c"
  shows "loop_ok (cs[ci := f (cs ! ci)]) p"
proof -
  have "ctId (cs[ci := f (cs ! ci)] ! k) = ctId (cs ! k)" "ctPending (cs[ci := f (cs ! ci)] ! k) = ctPending (cs ! k)"
    "ctHistID (cs[ci := f (cs ! ci)] ! k) = ctHistID (cs ! k)" "ctCmd (cs[ci := f (cs ! ci)] ! k) = ctCmd (cs ! k)" for k
    by (cases "k = ci"; cases "ci < length cs"; simp add: f list_update_beyond)+
  with ok show ?thesis unfolding loop_ok_def by (simp only: length_list_update)
qed

lemma recorded_fresh: "recorded t h \<Longrightarrow> fmlookup (hPending h) (hNextID h) = None"
proof (rule ccontr)
  assume "recorded t h" and "fmlookup (hPending h) (hNextID h) \<noteq> None"
  then obtain x where "pending_ok t h" "fmlookup (hPending h) (hNextID h) = Some x" using recorded_inv by blast
  then show False unfolding pending_ok_def by blast
qed

lemma recorded_mono: "recorded t h \<Longrightarrow> t \<le> t' \<Longrightarrow> recorded t' h"
  using rec_complete [of t h t' "hNextID h"] recorded_fresh [of t h] by (simp add: Complete_def)

text \<open>The operations of one client follow each other.\<close>

definition sequential :: "History \<Rightarrow> bool" where
  "sequential h \<longleftrightarrow>
     sorted_wrt (\<lambda>x y. opClientID x = opClientID y \<longrightarrow> opReturn x \<le> opCall y) (hOps h) \<and>
     (\<forall>x \<in> set (hOps h). \<forall>i oper. fmlookup (hPending h) i = Some oper \<longrightarrow> opClientID x = opClientID oper \<longrightarrow>
        opReturn x \<le> opCall oper)"

lemma sequential_invoke: "sequential h \<Longrightarrow> recorded t h \<Longrightarrow> sequential (snd (Invoke h c cmd t))"
  using recorded_inv [of t h] by (auto simp: sequential_def Invoke_def Let_def split: if_split_asm)

lemma sequential_complete:
  assumes "sequential h"
    and "\<And>j x y. fmlookup (hPending h) i = Some x \<Longrightarrow> fmlookup (hPending h) j = Some y \<Longrightarrow>
      opClientID y = opClientID x \<Longrightarrow> j = i"
  shows "sequential (Complete h i r t)"
  using assms(1) assms(2) [OF _ _ sym] by (auto simp: sequential_def Complete_def sorted_wrt_append split: option.split if_split_asm)

lemma loop_alone:
  assumes ok: "loop_ok cs p" and n: "length cs < 2 ^ 64" and x: "fmlookup p i = Some x" and y: "fmlookup p j = Some y"
    and eq: "opClientID y = opClientID x"
  shows "j = i"
proof -
  obtain ci cj where c: "ci < length cs" "ctPending (cs ! ci)" "ctHistID (cs ! ci) = i" "cj < length cs" "ctPending (cs ! cj)"
    "ctHistID (cs ! cj) = j" using loop_okD(3) [OF ok x] loop_okD(3) [OF ok y] by blast
  then have "word_of_nat (ci + 1) = (word_of_nat (cj + 1) :: uint64)"
    using loop_okD(2) [OF ok c(1,2)] loop_okD(2) [OF ok c(4,5)] loop_okD(1) [OF ok c(1)] loop_okD(1) [OF ok c(4)] x y eq by simp
  then have "unat (word_of_nat (ci + 1) :: uint64) = unat (word_of_nat (cj + 1) :: uint64)" by simp
  then have "ci + 1 = cj + 1" using n c(1,4) by (simp add: unat_of_nat take_bit_nat_eq_self del: of_nat_Suc)
  with c show "j = i" by simp
qed

definition closed_loop :: "Simulator \<Rightarrow> bool" where
  "closed_loop s \<longleftrightarrow> delays_ok s \<and> recorded (siNow s) (siHist s) \<and> loop_ok (siClients s) (hPending (siHist s)) \<and>
     (length (siClients s) < 2 ^ 64 \<longrightarrow> sequential (siHist s))"

lemma closed_books: "books s' = books s \<Longrightarrow> closed_loop s' = closed_loop s"
proof -
  assume "books s' = books s"
  from books_sel [OF this] show ?thesis by (simp add: closed_loop_def)
qed

lemma closed_hint:
  assumes "\<And>c. ctId (f c) = ctId c \<and> ctPending (f c) = ctPending c \<and> ctHistID (f c) = ctHistID c \<and> ctCmd (f c) = ctCmd c"
  shows "closed_loop s \<Longrightarrow> closed_loop (upd_client ci f s)"
  using loop_hint [OF _ assms] by (simp add: closed_loop_def)

lemma closed_finish:
  assumes s: "closed_loop s" and ci: "ci < length (siClients s)" and p: "ctPending (siClients s ! ci)"
  shows "closed_loop (finish ci r s)"
proof -
  let ?h = "ctHistID (siClients s ! ci)"
  obtain d t where t: "books t = books (upd_client ci (\<lambda>c. c\<lparr>ctPending := False\<rparr>) (recordControl ''return''
        (unat (ctId (siClients s ! ci))) (renderResult r) (s\<lparr>siHist := Complete (siHist s) ?h r (siNow s)\<rparr>)))"
    and f: "finish ci r s = scheduleClientOp ci d t" by (rule finish_eq [of ci s r]) blast
  from s have ok: "loop_ok (siClients s) (hPending (siHist s))" by (simp add: closed_loop_def)
  from loop_okD(2) [OF this ci p] have "hPending (Complete (siHist s) ?h r (siNow s)) = fmdrop ?h (hPending (siHist s))"
    by (auto simp: Complete_def)
  moreover have "recorded (siNow s) (Complete (siHist s) ?h r (siNow s))"
    using s by (auto simp: closed_loop_def intro: rec_complete)
  moreover have "sequential (Complete (siHist s) ?h r (siNow s))" if "length (siClients s) < 2 ^ 64"
    using s that by (auto simp: closed_loop_def intro!: sequential_complete intro: loop_alone [OF ok])
  ultimately have "closed_loop t" using s loop_complete [OF ok ci p] unfolding closed_books [OF t] by (simp add: closed_loop_def)
  then show ?thesis by (simp add: f scheduleClientOp_def closed_loop_def)
qed

lemma closed_beginOp:
  assumes s: "closed_loop s" and ci: "ci < length (siClients s)" and p: "\<not> ctPending (siClients s ! ci)"
  shows "closed_loop (beginOp ci s)"
proof -
  obtain cmd t where t: "books t = books (upd_client ci (\<lambda>c. c\<lparr>ctSeq := ctSeq c + 1, ctAttempt := 0\<rparr>) s)"
    and b: "beginOp ci s = recordControl ''invoke'' (unat (ctId (siClients t ! ci))) (renderCommand cmd)
      (upd_client ci (\<lambda>c. c\<lparr>ctCmd := cmd, ctHistID := hNextID (siHist s), ctPending := True\<rparr>)
        (t\<lparr>siHist := snd (Invoke (siHist s) (ctId (siClients t ! ci)) cmd (siNow s))\<rparr>))"
    by (rule beginOp_eq [of ci s]) blast
  note sel = books_sel [OF t]
  have t': "loop_ok (siClients t) (hPending (siHist s))" and "delays_ok t"
    using s closed_hint [of "\<lambda>c. c\<lparr>ctSeq := ctSeq c + 1, ctAttempt := 0\<rparr>" s ci] closed_books [OF t] sel(5)
    by (simp_all add: closed_loop_def)
  have fresh: "fmlookup (hPending (siHist s)) (hNextID (siHist s)) = None"
    using s recorded_fresh unfolding closed_loop_def by blast
  have ci_t: "ci < length (siClients t)" and np: "\<not> ctPending (siClients t ! ci)" using sel(6) ci p by simp_all
  have "recorded (siNow s) (snd (Invoke (siHist s) (ctId (siClients t ! ci)) cmd (siNow s)))"
    using s by (auto simp: closed_loop_def intro: rec_invoke)
  moreover have "loop_ok ((siClients t)[ci := (siClients t ! ci)\<lparr>ctCmd := cmd, ctHistID := hNextID (siHist s), ctPending := True\<rparr>])
      (hPending (snd (Invoke (siHist s) (ctId (siClients t ! ci)) cmd (siNow s))))"
    unfolding Invoke_def Let_def by (simp, rule loop_invoke [OF t' ci_t np fresh]) simp_all
  moreover have "siNow t = siNow s" "length (siClients t) = length (siClients s)" using sel(1,6) by simp_all
  moreover have "sequential (snd (Invoke (siHist s) (ctId (siClients t ! ci)) cmd (siNow s)))" if "length (siClients s) < 2 ^ 64"
    using s that by (auto simp: closed_loop_def intro: sequential_invoke)
  ultimately show ?thesis using \<open>delays_ok t\<close> by (simp add: b closed_loop_def)
qed

interpretation cl: sim_contract "\<lambda>s. closed_loop s \<and> length (siClients s) = n" n for n
proof
  fix s s' :: Simulator
  assume "closed_loop s \<and> length (siClients s) = n" and b: "books s' = books s"
  with books_sel [OF b] closed_books [OF b] show "closed_loop s' \<and> length (siClients s') = n" by simp
qed (simp_all add: closed_finish closed_beginOp closed_hint finish_frame beginOp_frame, simp_all add: closed_loop_def)

end
