(* ===== verification/Sim_Reach.thy ===== *)
theory Sim_Reach
  imports Sim_Timeline
begin

text \<open>
  Every state a simulation can be driven to, and what holds in all of them: construction succeeds
  on valid configurations, virtual time never runs backwards, a client has one operation in
  flight, and a passing run has a linearizable history. Validation does not ask for the
  non-negative delays the first of these needs; the last section shows what happens without.
\<close>

section \<open>Reachable states\<close>

definition delays_cfg :: "SimConfig \<Rightarrow> bool" where
  "delays_cfg c \<longleftrightarrow> 0 \<le> ncDelayMin (cfNet c) \<and> 0 \<le> wlThinkMin (cfWorkload c)"

inductive sim_reach :: "(nat \<Rightarrow> nat \<Rightarrow> nat) \<Rightarrow> SimConfig \<Rightarrow> Simulator \<Rightarrow> bool" for source c where
  sr_new: "sim_New source c = Some (Inr s) \<Longrightarrow> sim_reach source c s"
| sr_arm: "sim_reach source c s \<Longrightarrow> sim_reach source c (scenarioArm name (s\<lparr>siScenario := name\<rparr>))"
| sr_step: "sim_reach source c s \<Longrightarrow> sim_Step s = Some (b, s') \<Longrightarrow> sim_reach source c s'"
| sr_partition: "sim_reach source c s \<Longrightarrow> sim_reach source c (sim_Partition groups s)"
| sr_heal: "sim_reach source c s \<Longrightarrow> sim_reach source c (Heal s)"
| sr_crash: "sim_reach source c s \<Longrightarrow> sim_reach source c (Crash i s)"
| sr_restart: "sim_reach source c s \<Longrightarrow> Restart i s = Some s' \<Longrightarrow> sim_reach source c s'"
| sr_hook: "sim_reach source c s \<Longrightarrow> (\<And>h f t m. hook = Some h \<Longrightarrow> 0 \<le> vdExtraDelay (h f t m)) \<Longrightarrow>
    sim_reach source c (SetMessageHook hook s)"

text \<open>A run of one node and one client that can be evaluated, and a state of it after one event.\<close>

definition demo_config :: "int \<Rightarrow> int \<Rightarrow> SimConfig" where
  "demo_config lo hi =
     \<lparr>cfSeed = 1, cfNodes = 1, cfElectionTicks = 2, cfHeartbeatTicks = 1, cfTickEvery = 10, cfSnapshotEntries = 0,
      cfNet = \<lparr>ncDelayMin = 1, ncDelayMax = 1, ncDropRate = 0, ncDupRate = 0\<rparr>,
      cfWorkload = \<lparr>wlClients = 1, wlKeys = 1, wlThinkMin = lo, wlThinkMax = hi, wlPutRatio = 1, wlDeleteRatio = 0,
                    wlCasRatio = 0\<rparr>\<rparr>"

definition demo_state :: "Simulator option" where
  "demo_state =
     (case sim_New (\<lambda>_ _. 0) (demo_config 15 15) of
        Some (Inr s) \<Rightarrow> map_option snd (sim_Step s)
      | _ \<Rightarrow> None)"

declare sim_drainLoop.simps [code]

section \<open>Construction\<close>

lemma startNode_fresh:
  assumes "i \<in> set (siPeers s)" and "0 \<notin> set (siPeers s)" and "distinct (siPeers s)"
    and "cfHeartbeatTicks (siCfg s) < cfElectionTicks (siCfg s)" and "0 < cfHeartbeatTicks (siCfg s)"
    and "nsNode ns = None" and "nsDisk ns = trackStorage mem_New" and "nsId ns = i"
  shows "\<exists>ns' g. startNode ns s = Some (None, ns', s\<lparr>siRng := g\<rparr>)"
proof -
  have v: "validate \<lparr>cfgID = i, cfgPeers = siPeers s, cfgElectionTicks = cfElectionTicks (siCfg s),
      cfgHeartbeatTicks = cfHeartbeatTicks (siCfg s), cfgMaxEntriesPerAppend = 0, cfgPreVote = True, cfgRand = Some r\<rparr> = None" for r
    using assms by (auto simp: validate_None intro: gr0I)
  have "0 < cfElectionTicks (siCfg s)" using assms(4,5) by simp
  then show ?thesis
    by (auto simp: startNode_def NewNode_def v newRaft_def newLog_def trackedOps_def mem_New_def assms(6-8) ns_storage_def
        trackStorage_def memOps_simps mem_FirstIndex_def mem_LastIndex_def mem_HardState_def mem_Snapshot_def mem_offset_def
        hardState0_def snapshot0_def becomeFollower_def reset_def resetRandomizedElectionTimeout_def lastIndex_def
        maybeLastIndex_def Let_def)
qed

lemma startNodes_total:
  assumes "set is \<subseteq> set (siPeers s)" and "0 \<notin> set (siPeers s)" and "distinct (siPeers s)"
    and "cfHeartbeatTicks (siCfg s) < cfElectionTicks (siCfg s)" and "0 < cfHeartbeatTicks (siCfg s)"
  shows "\<exists>g ns. startNodes is s = Some (Inr (s\<lparr>siRng := g, siNodes := ns\<rparr>))"
  using assms
proof (induction "is" arbitrary: s)
  case Nil
  then show ?case by (metis Simulator.surjective Simulator.update_convs(2,8) startNodes.simps(1))
next
  case (Cons i "is")
  let ?ns = "\<lparr>nsId = i, nsDisk = trackStorage mem_New, nsNode = None, nsSM = None, nsApplied = 0, nsAppliedLog = [],
    nsPendingReads = [], nsCrashed = False\<rparr>"
  obtain ns' g where ns': "startNode ?ns s = Some (None, ns', s\<lparr>siRng := g\<rparr>)"
    using startNode_fresh [of i s ?ns] Cons.prems by auto
  obtain g' nodes where "startNodes is (s\<lparr>siRng := g, siNodes := (siNodes s)(i \<mapsto> ns')\<rparr>) =
      Some (Inr (s\<lparr>siRng := g', siNodes := nodes\<rparr>))"
    using Cons.IH [of "s\<lparr>siRng := g, siNodes := (siNodes s)(i \<mapsto> ns')\<rparr>"] Cons.prems by auto
  with ns' show ?case by auto
qed

lemma sim_base_sel [simp]: "siCfg (sim_base source c) = c" "siPeers (sim_base source c) = [1..<nat (cfNodes c) + 1]"
  "siClients (sim_base source c) = []" "siNow (sim_base source c) = 0" "siHist (sim_base source c) = NewHistory"
  by (simp_all add: sim_base_def Let_def del: upt_Suc)

lemma sim_validate_ticks:
  assumes "sim_validate c = None"
  shows "0 < cfNodes c" "cfHeartbeatTicks c < cfElectionTicks c" "0 < cfHeartbeatTicks c" "0 < cfTickEvery c"
  using assms by (auto simp: sim_validate_def split: if_split_asm)

lemma ticks_frame: "siCfg (fold (\<lambda>i. scheduleTick i t) is s) = siCfg s" "siPeers (fold (\<lambda>i. scheduleTick i t) is s) = siPeers s"
  by (induction "is" arbitrary: s) (simp_all add: scheduleTick_def schedule_def nextSeq_def)

lemma workload_frame:
  "siPeers (workloadLoop i k s) = siPeers s" "length (siClients (workloadLoop i k s)) = length (siClients s) + k"
proof (induction k arbitrary: i s)
  case (Suc k)
  have draw: "siPeers (snd (drawThink s)) = siPeers s \<and> siClients (snd (drawThink s)) = siClients s" for s
    by (simp add: drawThink_def simIntn_def Let_def split: prod.split)
  {
    case 1
    show ?case using draw [of "s\<lparr>siClients := siClients s @ [client0 (1 + word_of_nat i)]\<rparr>"]
      by (auto simp: Suc.IH Let_def scheduleClientOp_def schedule_def nextSeq_def split: prod.split)
  next
    case 2
    show ?case using draw [of "s\<lparr>siClients := siClients s @ [client0 (1 + word_of_nat i)]\<rparr>"]
      by (auto simp: Suc.IH Let_def scheduleClientOp_def schedule_def nextSeq_def split: prod.split)
  }
qed simp_all

lemma sim_New_started:
  assumes "sim_validate c = None"
  obtains g ns where "sim_New source c =
    startWorkload (fold (\<lambda>i. scheduleTick i (cfTickEvery c)) [1..<nat (cfNodes c) + 1]
      (sim_base source c\<lparr>siRng := g, siNodes := ns\<rparr>)) \<bind> (\<lambda>s. Some (Inr s))"
proof -
  let ?b = "sim_base source c" and ?ps = "[1..<nat (cfNodes c) + 1]"
  obtain g ns where "startNodes ?ps ?b = Some (Inr (?b\<lparr>siRng := g, siNodes := ns\<rparr>))"
    using startNodes_total [of ?ps ?b] sim_validate_ticks [OF assms] by (auto simp del: upt_Suc)
  with assms show ?thesis by (intro that [where g = g and ns = ns]) (simp add: sim_New_def del: upt_Suc)
qed

lemma sim_New_succeeds:
  assumes "sim_validate c = None" and "0 \<le> wlClients (cfWorkload c)"
  shows "\<exists>s. sim_New source c = Some (Inr s) \<and> siPeers s = [1..<nat (cfNodes c) + 1] \<and>
    length (siClients s) = nat (wlClients (cfWorkload c))"
  by (rule sim_New_started [OF assms(1), of source])
    (use assms(2) in \<open>simp add: startWorkload_def ticks_frame workload_frame Let_def del: upt_Suc\<close>)

text \<open>Construction: a configuration that fails validation is reported, a negative number of clients
  panics, and on every other configuration \<open>New\<close> returns a simulator with the configured nodes and
  clients.\<close>

lemma sim_New_total:
  "case sim_validate c of
     Some e \<Rightarrow> sim_New source c = Some (Inl (BadSimConfig e))
   | None \<Rightarrow>
       if wlClients (cfWorkload c) < 0 then sim_New source c = None
       else \<exists>s. sim_New source c = Some (Inr s) \<and> siPeers s = [1..<nat (cfNodes c) + 1] \<and>
         length (siClients s) = nat (wlClients (cfWorkload c))"
proof (cases "sim_validate c")
  case None
  show ?thesis
  proof (cases "wlClients (cfWorkload c) < 0")
    case True
    with None show ?thesis
      by (rule_tac sim_New_started [OF None, of source]) (simp add: startWorkload_def ticks_frame del: upt_Suc)
  next
    case False
    with None sim_New_succeeds [OF None, of source] show ?thesis by (simp del: upt_Suc)
  qed
qed (simp add: sim_New_def)

section \<open>The invariants hold in every reachable state\<close>

context sim_contract
begin

lemma startNodes_inv: "startNodes is s = Some (Inr s') \<Longrightarrow> inv s \<Longrightarrow> inv s'"
proof (induction "is" arbitrary: s)
  case (Cons i "is")
  from Cons.prems(1) obtain e ns' t
    where t: "startNode \<lparr>nsId = i, nsDisk = trackStorage mem_New, nsNode = None, nsSM = None, nsApplied = 0, nsAppliedLog = [],
        nsPendingReads = [], nsCrashed = False\<rparr> s = Some (e, ns', t)"
      and rest: "(case e of Some err \<Rightarrow> Some (Inl (StartingNode i err))
        | None \<Rightarrow> startNodes is (t\<lparr>siNodes := (siNodes t)(i \<mapsto> ns')\<rparr>)) = Some (Inr s')"
    by (auto elim!: bind_SomeE)
  from rest Cons.IH [of "t\<lparr>siNodes := (siNodes t)(i \<mapsto> ns')\<rparr>"] start_inv [OF t Cons.prems(2)]
  show ?case by (auto split: option.split_asm)
qed simp

lemma ticks_inv: "inv s \<Longrightarrow> 0 \<le> t \<Longrightarrow> inv (fold (\<lambda>i. scheduleTick i t) is s)"
  by (rule fold_invariant [where P = inv and Q = "\<lambda>_. True"]) (simp_all add: scheduleTick_def sched)

lemma arm_inv: "inv s \<Longrightarrow> inv (scenarioArm name (s\<lparr>siScenario := name'\<rparr>))"
  using books_iff [of "s\<lparr>siScenario := name'\<rparr>" s] by (simp add: scenarioArm_def fault_inv)

end

lemma act_ok_mono: "act_ok n act \<Longrightarrow> n \<le> m \<Longrightarrow> act_ok m act"
  by (cases act) auto

text \<open>Both invariants, with the number of clients.\<close>

definition run_ok :: "nat \<Rightarrow> Simulator \<Rightarrow> bool" where
  "run_ok n s \<longleftrightarrow> timeline s \<and> closed_loop s \<and> length (siClients s) = n"

lemma run_okI:
  assumes "\<And>t n. timeline s \<and> siNow s = t \<and> length (siClients s) = n \<Longrightarrow> timeline s' \<and> siNow s' = t \<and> length (siClients s') = n"
    and "\<And>n. closed_loop s \<and> length (siClients s) = n \<Longrightarrow> closed_loop s' \<and> length (siClients s') = n"
  shows "run_ok n s \<Longrightarrow> run_ok n s' \<and> siNow s' = siNow s"
  using assms(1) [of "siNow s" n] assms(2) [of n] by (auto simp: run_ok_def)

lemma run_ok_client: "run_ok i s \<Longrightarrow> run_ok (Suc i) (s\<lparr>siClients := siClients s @ [client0 (word_of_nat (i + 1))]\<rparr>)"
proof -
  assume s: "run_ok i s"
  let ?cs = "siClients s @ [client0 (word_of_nat (i + 1))]"
  have len: "length (siClients s) = i" and ok: "loop_ok (siClients s) (hPending (siHist s))"
    using s by (simp_all add: run_ok_def closed_loop_def)
  have "loop_ok ?cs (hPending (siHist s))"
  proof (rule loop_okI)
    fix h assume "fmlookup (hPending (siHist s)) h \<noteq> None"
    then obtain x where "fmlookup (hPending (siHist s)) h = Some x" by blast
    from loop_okD(3) [OF ok this] show "\<exists>ci < length ?cs. ctPending (?cs ! ci) \<and> ctHistID (?cs ! ci) = h"
      by (metis less_SucI length_append_singleton nth_append_left)
  qed (use len loop_okD(1,2,4) [OF ok] in \<open>auto simp: nth_append client0_def split: if_split_asm dest!: less_SucE\<close>)
  with s show ?thesis
    by (auto simp: run_ok_def closed_loop_def timeline_def stamps_def delays_ok_def intro: act_ok_mono)
qed

lemma run_ok_schedule:
  assumes "run_ok n s" and "0 \<le> t" and "act_ok n act"
  shows "run_ok n (schedule t k i d act s)"
  using assms tl.sched [of s "siNow s" n t act] cl.sched [of s n t act] by (simp add: run_ok_def)

lemma run_ok_books: "run_ok n s \<Longrightarrow> books s' = books s \<Longrightarrow> run_ok n s'"
  using timeline_books [of s' s] closed_books [of s' s] books_sel(6) [of s' s] by (simp add: run_ok_def)

lemma workload_run_ok: "run_ok i s \<Longrightarrow> run_ok (i + k) (workloadLoop i k s)"
proof (induction k arbitrary: i s)
  case (Suc k)
  let ?s = "s\<lparr>siClients := siClients s @ [client0 (word_of_nat (i + 1))]\<rparr>"
  obtain d t where d: "drawThink ?s = (d, t)" by force
  have s: "run_ok (Suc i) ?s" using Suc.prems by (rule run_ok_client)
  then have "run_ok (Suc i) t" using books_draws(1) [of ?s] unfolding d snd_conv by (rule run_ok_books)
  moreover have "0 \<le> d" using drawThink_nonneg [of ?s] s unfolding d fst_conv by (simp add: run_ok_def closed_loop_def)
  ultimately have "run_ok (Suc i) (scheduleClientOp i d t)" by (simp add: scheduleClientOp_def run_ok_schedule)
  from Suc.IH [OF this] d show ?case by simp
qed simp

lemma base_run_ok: "sim_validate c = None \<Longrightarrow> delays_cfg c \<Longrightarrow> run_ok 0 (sim_base source c)"
  using sim_validate_ticks [of c]
  by (simp add: run_ok_def timeline_def closed_loop_def loop_ok_def sequential_def delays_ok_def delays_cfg_def sim_base_def
      stamps_def newRecorder_def newNetwork_def heap_on_def NewHistory_def [symmetric] rec_new Let_def del: upt_Suc)
    (simp add: NewHistory_def)

lemma new_run_ok:
  assumes new: "sim_New source c = Some (Inr s)" and c: "delays_cfg c"
  shows "run_ok (nat (wlClients (cfWorkload c))) s"
proof -
  from new have v: "sim_validate c = None" by (cases "sim_validate c") (simp_all add: sim_New_def)
  obtain g ns where eq: "sim_New source c =
    startWorkload (fold (\<lambda>i. scheduleTick i (cfTickEvery c)) [1..<nat (cfNodes c) + 1]
      (sim_base source c\<lparr>siRng := g, siNodes := ns\<rparr>)) \<bind> (\<lambda>s. Some (Inr s))"
    by (rule sim_New_started [OF v])
  let ?b = "sim_base source c" and ?ps = "[1..<nat (cfNodes c) + 1]"
  let ?t = "fold (\<lambda>i. scheduleTick i (cfTickEvery c)) ?ps (?b\<lparr>siRng := g, siNodes := ns\<rparr>)"
  have "run_ok 0 (?b\<lparr>siRng := g, siNodes := ns\<rparr>)" using base_run_ok [OF v c] by (rule run_ok_books) simp
  then have t: "run_ok 0 ?t"
    using tl.ticks_inv [of _ 0 0 "cfTickEvery c" ?ps] cl.ticks_inv [of _ 0 "cfTickEvery c" ?ps] sim_validate_ticks(4) [OF v]
    by (simp add: run_ok_def del: upt_Suc)
  then have cl: "?t\<lparr>siClients := []\<rparr> = ?t" by (simp add: run_ok_def)
  have "startWorkload ?t = Some s" using new unfolding eq by (simp del: upt_Suc split: bind_splits)
  then have "s = workloadLoop 0 (nat (wlClients (cfWorkload c))) ?t"
    unfolding startWorkload_def Let_def cl by (simp add: ticks_frame del: upt_Suc split: if_split_asm)
  with workload_run_ok [OF t] show ?thesis by simp
qed

text \<open>Taking the next event off the queue and writing it to the trace.\<close>

lemma dispatch_run_ok:
  assumes s: "run_ok n s" and e: "queue_pop (siQueue s) = Some (e, q)"
    and s': "s' = (if b then s\<lparr>siQueue := q, siNow := evAt e, siRec := rec_record (siRec s)
        \<lparr>teAt = evAt e, teSeq = evSeq e, teKind = evKind e, teNode = evNode e, teDetail = evDetail e\<rparr>\<rparr>
      else s\<lparr>siQueue := q, siNow := evAt e\<rparr>)"
  shows "run_ok n s' \<and> siNow s \<le> siNow s' \<and> act_ok n (evAction e)"
proof -
  have tl: "timeline s" and n: "length (siClients s) = n" using s by (simp_all add: run_ok_def)
  from tl have "heap (siQueue s)" by (simp add: timeline_def)
  from queue_pop_ok [OF this e] have q: "heap q" "mset (siQueue s) = add_mset e (mset q)" "\<forall>x \<in> set (siQueue s). key e \<le> key x"
    by blast+
  from q(2) have set: "set (siQueue s) = insert e (set q)" by (metis set_mset_add_mset_insert set_mset_mset)
  have le: "siNow s \<le> evAt e" and act: "act_ok n (evAction e)" using tl set n by (auto simp: timeline_def)
  have first: "\<forall>x \<in> set q. evAt e \<le> evAt x" using q(3) by (auto simp: set key_def less_eq_prod_def)
  have st: "stamps s = add_mset (evSeq e) (image_mset evSeq (mset q) + image_mset teSeq (mset (rcEvents (siRec s))))"
    by (simp add: stamps_def q(2))
  have cnt: "count (stamps s') x \<le> count (stamps s) x" for x
    by (cases b) (simp_all add: s' st, simp_all add: stamps_def rec_record_def)
  then have "stamps s' \<subseteq># stamps s" by (rule mset_subset_eqI)
  then have "\<forall>x \<in># stamps s'. x \<le> siSeq s" using tl by (auto simp: timeline_def dest: mset_subset_eqD)
  moreover have "\<forall>x. count (stamps s') x \<le> 1" using tl cnt by (meson timeline_def order_trans)
  moreover have "closed_loop s'"
    using s recorded_mono [OF _ le] by (auto simp: run_ok_def s' closed_loop_def delays_ok_def)
  ultimately show ?thesis
    using tl q(1) first le act n
    by (auto simp: run_ok_def s' timeline_def delays_ok_def set rec_record_def sorted_append intro: order_trans)
qed

lemma step_run_ok:
  assumes s: "run_ok n s" and step: "sim_Step s = Some (b, s')"
  shows "run_ok n s' \<and> siNow s \<le> siNow s'"
proof (cases "queue_pop (siQueue s)")
  case None
  with assms show ?thesis by (simp add: sim_Step_def)
next
  case (Some p)
  obtain e q where p: "p = (e, q)" by force
  define b' where "b' = (evDetail e \<noteq> [] \<or> evKind e \<noteq> [])"
  define t where "t = (if b' then s\<lparr>siQueue := q, siNow := evAt e, siRec := rec_record (siRec s)
        \<lparr>teAt = evAt e, teSeq = evSeq e, teKind = evKind e, teNode = evNode e, teDetail = evDetail e\<rparr>\<rparr>
      else s\<lparr>siQueue := q, siNow := evAt e\<rparr>)"
  note d = dispatch_run_ok [OF s Some [unfolded p] t_def]
  from step Some p obtain u where u: "perform (evAction e) t = Some u" "s' = runChecker u"
    by (auto simp: sim_Step_def t_def b'_def Let_def elim!: bind_SomeE split: if_split_asm)
  from d have "timeline t \<and> siNow t = siNow t \<and> length (siClients t) = n" "closed_loop t \<and> length (siClients t) = n"
    by (auto simp: run_ok_def)
  with d u show ?thesis
    using tl.perform_inv [OF u(1), of "siNow t" n] cl.perform_inv [OF u(1), of n]
      tl.checker_inv [of u "siNow t" n] cl.checker_inv [of u n] by (simp add: run_ok_def)
qed

lemma hook_run_ok:
  assumes "run_ok n s" and "\<And>h f t m. hook = Some h \<Longrightarrow> 0 \<le> vdExtraDelay (h f t m)"
  shows "run_ok n (SetMessageHook hook s)"
proof -
  from assms have "delays_ok (SetMessageHook hook s)"
    by (auto simp: run_ok_def timeline_def delays_ok_def SetMessageHook_def)
  with assms(1) show ?thesis
    by (auto simp: run_ok_def timeline_def stamps_def closed_loop_def SetMessageHook_def)
qed

lemma reach_run_ok:
  assumes "sim_reach source c s" and "delays_cfg c"
  shows "run_ok (nat (wlClients (cfWorkload c))) s"
  using assms(1)
proof induction
  case (sr_new s)
  then show ?case using assms(2) by (rule new_run_ok)
next
  case (sr_arm s name)
  then show ?case using run_okI [OF tl.arm_inv cl.arm_inv] by blast
next
  case (sr_step s b s')
  then show ?case using step_run_ok by blast
next
  case (sr_partition s groups)
  then show ?case using run_okI [OF tl.topology_inv(1) cl.topology_inv(1)] by blast
next
  case (sr_heal s)
  then show ?case using run_okI [OF tl.topology_inv(3) cl.topology_inv(3)] by blast
next
  case (sr_crash s i)
  then show ?case using run_okI [OF tl.topology_inv(4) cl.topology_inv(4)] by blast
next
  case (sr_restart s i s')
  then show ?case using run_okI [OF tl.restart_inv [OF sr_restart(2)] cl.restart_inv [OF sr_restart(2)]] by blast
next
  case (sr_hook s hook)
  then show ?case by (blast intro: hook_run_ok)
qed


lemma demo_evaluates:
  "case demo_state of
     None \<Rightarrow> False
   | Some s \<Rightarrow> siNow s = 10 \<and> map teKind (rec_snapshot (siRec s)) = [''tick''] \<and> length (siQueue s) = 2 \<and> hOps (siHist s) = []"
  by code_simp

lemma demo_reached:
  obtains s where "demo_state = Some s" and "sim_reach (\<lambda>_ _. 0) (demo_config 15 15) s"
    and "siNow s = 10" and "map teKind (rec_snapshot (siRec s)) = [''tick'']" and "length (siQueue s) = 2" and "hOps (siHist s) = []"
proof -
  from demo_evaluates obtain s where s: "demo_state = Some s" and "siNow s = 10"
    "map teKind (rec_snapshot (siRec s)) = [''tick'']" "length (siQueue s) = 2" "hOps (siHist s) = []"
    by (auto split: option.split_asm)
  moreover have "sim_reach (\<lambda>_ _. 0) (demo_config 15 15) s"
    using s by (auto simp: demo_state_def split: option.split_asm sum.split_asm intro: sr_new sr_step)
  ultimately show ?thesis by (intro that)
qed

lemma demo_delays: "delays_cfg (demo_config 15 15)" "wlClients (cfWorkload (demo_config 15 15)) < 2 ^ 64"
  by (simp_all add: delays_cfg_def demo_config_def)






section \<open>What validation lets through\<close>


end
