(* ===== verification/Spec2Isabelle.thy ===== *)
theory Spec2Isabelle
  imports Cluster_Disk Raft_Rules Grpc_Transport KV_Client Sim_Reach
begin
text \<open>skeleton\<close>
end
